(* ===== verification/Prelude.thy ===== *)
theory Prelude
  imports Main "HOL-Library.Signed_Division" "HOL-Library.AList" "HOL-Library.Word"
begin

section \<open>Shared vocabulary of the development\<close>

text \<open>
  Go's fixed-width integers, durations and points in time, error values, and the maps and lists
  the components share.  An \<open>int64\<close> is an \<open>int\<close> on which every operation of the code that can
  leave the range is wrapped explicitly by \<open>i64\<close> (two's complement), so a counter that overflows
  behaves in the model as it does in the program; the lemma \<open>i64_id\<close> removes the wrap where the
  value is in range.  A \<open>time.Duration\<close> is an \<open>int64\<close> number of nanoseconds and a \<open>time.Time\<close> is
  a number of nanoseconds since the Unix epoch; a call of \<open>time.Now()\<close> is an argument of the
  operation that makes it, one argument for each call.
\<close>

subsection \<open>Fixed-width integers\<close>

definition i64 :: "int \<Rightarrow> int" where
  "i64 x = (x + 2 ^ 63) mod 2 ^ 64 - 2 ^ 63"

definition i32 :: "int \<Rightarrow> int" where
  "i32 x = (x + 2 ^ 31) mod 2 ^ 32 - 2 ^ 31"

definition u64 :: "int \<Rightarrow> int" where
  "u64 x = x mod 2 ^ 64"

abbreviation max_i64 :: int where
  "max_i64 \<equiv> 9223372036854775807"

abbreviation min_i64 :: int where
  "min_i64 \<equiv> - 9223372036854775808"

lemma i64_id [simp]: "min_i64 \<le> x \<Longrightarrow> x \<le> max_i64 \<Longrightarrow> i64 x = x"
  by (simp add: i64_def)

lemma i64_range: "min_i64 \<le> i64 x \<and> i64 x \<le> max_i64"
proof -
  have "0 \<le> (x + 2 ^ 63) mod 2 ^ 64" and "(x + 2 ^ 63) mod 2 ^ 64 < (2 ^ 64 :: int)"
    by (rule pos_mod_sign, simp, rule pos_mod_bound, simp)
  then show ?thesis by (simp add: i64_def)
qed

lemma i64_idem [simp]: "i64 (i64 x) = i64 x"
  using i64_range [of x] by simp

lemma i32_id [simp]: "- 2147483648 \<le> x \<Longrightarrow> x \<le> 2147483647 \<Longrightarrow> i32 x = x"
  by (simp add: i32_def)

lemma u64_id [simp]: "0 \<le> x \<Longrightarrow> x \<le> 18446744073709551615 \<Longrightarrow> u64 x = x"
  by (simp add: u64_def)

lemma u64_idem [simp]: "u64 (u64 x) = u64 x"
  by (simp add: u64_def)

lemma u64_add_left [simp]: "u64 (u64 a + b) = u64 (a + b)"
  by (simp add: u64_def mod_simps)

lemma u64_add_right [simp]: "u64 (a + u64 b) = u64 (a + b)"
  by (simp add: u64_def mod_simps)

lemma u64_cong_add: "u64 a = u64 b \<Longrightarrow> u64 (a + c) = u64 (b + c)"
  by (metis u64_add_left)

lemma u64_nonneg [simp]: "0 \<le> u64 x"
  by (simp add: u64_def)

subsection \<open>Durations and points in time\<close>

type_synonym duration = int
type_synonym time = int

abbreviation millisecond :: duration where
  "millisecond \<equiv> 1000000"

abbreviation second :: duration where
  "second \<equiv> 1000000000"

abbreviation minute :: duration where
  "minute \<equiv> 60000000000"

text \<open>
  The zero \<open>time.Time\<close> is 1 January of year 1, in nanoseconds before the epoch.  \<open>time.Since\<close>
  saturates at the ends of the \<open>int64\<close> range, as \<open>Time.Sub\<close> does.
\<close>

definition zero_time :: time where
  "zero_time = - 62135596800 * second"

definition sat64 :: "int \<Rightarrow> int" where
  "sat64 x = (if x < min_i64 then min_i64 else if max_i64 < x then max_i64 else x)"

definition since :: "time \<Rightarrow> time \<Rightarrow> duration" where
  "since now t = sat64 (now - t)"

lemma since_less_iff:
  "min_i64 < d \<Longrightarrow> d \<le> max_i64 \<Longrightarrow> since now t < d \<longleftrightarrow> now - t < d"
  by (auto simp: since_def sat64_def)

lemma since_greater_iff:
  "min_i64 \<le> d \<Longrightarrow> d < max_i64 \<Longrightarrow> d < since now t \<longleftrightarrow> d < now - t"
  by (auto simp: since_def sat64_def)

lemma since_range: "min_i64 \<le> since now t \<and> since now t \<le> max_i64"
  by (auto simp: since_def sat64_def)

lemma since_mono: "now \<le> now' \<Longrightarrow> since now t \<le> since now' t"
  by (auto simp: since_def sat64_def)

subsection \<open>Error values\<close>

text \<open>
  A Go \<open>error\<close> is its text and the sentinel values \<open>errors.Is\<close> finds on its chain.
  \<open>fmt.Errorf\<close> with \<open>%w\<close> keeps the chain of the error it wraps; with \<open>%v\<close> or without an error
  the new error has no chain.  The nil error is \<open>None\<close> of \<open>goerr option\<close>.
\<close>

datatype sentinel = ContextCanceled | ContextDeadlineExceeded | NetErrClosed | AmqpErrClosed
  | RedisErrClosed | RedisNil | IoEOF

record goerr =
  err_msg :: string
  err_chain :: "sentinel list"

definition errorf :: "string \<Rightarrow> goerr" where
  "errorf s = \<lparr>err_msg = s, err_chain = []\<rparr>"

definition wrap_err :: "string \<Rightarrow> goerr \<Rightarrow> goerr" where
  "wrap_err prefix e = \<lparr>err_msg = prefix @ err_msg e, err_chain = err_chain e\<rparr>"

definition errors_is :: "goerr \<Rightarrow> sentinel \<Rightarrow> bool" where
  "errors_is e s \<longleftrightarrow> s \<in> set (err_chain e)"

lemma errors_is_wrap [simp]: "errors_is (wrap_err p e) s = errors_is e s"
  by (simp add: errors_is_def wrap_err_def)

lemma errors_is_errorf [simp]: "\<not> errors_is (errorf m) s"
  by (simp add: errors_is_def errorf_def)

subsection \<open>Maps with an unspecified iteration order\<close>

text \<open>
  A Go map that the code ranges over is an association list with distinct keys; the order of the
  list stands for the order of the iteration, which Go leaves unspecified, so no property below
  depends on it.
\<close>

abbreviation keys :: "('k \<times> 'v) list \<Rightarrow> 'k list" where
  "keys m \<equiv> map fst m"

lemma distinct_keys_update [simp]:
  "distinct (keys m) \<Longrightarrow> distinct (keys (AList.update k v m))"
  by (rule distinct_update)

lemma map_of_update [simp]:
  "map_of (AList.update k v m) = (map_of m)(k \<mapsto> v)"
  by (simp add: update_conv')

lemma length_filter_update:
  assumes "distinct (keys m)" and "map_of m k = Some v"
  shows "length (filter P (AList.update k v' m)) + (if P (k, v) then 1 else 0)
         = length (filter P m) + (if P (k, v') then 1 else 0)"
  using assms
proof (induction m)
  case (Cons a m)
  show ?case
  proof (cases "fst a = k")
    case True
    with Cons.prems(2) have "a = (k, v)" by (cases a) auto
    then show ?thesis by simp
  next
    case False
    with Cons show ?thesis by (cases a) (auto split: if_splits)
  qed
qed simp

subsection \<open>Runs of a deterministic machine\<close>

text \<open>
  A component driven by a sequence of calls: \<open>trace\<close> collects what the calls return, \<open>final\<close> is the
  state after them.  The two locales are the interfaces the components' proofs use: an invariant
  kept by every call holds after every run, and a simulation between the code and a
  specification makes all their traces equal.
\<close>

fun trace :: "('s \<Rightarrow> 'e \<Rightarrow> 'o \<times> 's) \<Rightarrow> 's \<Rightarrow> 'e list \<Rightarrow> 'o list" where
  "trace step s [] = []"
| "trace step s (e # es) = fst (step s e) # trace step (snd (step s e)) es"

fun final :: "('s \<Rightarrow> 'e \<Rightarrow> 'o \<times> 's) \<Rightarrow> 's \<Rightarrow> 'e list \<Rightarrow> 's" where
  "final step s [] = s"
| "final step s (e # es) = final step (snd (step s e)) es"

lemma final_append [simp]: "final step s (xs @ ys) = final step (final step s xs) ys"
  by (induction xs arbitrary: s) simp_all

lemma trace_append: "trace step s (xs @ ys) = trace step s xs @ trace step (final step s xs) ys"
  by (induction xs arbitrary: s) simp_all

lemma length_trace [simp]: "length (trace step s es) = length es"
  by (induction es arbitrary: s) simp_all

lemma trace_nth:
  "i < length es \<Longrightarrow> trace step s es ! i = fst (step (final step s (take i es)) (es ! i))"
proof (induction es arbitrary: s i)
  case (Cons e es)
  then show ?case by (cases i) simp_all
qed simp

locale preserved =
  fixes step :: "'s \<Rightarrow> 'e \<Rightarrow> 'o \<times> 's"
    and inv :: "'s \<Rightarrow> bool"
  assumes inv_step: "inv s \<Longrightarrow> inv (snd (step s e))"
begin

lemma inv_final: "inv s \<Longrightarrow> inv (final step s es)"
  by (induction es arbitrary: s) (simp_all add: inv_step)

end

locale simulation =
  fixes cstep :: "'s \<Rightarrow> 'e \<Rightarrow> 'o \<times> 's"
    and astep :: "'t \<Rightarrow> 'e \<Rightarrow> 'o \<times> 't"
    and rel :: "'s \<Rightarrow> 't \<Rightarrow> bool"
  assumes same_output: "rel s t \<Longrightarrow> fst (cstep s e) = fst (astep t e)"
    and rel_step: "rel s t \<Longrightarrow> rel (snd (cstep s e)) (snd (astep t e))"
begin

lemma traces_agree: "rel s t \<Longrightarrow> trace cstep s es = trace astep t es"
  by (induction es arbitrary: s t) (simp_all add: same_output rel_step)

lemma rel_final: "rel s t \<Longrightarrow> rel (final cstep s es) (final astep t es)"
  by (induction es arbitrary: s t) (simp_all add: rel_step)

end

end
