(* ===== verification/CircuitSpec.thy ===== *)
theory CircuitSpec
  imports Prelude
begin

section \<open>What a circuit breaker promises\<close>

text \<open>
  The three states, shared by the two breakers of the repository, and the contract both keep,
  as a locale: which calls are admitted in which state, when failures open the circuit, and when
  successes close it.  The lemmas of the locale follow whole bursts of calls; the theories
  \<open>Breaker\<close> and \<open>BreakerV2\<close> interpret the locale on their own operations.
\<close>

datatype circuit_state = StateClosed | StateOpen | StateHalfOpen

definition state_string :: "circuit_state \<Rightarrow> string" where
  "state_string s = (case s of
     StateClosed \<Rightarrow> ''CLOSED''
   | StateOpen \<Rightarrow> ''OPEN''
   | StateHalfOpen \<Rightarrow> ''HALF_OPEN'')"

text \<open>
  \<open>ready t b\<close> says that the backoff of an open breaker has elapsed at time \<open>t\<close>; \<open>allow\<close>,
  \<open>success\<close> and \<open>failure\<close> take the readings of the clock they make.
\<close>

locale circuit_breaker =
  fixes phase :: "'b \<Rightarrow> circuit_state"
    and fails :: "'b \<Rightarrow> int"
    and succs :: "'b \<Rightarrow> int"
    and threshold :: "'b \<Rightarrow> int"
    and needed :: "'b \<Rightarrow> int"
    and ready :: "time \<Rightarrow> 'b \<Rightarrow> bool"
    and allow :: "time \<Rightarrow> time \<Rightarrow> 'b \<Rightarrow> bool \<times> 'b"
    and success :: "time \<Rightarrow> 'b \<Rightarrow> 'b"
    and failure :: "time \<Rightarrow> time \<Rightarrow> 'b \<Rightarrow> 'b"
  assumes allow_closed: "phase b = StateClosed \<Longrightarrow> allow t t' b = (True, b)"
    and allow_half: "phase b = StateHalfOpen \<Longrightarrow> allow t t' b = (True, b)"
    and allow_early: "phase b = StateOpen \<Longrightarrow> \<not> ready t b \<Longrightarrow> allow t t' b = (False, b)"
    and allow_late: "phase b = StateOpen \<Longrightarrow> ready t b \<Longrightarrow>
      fst (allow t t' b) \<and> phase (snd (allow t t' b)) = StateHalfOpen
      \<and> succs (snd (allow t t' b)) = succs b \<and> needed (snd (allow t t' b)) = needed b"
    and failure_phase: "fails b < max_i64 \<Longrightarrow> min_i64 \<le> fails b \<Longrightarrow> phase (failure t t' b) =
      (if phase b = StateClosed \<and> fails b + 1 < threshold b then StateClosed else StateOpen)"
    and failure_fails: "fails b < max_i64 \<Longrightarrow> min_i64 \<le> fails b \<Longrightarrow> fails (failure t t' b) = fails b + 1"
    and failure_succs: "succs (failure t t' b) = 0"
    and failure_frame: "threshold (failure t t' b) = threshold b" "needed (failure t t' b) = needed b"
    and success_closed: "phase b = StateClosed \<Longrightarrow> phase (success t b) = StateClosed \<and> fails (success t b) = 0"
    and success_half: "phase b = StateHalfOpen \<Longrightarrow> succs b < max_i64 \<Longrightarrow> min_i64 \<le> succs b \<Longrightarrow>
      phase (success t b) = (if needed b \<le> succs b + 1 then StateClosed else StateHalfOpen)
      \<and> (succs b + 1 < needed b \<longrightarrow> succs (success t b) = succs b + 1)"
    and success_frame: "threshold (success t b) = threshold b" "needed (success t b) = needed b"
begin

text \<open>A run of failures: \<open>n\<close> failures in a row open the circuit exactly when \<open>n\<close> reaches the threshold.\<close>

lemma failures_stay_open:
  assumes "phase b = StateOpen" and "0 \<le> fails b" and "fails b + int (length ts) \<le> max_i64"
  shows "phase (fold (\<lambda>(t, t'). failure t t') ts b) = StateOpen"
  using assms
proof (induction ts arbitrary: b)
  case (Cons p ts)
  obtain t t' where p: "p = (t, t')" by (cases p)
  have "phase (failure t t' b) = StateOpen" "fails (failure t t' b) = fails b + 1"
    using Cons.prems by (simp_all add: failure_phase failure_fails)
  then show ?case using Cons.IH [of "failure t t' b"] Cons.prems p by simp
qed simp

lemma failures_open:
  assumes "phase b = StateClosed" and "0 \<le> fails b" and "fails b + int (length ts) \<le> max_i64"
  shows "phase (fold (\<lambda>(t, t'). failure t t') ts b) =
    (if ts = [] \<or> fails b + int (length ts) < threshold b then StateClosed else StateOpen)"
  using assms
proof (induction ts arbitrary: b)
  case (Cons p ts)
  obtain t t' where p: "p = (t, t')" by (cases p)
  let ?b = "failure t t' b"
  have b: "phase ?b = (if fails b + 1 < threshold b then StateClosed else StateOpen)"
    "fails ?b = fails b + 1" "threshold ?b = threshold b"
    using Cons.prems by (simp_all add: failure_phase failure_fails failure_frame)
  show ?case
  proof (cases "fails b + 1 < threshold b")
    case True
    then show ?thesis using Cons.IH [of ?b] Cons.prems b p by auto
  next
    case False
    then show ?thesis using failures_stay_open [of ?b ts] Cons.prems b p by auto
  qed
qed simp

text \<open>While the backoff runs, an open breaker rejects every call and does not change.\<close>

lemma rejects_until_ready:
  assumes "phase b = StateOpen" and "\<forall>(t, t') \<in> set ts. \<not> ready t b"
  shows "fold (\<lambda>(t, t') b. snd (allow t t' b)) ts b = b"
  using assms(2)
proof (induction ts)
  case (Cons p ts)
  then have "snd (allow (fst p) (snd p) b) = b"
    using assms(1) by (auto simp: allow_early split: prod.splits)
  then show ?case using Cons by (simp add: case_prod_beta)
qed simp

text \<open>A run of successes closes a half-open breaker exactly when enough of them are recorded.\<close>

lemma successes_stay_closed:
  "phase b = StateClosed \<Longrightarrow> phase (fold success ts b) = StateClosed"
  by (induction ts arbitrary: b) (simp_all add: success_closed)

lemma successes_close:
  assumes "phase b = StateHalfOpen" and "0 \<le> succs b" and "succs b < needed b" and "needed b \<le> max_i64"
  shows "phase (fold success ts b) =
    (if succs b + int (length ts) < needed b then StateHalfOpen else StateClosed)"
  using assms
proof (induction ts arbitrary: b)
  case (Cons t ts)
  let ?b = "success t b"
  have b: "phase ?b = (if needed b \<le> succs b + 1 then StateClosed else StateHalfOpen)"
    "succs b + 1 < needed b \<longrightarrow> succs ?b = succs b + 1" "needed ?b = needed b"
    using success_half [of b t] success_frame [of t b] Cons.prems by auto
  show ?case
  proof (cases "needed b \<le> succs b + 1")
    case True
    then show ?thesis using successes_stay_closed [of ?b ts] b by simp
  next
    case False
    then show ?thesis using Cons.IH [of ?b] Cons.prems b by auto
  qed
qed simp

text \<open>One failing probe reopens the circuit at once and forgets the successes before it.\<close>

lemma probe_failure_reopens:
  assumes "phase b = StateHalfOpen" and "0 \<le> fails b" and "fails b < max_i64"
  shows "phase (failure t t' b) = StateOpen \<and> succs (failure t t' b) = 0"
  using assms by (simp add: failure_phase failure_succs)

end

end
