(* ===== verification/Float64.thy ===== *)
theory Float64
  imports Prelude Complex_Main "HOL-Library.Log_Nat"
begin

section \<open>IEEE 754 binary64 arithmetic\<close>

text \<open>
  Go's \<open>float64\<close>: a finite value is a rational, an operation computes the exact result and rounds
  it to 53 significant bits, ties to even, with the exponent range of binary64; a result beyond
  the range is an infinity.  The two zeros are one value here: the code never divides by a
  negative zero and never inspects a sign bit.  Conversions to \<open>int64\<close> truncate; the result for a
  value outside \<open>int64\<close>, which the Go specification leaves to the implementation, is the one of
  the amd64 instruction the program is built for (the least \<open>int64\<close>).
\<close>

datatype f64 = Fin rat | PInf | NInf | NaN

subsection \<open>Rounding\<close>

definition pow2 :: "int \<Rightarrow> rat" where
  "pow2 e = (if 0 \<le> e then 2 ^ nat e else 1 / 2 ^ nat (- e))"

definition ilog2 :: "rat \<Rightarrow> int" where
  "ilog2 x = (if 1 \<le> x then int (floorlog 2 (nat \<lfloor>x\<rfloor>)) - 1
              else - int (floorlog 2 (nat (\<lceil>1 / x\<rceil> - 1))))"

definition round_even :: "rat \<Rightarrow> int" where
  "round_even q = (let f = \<lfloor>q\<rfloor>; d = q - of_int f in
     if d < 1 / 2 then f
     else if 1 / 2 < d then f + 1
     else if even f then f else f + 1)"

definition exponent :: "rat \<Rightarrow> int" where
  "exponent x = max (ilog2 x - 52) (- 1074)"

definition round_pos :: "rat \<Rightarrow> rat" where
  "round_pos x = of_int (round_even (x / pow2 (exponent x))) * pow2 (exponent x)"

definition rnd :: "rat \<Rightarrow> rat" where
  "rnd x = (if x = 0 then 0 else if 0 < x then round_pos x else - round_pos (- x))"

definition to_f64 :: "rat \<Rightarrow> f64" where
  "to_f64 x = (let r = rnd x in
     if 2 ^ 1024 \<le> r then PInf else if r \<le> - (2 ^ 1024) then NInf else Fin r)"

subsection \<open>Operations\<close>

definition f64_of_int :: "int \<Rightarrow> f64" where
  "f64_of_int n = to_f64 (of_int n)"

definition f_neg :: "f64 \<Rightarrow> f64" where
  "f_neg x = (case x of Fin r \<Rightarrow> Fin (- r) | PInf \<Rightarrow> NInf | NInf \<Rightarrow> PInf | NaN \<Rightarrow> NaN)"

fun f_mul :: "f64 \<Rightarrow> f64 \<Rightarrow> f64" where
  "f_mul NaN y = NaN"
| "f_mul x NaN = NaN"
| "f_mul (Fin a) (Fin b) = to_f64 (a * b)"
| "f_mul (Fin a) y = (if a = 0 then NaN else if 0 < a then y else f_neg y)"
| "f_mul x (Fin b) = (if b = 0 then NaN else if 0 < b then x else f_neg x)"
| "f_mul PInf y = y"
| "f_mul NInf y = f_neg y"

fun f_div :: "f64 \<Rightarrow> f64 \<Rightarrow> f64" where
  "f_div NaN y = NaN"
| "f_div x NaN = NaN"
| "f_div (Fin a) (Fin b) =
     (if b = 0 then (if a = 0 then NaN else if 0 < a then PInf else NInf) else to_f64 (a / b))"
| "f_div (Fin a) y = Fin 0"
| "f_div x (Fin b) = (if 0 \<le> b then x else f_neg x)"
| "f_div x y = NaN"

fun f_add :: "f64 \<Rightarrow> f64 \<Rightarrow> f64" where
  "f_add NaN y = NaN"
| "f_add x NaN = NaN"
| "f_add (Fin a) (Fin b) = to_f64 (a + b)"
| "f_add (Fin a) y = y"
| "f_add x (Fin b) = x"
| "f_add x y = (if x = y then x else NaN)"

text \<open>Every comparison with a NaN is false.\<close>

fun f_le :: "f64 \<Rightarrow> f64 \<Rightarrow> bool" where
  "f_le NaN y = False"
| "f_le x NaN = False"
| "f_le (Fin a) (Fin b) = (a \<le> b)"
| "f_le NInf y = True"
| "f_le x PInf = True"
| "f_le x y = False"

fun f_lt :: "f64 \<Rightarrow> f64 \<Rightarrow> bool" where
  "f_lt NaN y = False"
| "f_lt x NaN = False"
| "f_lt (Fin a) (Fin b) = (a < b)"
| "f_lt NInf y = (y \<noteq> NInf)"
| "f_lt x PInf = (x \<noteq> PInf)"
| "f_lt x y = False"

abbreviation f_ge :: "f64 \<Rightarrow> f64 \<Rightarrow> bool" where
  "f_ge x y \<equiv> f_le y x"

definition trunc :: "rat \<Rightarrow> int" where
  "trunc r = (if 0 \<le> r then \<lfloor>r\<rfloor> else \<lceil>r\<rceil>)"

definition f_to_i64 :: "f64 \<Rightarrow> int" where
  "f_to_i64 x = (case x of
     Fin r \<Rightarrow> if min_i64 \<le> trunc r \<and> trunc r \<le> max_i64 then trunc r else min_i64
   | _ \<Rightarrow> min_i64)"

subsection \<open>Powers of two and the binary logarithm\<close>

lemma pow2_pos [simp]: "0 < pow2 e"
  by (simp add: pow2_def)

lemma pow2_nonneg [simp]: "0 \<le> pow2 e"
  using pow2_pos [of e] by (rule less_imp_le)

lemma pow2_not_neg [simp]: "\<not> pow2 e < 0"
  by (simp add: not_less)

lemma pow2_nonzero [simp]: "pow2 e \<noteq> 0"
  using pow2_pos [of e] by linarith

lemma pow2_powi: "pow2 e = 2 powi e"
  by (simp add: pow2_def power_int_def field_simps)

lemma pow2_add: "pow2 (a + b) = pow2 a * pow2 b"
  by (simp add: pow2_powi power_int_add)

lemma pow2_mono: "a \<le> b \<Longrightarrow> pow2 a \<le> pow2 b"
  by (simp add: pow2_powi power_int_increasing)

lemma pow2_less_iff: "pow2 a < pow2 b \<longleftrightarrow> a < b"
proof
  assume "pow2 a < pow2 b"
  then show "a < b" using pow2_mono [of b a] by (metis leD leI)
qed (simp add: pow2_powi power_int_strict_increasing)

lemma pow2_nat [simp]: "pow2 (int n) = 2 ^ n"
  by (simp add: pow2_def)

lemma pow2_minus: "pow2 (- e) = 1 / pow2 e"
  using pow2_add [of "- e" e] by (simp add: pow2_def field_simps)

lemma floorlog2_bounds:
  assumes "0 < n"
  shows "2 ^ (floorlog 2 n - 1) \<le> n" and "n < 2 ^ floorlog 2 n" and "0 < floorlog 2 n"
  using floorlog_bounds [of n 2] assms by (auto simp: floorlog_def)

lemma ilog2_bounds:
  assumes "0 < x"
  shows "pow2 (ilog2 x) \<le> x" and "x < pow2 (ilog2 x + 1)"
proof -
  have "pow2 (ilog2 x) \<le> x \<and> x < pow2 (ilog2 x + 1)"
  proof (cases "1 \<le> x")
    case True
    define n where "n = nat \<lfloor>x\<rfloor>"
    have n: "0 < n" using True by (simp add: n_def)
    have i: "int n = \<lfloor>x\<rfloor>" using True by (simp add: n_def)
    have eq: "ilog2 x = int (floorlog 2 n - 1)"
      using True floorlog2_bounds(3) [OF n] by (simp add: ilog2_def n_def of_nat_diff)
    have "(2::rat) ^ (floorlog 2 n - 1) \<le> of_nat n"
      using floorlog2_bounds(1) [OF n] by (metis of_nat_le_iff of_nat_power of_nat_numeral)
    also have "(of_nat n :: rat) = of_int \<lfloor>x\<rfloor>" using i by (metis of_int_of_nat_eq)
    also have "\<dots> \<le> x" by simp
    finally have lo: "pow2 (ilog2 x) \<le> x" unfolding eq by simp
    have "Suc n \<le> 2 ^ floorlog 2 n" using floorlog2_bounds(2) [OF n] by simp
    then have "(of_nat (Suc n) :: rat) \<le> 2 ^ floorlog 2 n"
      by (metis of_nat_le_iff of_nat_power of_nat_numeral)
    moreover have "x < of_nat (Suc n)"
      using i by (simp add: floor_less_iff) (metis add.commute floor_correct of_int_of_nat_eq of_int_add of_int_1)
    moreover have "ilog2 x + 1 = int (floorlog 2 n)"
      using eq floorlog2_bounds(3) [OF n] by simp
    ultimately show ?thesis using lo by simp
  next
    case False
    define m where "m = nat (\<lceil>1 / x\<rceil> - 1)"
    have y: "1 < 1 / x" using False assms by simp
    then have "of_int 2 - 1 < 1 / x" by simp
    then have c: "2 \<le> \<lceil>1 / x\<rceil>" by (rule le_ceiling_iff [THEN iffD2])
    have m: "0 < m" and im: "int m = \<lceil>1 / x\<rceil> - 1" using c unfolding m_def by linarith+
    have eq: "ilog2 x = - int (floorlog 2 m)"
      using False by (simp add: ilog2_def m_def)
    have "Suc m \<le> 2 ^ floorlog 2 m" using floorlog2_bounds(2) [OF m] by simp
    then have "(of_nat (Suc m) :: rat) \<le> 2 ^ floorlog 2 m"
      by (metis of_nat_le_iff of_nat_power of_nat_numeral)
    moreover have "(of_nat (Suc m) :: rat) = of_int \<lceil>1 / x\<rceil>"
      using im by (metis add.commute diff_add_cancel of_int_of_nat_eq of_nat_Suc of_int_add of_int_1 of_nat_1)
    ultimately have "1 / x \<le> 2 ^ floorlog 2 m"
      by (metis le_of_int_ceiling order_trans)
    then have lo: "pow2 (ilog2 x) \<le> x"
      unfolding eq pow2_minus using assms by (simp add: field_simps)
    have "(2::rat) ^ (floorlog 2 m - 1) \<le> of_nat m"
      using floorlog2_bounds(1) [OF m] by (metis of_nat_le_iff of_nat_power of_nat_numeral)
    also have "(of_nat m :: rat) = of_int (\<lceil>1 / x\<rceil> - 1)" using im by (metis of_int_of_nat_eq)
    also have "\<dots> < 1 / x" using ceiling_correct [of "1 / x"] by simp
    finally have "2 ^ (floorlog 2 m - 1) < 1 / x" .
    moreover have "ilog2 x + 1 = - int (floorlog 2 m - 1)"
      using eq floorlog2_bounds(3) [OF m] by simp
    ultimately have "x < pow2 (ilog2 x + 1)"
      using assms by (simp add: pow2_minus field_simps)
    with lo show ?thesis by simp
  qed
  then show "pow2 (ilog2 x) \<le> x" and "x < pow2 (ilog2 x + 1)" by simp_all
qed

lemma ilog2_eqI:
  assumes "0 < x" and "pow2 e \<le> x" and "x < pow2 (e + 1)"
  shows "ilog2 x = e"
proof -
  have "pow2 (ilog2 x) < pow2 (e + 1)" and "pow2 e < pow2 (ilog2 x + 1)"
    using ilog2_bounds [OF assms(1)] assms(2,3) by linarith+
  then show ?thesis by (simp add: pow2_less_iff)
qed

lemma ilog2_mono:
  assumes "0 < x" and "x \<le> y"
  shows "ilog2 x \<le> ilog2 y"
proof -
  have "pow2 (ilog2 x) < pow2 (ilog2 y + 1)"
    using ilog2_bounds(1) [of x] ilog2_bounds(2) [of y] assms by linarith
  then show ?thesis by (simp add: pow2_less_iff)
qed

subsection \<open>Rounding to an integer\<close>

lemma round_even_of_int [simp]: "round_even (of_int n) = n"
  by (simp add: round_even_def)

lemma round_even_bounds: "\<lfloor>q\<rfloor> \<le> round_even q" "round_even q \<le> \<lfloor>q\<rfloor> + 1"
  by (auto simp: round_even_def Let_def)

lemma round_even_mono:
  assumes "p \<le> q"
  shows "round_even p \<le> round_even q"
proof (cases "\<lfloor>p\<rfloor> = \<lfloor>q\<rfloor>")
  case True
  then show ?thesis using assms by (auto simp: round_even_def Let_def)
next
  case False
  then have "\<lfloor>p\<rfloor> + 1 \<le> \<lfloor>q\<rfloor>" using floor_mono [OF assms] by simp
  then show ?thesis using round_even_bounds(2) [of p] round_even_bounds(1) [of q] by linarith
qed

lemma round_even_le_int: "q \<le> of_int n \<Longrightarrow> round_even q \<le> n"
  using round_even_mono [of q "of_int n"] by simp

lemma round_even_ge_int: "of_int n \<le> q \<Longrightarrow> n \<le> round_even q"
  using round_even_mono [of "of_int n" q] by simp

subsection \<open>Rounding is monotone and exact on small integers\<close>

lemma exponent_mono: "0 < x \<Longrightarrow> x \<le> y \<Longrightarrow> exponent x \<le> exponent y"
  using ilog2_mono [of x y] by (simp add: exponent_def)

lemma round_pos_nonneg: "0 < x \<Longrightarrow> 0 \<le> round_pos x"
  using round_even_ge_int [of 0 "x / pow2 (exponent x)"]
  by (simp add: round_pos_def less_imp_le)

text \<open>
  A multiple of \<open>2 ^ k\<close> below \<open>2 ^ (53 + k)\<close> is representable, so rounding leaves it unchanged.
\<close>

lemma pow2_diff_int:
  assumes "e \<le> k"
  shows "pow2 k / pow2 e = of_int (2 ^ nat (k - e))"
proof -
  have "pow2 k = pow2 (k - e) * pow2 e" by (simp flip: pow2_add)
  then show ?thesis using assms by (simp add: pow2_def [of "k - e"])
qed

lemma round_pos_exact:
  assumes "0 < m" and "m < 2 ^ 53" and "- 1074 \<le> k"
  shows "round_pos (of_int m * pow2 k) = of_int m * pow2 k"
proof -
  let ?x = "of_int m * pow2 k"
  have x: "0 < ?x" using assms by simp
  have "of_int m < (of_int (2 ^ 53) :: rat)" using assms(2) by (rule of_int_less_iff [THEN iffD2])
  then have "of_int m < pow2 53" by (simp add: pow2_def [of 53])
  then have "?x < pow2 53 * pow2 k" by (rule mult_strict_right_mono) simp
  also have "\<dots> = pow2 (53 + k)" by (rule pow2_add [symmetric])
  finally have "pow2 (ilog2 ?x) < pow2 (53 + k)"
    using ilog2_bounds(1) [OF x] by linarith
  then have "exponent ?x \<le> k" using assms(3) by (simp add: pow2_less_iff exponent_def)
  then have "?x / pow2 (exponent ?x) = of_int (m * 2 ^ nat (k - exponent ?x))"
    using pow2_diff_int by (simp flip: times_divide_eq_right)
  then show ?thesis
    unfolding round_pos_def
    by (metis nonzero_divide_eq_eq pow2_nonzero round_even_of_int)
qed

lemma rnd_exact:
  assumes "\<bar>m\<bar> < 2 ^ 53" and "- 1074 \<le> k"
  shows "rnd (of_int m * pow2 k) = of_int m * pow2 k"
proof -
  consider "m = 0" | "0 < m" | "m < 0" by linarith
  then show ?thesis
  proof cases
    case 3
    have "round_pos (of_int (- m) * pow2 k) = of_int (- m) * pow2 k"
      using assms 3 by (intro round_pos_exact) auto
    then show ?thesis using 3 by (simp add: rnd_def zero_less_mult_iff not_less)
  qed (use assms in \<open>auto simp: rnd_def round_pos_exact\<close>)
qed

lemma rnd_of_int: "\<bar>m\<bar> < 2 ^ 53 \<Longrightarrow> rnd (of_int m) = of_int m"
  using rnd_exact [of m 0] by (simp add: pow2_def)

lemma rnd_pow2: "- 1074 \<le> k \<Longrightarrow> rnd (pow2 k) = pow2 k"
  using rnd_exact [of 1 k] by simp

lemma rnd_dyadic:
  assumes "\<bar>m\<bar> < 2 ^ 53" and "k \<le> 1074"
  shows "rnd (of_int m / 2 ^ k) = of_int m / 2 ^ k"
  using rnd_exact [of m "- int k"] assms by (simp add: pow2_minus)

lemma round_pos_mono:
  assumes "0 < x" and "x \<le> y"
  shows "round_pos x \<le> round_pos y"
proof (cases "exponent x = exponent y")
  case True
  have "x / pow2 (exponent y) \<le> y / pow2 (exponent y)"
    using assms by (simp add: divide_right_mono less_imp_le)
  then have "round_even (x / pow2 (exponent y)) \<le> round_even (y / pow2 (exponent y))"
    by (rule round_even_mono)
  then show ?thesis using True by (simp add: round_pos_def less_imp_le)
next
  case False
  let ?e = "exponent x" and ?d = "exponent y"
  have lt: "?e < ?d" using exponent_mono [OF assms] False by simp
  then have d: "?d = ilog2 y - 52" by (simp add: exponent_def max_def split: if_splits)
  have "pow2 (ilog2 x + 1) \<le> pow2 (53 + ?e)" by (rule pow2_mono) (simp add: exponent_def)
  then have "x \<le> pow2 53 * pow2 ?e"
    using ilog2_bounds(2) [OF assms(1)] by (simp flip: pow2_add)
  then have "x / pow2 ?e \<le> of_int (2 ^ 53)" by (simp add: pos_divide_le_eq pow2_def [of 53])
  then have "round_even (x / pow2 ?e) \<le> 2 ^ 53" by (rule round_even_le_int)
  then have "(of_int (round_even (x / pow2 ?e)) :: rat) \<le> of_int (2 ^ 53)"
    by (rule of_int_le_iff [THEN iffD2])
  then have "round_pos x \<le> of_int (2 ^ 53) * pow2 ?e"
    unfolding round_pos_def by (rule mult_right_mono) simp
  also have "\<dots> = pow2 (53 + ?e)" by (simp add: pow2_add pow2_def [of 53])
  also have "\<dots> \<le> pow2 (52 + ?d)" by (rule pow2_mono) (use lt in simp)
  also have "\<dots> = of_int (2 ^ 52) * pow2 ?d" by (simp add: pow2_add pow2_def [of 52])
  also have "\<dots> \<le> round_pos y"
  proof -
    have "0 < y" using assms by simp
    then have "pow2 (52 + ?d) \<le> y" using ilog2_bounds(1) [of y] d by simp
    then have "of_int (2 ^ 52) \<le> y / pow2 ?d"
      by (simp add: pos_le_divide_eq pow2_add pow2_def [of 52])
    then have "2 ^ 52 \<le> round_even (y / pow2 ?d)" by (rule round_even_ge_int)
    then have "(of_int (2 ^ 52) :: rat) \<le> of_int (round_even (y / pow2 ?d))"
      by (rule of_int_le_iff [THEN iffD2])
    then show ?thesis unfolding round_pos_def by (rule mult_right_mono) simp
  qed
  finally show ?thesis .
qed

lemma rnd_mono:
  assumes "x \<le> y"
  shows "rnd x \<le> rnd y"
proof -
  consider "0 < x" | "x \<le> 0" "0 \<le> y" | "y < 0" by linarith
  then show ?thesis
  proof cases
    case 2
    then have "rnd x \<le> 0" and "0 \<le> rnd y"
      using round_pos_nonneg [of y] round_pos_nonneg [of "- x"] by (auto simp: rnd_def)
    then show ?thesis by simp
  next
    case 3
    then show ?thesis using assms round_pos_mono [of "- y" "- x"] by (simp add: rnd_def)
  qed (use assms round_pos_mono [of x y] in \<open>simp add: rnd_def\<close>)
qed

subsection \<open>What callers use of a rounding\<close>

text \<open>
  The statistics and the backoff use only three laws of the rounding; their consequences are
  proved here once, for any rounding that has them, and hold for \<open>rnd\<close> by interpretation.
\<close>

locale rounding =
  fixes r :: "rat \<Rightarrow> rat"
  assumes r_mono: "x \<le> y \<Longrightarrow> r x \<le> r y"
    and r_int: "\<bar>m\<bar> < 2 ^ 53 \<Longrightarrow> r (of_int m) = of_int m"
    and r_power: "r (2 ^ n) = 2 ^ n"
begin

lemma r_0 [simp]: "r 0 = 0"
  using r_int [of 0] by simp

lemma r_1 [simp]: "r 1 = 1"
  using r_int [of 1] by simp

lemma r_nonneg: "0 \<le> x \<Longrightarrow> 0 \<le> r x"
  using r_mono [of 0 x] by simp

lemma r_ge_1: "1 \<le> x \<Longrightarrow> 1 \<le> r x"
  using r_mono [of 1 x] by simp

lemma r_le_power: "x \<le> 2 ^ n \<Longrightarrow> r x \<le> 2 ^ n"
  using r_mono [of x "2 ^ n"] by (simp add: r_power)

lemma r_ge_power: "2 ^ n \<le> x \<Longrightarrow> 2 ^ n \<le> r x"
  using r_mono [of "2 ^ n" x] by (simp add: r_power)

lemma ratio_nonneg:
  assumes "0 \<le> a" and "1 \<le> b"
  shows "0 \<le> r (r a / r b)"
  using assms r_ge_1 [of b] by (intro r_nonneg divide_nonneg_nonneg) auto

lemma ratio_le_1:
  assumes "a \<le> b" and "1 \<le> b"
  shows "r (r a / r b) \<le> 1"
proof -
  have "r a / r b \<le> 1" using r_mono [OF assms(1)] r_ge_1 [OF assms(2)] by simp
  then show ?thesis using r_mono [of "r a / r b" 1] by simp
qed

lemma ratio_le_power:
  assumes "0 \<le> a" and "a \<le> 2 ^ n" and "1 \<le> b"
  shows "r (r a / r b) \<le> 2 ^ n"
proof (rule r_le_power)
  have "r a / r b \<le> r a / 1"
    using r_ge_1 [OF assms(3)] r_nonneg [OF assms(1)] by (intro divide_left_mono) auto
  then show "r a / r b \<le> 2 ^ n" using r_le_power [OF assms(2)] by simp
qed

lemma ratio_mono:
  assumes "a \<le> a'" and "1 \<le> b"
  shows "r (r a / r b) \<le> r (r a' / r b)"
  using assms r_ge_1 [of b] r_mono [of a a'] by (intro r_mono divide_right_mono) auto

lemma percent_bounds:
  assumes "0 \<le> a" and "a \<le> b" and "1 \<le> b"
  shows "0 \<le> r (r (r a / r b) * 100)" and "r (r (r a / r b) * 100) \<le> 100"
proof -
  show "0 \<le> r (r (r a / r b) * 100)"
    using ratio_nonneg [of a b] assms by (intro r_nonneg) simp
  have "r (r (r a / r b) * 100) \<le> r (of_int 100)"
    using ratio_le_1 [of a b] assms by (intro r_mono) simp
  also have "\<dots> = 100" using r_int [of 100] by simp
  finally show "r (r (r a / r b) * 100) \<le> 100" .
qed

lemma percent_le_power:
  assumes "0 \<le> a" and "a \<le> 2 ^ n" and "1 \<le> b"
  shows "r (r (r a / r b) * 100) \<le> 2 ^ (n + 7)"
proof (rule r_le_power)
  have "r (r a / r b) * 100 \<le> 2 ^ n * 100"
    using ratio_le_power [OF assms] by (rule mult_right_mono) simp
  also have "\<dots> \<le> 2 ^ n * (2 ^ 7 :: rat)" by (rule mult_left_mono) simp_all
  finally show "r (r a / r b) * 100 \<le> 2 ^ (n + 7)" by (simp only: power_add)
qed

end

interpretation ieee: rounding rnd
proof
  show "rnd x \<le> rnd y" if "x \<le> y" for x y using that by (rule rnd_mono)
  show "rnd (of_int m) = of_int m" if "\<bar>m\<bar> < 2 ^ 53" for m using that by (rule rnd_of_int)
  show "rnd (2 ^ n) = 2 ^ n" for n using rnd_pow2 [of "int n"] by simp
qed

subsection \<open>Finite results\<close>

lemma to_f64_finite:
  assumes "0 \<le> x" and "x \<le> 2 ^ 1023"
  shows "to_f64 x = Fin (rnd x)"
proof -
  have "rnd x \<le> 2 ^ 1023" using assms(2) by (rule ieee.r_le_power)
  moreover have "(2::rat) ^ 1023 < 2 ^ 1024" by (rule power_strict_increasing) simp_all
  moreover have "- (2 ^ 1024) < (0::rat)" by simp
  ultimately show ?thesis
    using ieee.r_nonneg [OF assms(1)] by (simp add: to_f64_def del: power_strict_increasing_iff)
qed

lemma le_power_1023: "n \<le> 1023 \<Longrightarrow> x \<le> (2::rat) ^ n \<Longrightarrow> x \<le> 2 ^ 1023"
  by (erule order_trans) (rule power_increasing, simp_all)

lemma f64_of_int_finite:
  assumes "0 \<le> n" and "n \<le> 2 ^ 64"
  shows "f64_of_int n = Fin (rnd (of_int n))"
proof -
  have "(of_int n :: rat) \<le> of_int (2 ^ 64)" using assms(2) by (rule of_int_le_iff [THEN iffD2])
  then have "(of_int n :: rat) \<le> 2 ^ 64" by simp
  then have "(of_int n :: rat) \<le> 2 ^ 1023" by (rule le_power_1023 [rotated]) simp
  then show ?thesis unfolding f64_of_int_def using assms(1) by (intro to_f64_finite) simp_all
qed

subsection \<open>Percentages\<close>

text \<open>The expression \<open>float64(a) / float64(b) * 100\<close>, which every statistic of the code uses.\<close>

definition percent :: "int \<Rightarrow> int \<Rightarrow> f64" where
  "percent a b = f_mul (f_div (f64_of_int a) (f64_of_int b)) (Fin 100)"

lemma percent_finite:
  assumes "0 \<le> a" and "a < 2 ^ 64" and "0 < b" and "b < 2 ^ 64"
  shows "percent a b = Fin (rnd (rnd (rnd (of_int a) / rnd (of_int b)) * 100))"
proof -
  let ?q = "rnd (of_int a) / rnd (of_int b)"
  have a: "(0::rat) \<le> of_int a" and b: "(1::rat) \<le> of_int b" using assms by simp_all
  have a': "(of_int a :: rat) \<le> 2 ^ 64"
    using assms(2) by (metis less_imp_le of_int_le_iff of_int_numeral of_int_power)
  have ra: "0 \<le> rnd (of_int a)" using a by (rule ieee.r_nonneg)
  have rb: "1 \<le> rnd (of_int b)" using b by (rule ieee.r_ge_1)
  have q0: "0 \<le> ?q" using ra rb by simp
  have "?q \<le> rnd (of_int a) / 1" using ra rb by (intro divide_left_mono) auto
  then have q: "?q \<le> 2 ^ 64" using ieee.r_le_power [OF a'] by simp
  have "to_f64 ?q = Fin (rnd ?q)"
    using q0 q by (intro to_f64_finite) (auto intro: le_power_1023 [rotated])
  moreover have "to_f64 (rnd ?q * 100) = Fin (rnd (rnd ?q * 100))"
  proof (rule to_f64_finite)
    show "0 \<le> rnd ?q * 100" using ieee.r_nonneg [OF q0] by simp
    have "rnd ?q * 100 \<le> 2 ^ 71" using ieee.r_le_power [OF q] by simp
    then show "rnd ?q * 100 \<le> 2 ^ 1023" by (rule le_power_1023 [rotated]) simp
  qed
  ultimately show ?thesis
    using assms rb by (simp add: percent_def f64_of_int_finite)
qed

lemma percent_at_most_100:
  assumes "0 \<le> a" and "a \<le> b" and "0 < b" and "b < 2 ^ 64"
  shows "f_le (Fin 0) (percent a b) \<and> f_le (percent a b) (Fin 100)"
  using assms ieee.percent_bounds [of "of_int a" "of_int b"] by (simp add: percent_finite)

lemma percent_above_100:
  assumes "2 ^ 63 \<le> a" and "a < 2 ^ 64" and "0 < b" and "b \<le> 2 ^ 62"
  shows "f_lt (Fin 100) (percent a b)"
proof -
  have b: "(1::rat) \<le> of_int b" using assms(3) by simp
  have "(2::rat) ^ 63 = of_int (2 ^ 63)" "of_int (2 ^ 62) = (2::rat) ^ 62" by simp_all
  then have "(2::rat) ^ 63 \<le> of_int a" "(of_int b :: rat) \<le> 2 ^ 62"
    using assms(1,4) by (metis of_int_le_iff)+
  then have ra: "2 ^ 63 \<le> rnd (of_int a)" and rb: "rnd (of_int b) \<le> 2 ^ 62"
    using ieee.r_ge_power [of 63] ieee.r_le_power [of _ 62] by blast+
  have rb1: "1 \<le> rnd (of_int b)" using b by (rule ieee.r_ge_1)
  have "2 * rnd (of_int b) \<le> rnd (of_int a)" using ra rb by simp
  then have "2 ^ 1 \<le> rnd (of_int a) / rnd (of_int b)" using rb1 by (simp add: le_divide_eq)
  then have "2 ^ 1 \<le> rnd (rnd (of_int a) / rnd (of_int b))" by (rule ieee.r_ge_power)
  then have "2 ^ 7 \<le> rnd (rnd (of_int a) / rnd (of_int b)) * 100" by simp
  then have "2 ^ 7 \<le> rnd (rnd (rnd (of_int a) / rnd (of_int b)) * 100)" by (rule ieee.r_ge_power)
  then show ?thesis using assms by (simp add: percent_finite)
qed

lemma percent_mono:
  assumes "0 \<le> a" and "a \<le> a'" and "a' < 2 ^ 64" and "0 < b" and "b < 2 ^ 64"
  shows "f_le (percent a b) (percent a' b)"
proof -
  have "rnd (rnd (rnd (of_int a) / rnd (of_int b)) * 100)
      \<le> rnd (rnd (rnd (of_int a') / rnd (of_int b)) * 100)"
    using assms ieee.ratio_mono [of "of_int a" "of_int a'" "of_int b"]
    by (intro ieee.r_mono) simp
  then show ?thesis using assms by (simp add: percent_finite)
qed

subsection \<open>Doubling a duration\<close>

lemma trunc_of_int [simp]: "trunc (of_int n) = n"
  by (simp add: trunc_def)

lemma double_exact:
  assumes "0 \<le> c" and "c < 2 ^ 53"
  shows "f_to_i64 (f_mul (f64_of_int c) (Fin 2)) = 2 * c"
proof -
  have r: "rnd (of_int c) = of_int c" using assms by (intro rnd_of_int) simp
  have c': "(of_int c :: rat) \<le> 2 ^ 53"
    using assms(2) by (metis less_imp_le of_int_le_iff of_int_numeral of_int_power)
  have "of_int c * 2 \<le> (2::rat) ^ 54" using c' by simp
  then have "of_int c * 2 \<le> (2::rat) ^ 1023" by (rule le_power_1023 [rotated]) simp
  then have "to_f64 (of_int c * 2) = Fin (rnd (of_int c * 2))"
    using assms by (intro to_f64_finite) simp_all
  also have "rnd (of_int c * 2) = of_int c * 2"
    using rnd_exact [of c 1] assms by (simp add: pow2_def)
  also have "of_int c * 2 = (of_int (2 * c) :: rat)" by simp
  finally have "f_mul (f64_of_int c) (Fin 2) = Fin (of_int (2 * c))"
    using assms by (simp add: f64_of_int_finite r mult.commute)
  then show ?thesis using assms by (simp add: f_to_i64_def del: of_int_mult)
qed

lemma double_large:
  assumes "2 ^ 53 \<le> c" and "c \<le> 2 ^ 61"
  shows "2 ^ 54 \<le> f_to_i64 (f_mul (f64_of_int c) (Fin 2))"
proof -
  let ?x = "rnd (rnd (of_int c) * 2)"
  have c: "(2::rat) ^ 53 \<le> of_int c" "(of_int c :: rat) \<le> 2 ^ 61"
    using assms by (metis of_int_le_iff of_int_numeral of_int_power)+
  have r: "(2::rat) ^ 53 \<le> rnd (of_int c)" "rnd (of_int c) \<le> 2 ^ 61"
    by (rule ieee.r_ge_power [OF c(1)]) (rule ieee.r_le_power [OF c(2)])
  then have d: "(2::rat) ^ 54 \<le> rnd (of_int c) * 2" "rnd (of_int c) * 2 \<le> 2 ^ 62" by simp_all
  have x: "(2::rat) ^ 54 \<le> ?x" "?x \<le> 2 ^ 62"
    using ieee.r_ge_power [OF d(1)] ieee.r_le_power [OF d(2)] by simp_all
  have "to_f64 (rnd (of_int c) * 2) = Fin ?x"
    using d by (intro to_f64_finite le_power_1023 [of 62]) auto
  moreover have "trunc ?x = \<lfloor>?x\<rfloor>" using x by (simp add: trunc_def)
  moreover have "2 ^ 54 \<le> \<lfloor>?x\<rfloor>" "\<lfloor>?x\<rfloor> \<le> 2 ^ 62"
    using x by (simp_all add: le_floor_iff floor_le_iff)
  ultimately show ?thesis
    using assms by (simp add: f64_of_int_finite f_to_i64_def)
qed

end
