(* ===== verification/Breaker.thy ===== *)
theory Breaker
  imports CircuitSpec Float64
begin

section \<open>The circuit breaker of pkg/circuit\<close>

text \<open>
  \<open>pkg/circuit/breaker.go\<close>.  Every method holds the mutex for its whole body, so a method is one
  atomic operation on the record; \<open>Call\<close> is a sequence of three of them around the caller's
  function.  The messages printed on a change of state are left out.
\<close>

record breaker =
  cb_name :: string
  cb_maxFailures :: int
  cb_resetTimeout :: duration
  cb_halfOpenSuccesses :: int
  cb_initialBackoff :: duration
  cb_maxBackoff :: duration
  cb_backoffMultiplier :: f64
  cb_currentBackoff :: duration
  cb_state :: circuit_state
  cb_failures :: int
  cb_successes :: int
  cb_lastFailTime :: time
  cb_lastStateTime :: time

definition new_breaker :: "string \<Rightarrow> int \<Rightarrow> duration \<Rightarrow> time \<Rightarrow> breaker" where
  "new_breaker name maxFailures resetTimeout now =
     (let half = resetTimeout sdiv 2;
          initialBackoff = (if half < 5 * second then 5 * second else half)
      in \<lparr>cb_name = name, cb_maxFailures = maxFailures, cb_resetTimeout = resetTimeout,
          cb_halfOpenSuccesses = 3, cb_initialBackoff = initialBackoff,
          cb_maxBackoff = 10 * minute, cb_backoffMultiplier = Fin 2,
          cb_currentBackoff = initialBackoff, cb_state = StateClosed,
          cb_failures = 0, cb_successes = 0,
          cb_lastFailTime = zero_time, cb_lastStateTime = now\<rparr>)"

definition set_state :: "circuit_state \<Rightarrow> time \<Rightarrow> breaker \<Rightarrow> breaker" where
  "set_state newState now b =
     (if cb_state b \<noteq> newState
      then b\<lparr>cb_state := newState, cb_lastStateTime := now\<rparr> else b)"

definition breaker_allow :: "time \<Rightarrow> time \<Rightarrow> breaker \<Rightarrow> bool \<times> breaker" where
  "breaker_allow now now' b = (case cb_state b of
     StateClosed \<Rightarrow> (True, b)
   | StateOpen \<Rightarrow>
       if cb_currentBackoff b < since now (cb_lastFailTime b)
       then (True, set_state StateHalfOpen now' b)
       else (False, b)
   | StateHalfOpen \<Rightarrow> (True, b))"

definition record_success :: "time \<Rightarrow> breaker \<Rightarrow> breaker" where
  "record_success now b0 =
     (let b = b0\<lparr>cb_successes := i64 (cb_successes b0 + 1)\<rparr> in case cb_state b of
        StateClosed \<Rightarrow>
          b\<lparr>cb_failures := 0, cb_currentBackoff := cb_initialBackoff b\<rparr>
      | StateHalfOpen \<Rightarrow>
          if cb_halfOpenSuccesses b \<le> cb_successes b
          then (set_state StateClosed now b)
                 \<lparr>cb_failures := 0, cb_successes := 0, cb_currentBackoff := cb_initialBackoff b\<rparr>
          else b
      | StateOpen \<Rightarrow> b)"

definition grow_backoff :: "breaker \<Rightarrow> breaker" where
  "grow_backoff b =
     (let c = f_to_i64 (f_mul (f64_of_int (cb_currentBackoff b)) (cb_backoffMultiplier b))
      in b\<lparr>cb_currentBackoff := (if cb_maxBackoff b < c then cb_maxBackoff b else c)\<rparr>)"

definition record_failure :: "time \<Rightarrow> time \<Rightarrow> breaker \<Rightarrow> breaker" where
  "record_failure now now' b0 =
     (let b = b0\<lparr>cb_failures := i64 (cb_failures b0 + 1), cb_lastFailTime := now, cb_successes := 0\<rparr>
      in case cb_state b of
        StateClosed \<Rightarrow>
          if cb_maxFailures b \<le> cb_failures b
          then grow_backoff (set_state StateOpen now' b) else b
      | StateHalfOpen \<Rightarrow> grow_backoff (set_state StateOpen now' b)
      | StateOpen \<Rightarrow> b)"

definition breaker_reset :: "time \<Rightarrow> breaker \<Rightarrow> breaker" where
  "breaker_reset now b =
     b\<lparr>cb_state := StateClosed, cb_failures := 0, cb_successes := 0, cb_lastStateTime := now\<rparr>"

text \<open>
  \<open>Call\<close>: the caller's function runs on a state \<open>'s\<close> of its own and returns an error or nil.  The
  four readings of the clock are those of \<open>Allow\<close> and of the recording.
\<close>

definition breaker_call ::
  "time \<times> time \<Rightarrow> time \<times> time \<Rightarrow> ('s \<Rightarrow> goerr option \<times> 's) \<Rightarrow> breaker \<Rightarrow> 's
     \<Rightarrow> goerr option \<times> breaker \<times> 's" where
  "breaker_call ta tr fn b s =
     (let (allowed, b1) = breaker_allow (fst ta) (snd ta) b in
      if \<not> allowed
      then (Some (errorf (''circuit breaker '' @ cb_name b1 @ '' aberto'')), b1, s)
      else case fn s of
        (Some e, s1) \<Rightarrow> (Some e, record_failure (fst tr) (snd tr) b1, s1)
      | (None, s1) \<Rightarrow> (None, record_success (fst tr) b1, s1))"

record breaker_stats =
  bs_name :: string
  bs_state :: circuit_state
  bs_failures :: int
  bs_successes :: int
  bs_maxFailures :: int
  bs_currentBackoff :: duration
  bs_lastFailTime :: time
  bs_lastStateChange :: time

definition breaker_stats_of :: "breaker \<Rightarrow> breaker_stats" where
  "breaker_stats_of b = \<lparr>bs_name = cb_name b, bs_state = cb_state b, bs_failures = cb_failures b,
     bs_successes = cb_successes b, bs_maxFailures = cb_maxFailures b,
     bs_currentBackoff = cb_currentBackoff b, bs_lastFailTime = cb_lastFailTime b,
     bs_lastStateChange = cb_lastStateTime b\<rparr>"

lemmas breaker_defs =
  set_state_def breaker_allow_def record_success_def grow_backoff_def record_failure_def
  breaker_reset_def

subsection \<open>The contract\<close>

abbreviation backoff_over :: "time \<Rightarrow> breaker \<Rightarrow> bool" where
  "backoff_over t b \<equiv> cb_currentBackoff b < since t (cb_lastFailTime b)"

interpretation cb: circuit_breaker cb_state cb_failures cb_successes cb_maxFailures
  cb_halfOpenSuccesses backoff_over breaker_allow record_success record_failure
  by unfold_locales
    (auto simp: breaker_defs Let_def split: circuit_state.splits)

subsection \<open>The abstract breaker\<close>

text \<open>
  The specification forgets the clock bookkeeping, the counters that cannot influence a decision
  and the floating-point backoff.  \<open>SClosed n\<close> is a closed circuit after \<open>n\<close> failures in a row,
  \<open>SOpen t k\<close> one whose last failure was at \<open>t\<close>, \<open>SHalf k\<close> one on trial after \<open>k\<close> successes (\<open>k\<close> of an
  open circuit counts the calls that were admitted before it opened and succeeded after).  The
  level counts the openings since the last return to normal: the circuit stays shut for
  \<open>initial * 2 ^ level\<close>, at most \<open>cap\<close>.
\<close>

datatype spec_mode = SClosed int | SOpen time int | SHalf int

record spec_breaker =
  sp_maxFailures :: int
  sp_initial :: duration
  sp_cap :: duration
  sp_mode :: spec_mode
  sp_level :: nat

definition spec_wait :: "duration \<Rightarrow> duration \<Rightarrow> nat \<Rightarrow> duration" where
  "spec_wait initial cap level = (if level = 0 then initial else min (initial * 2 ^ level) cap)"

datatype breaker_event = EvAllow time time | EvSuccess time | EvFailure time time | EvReset time

fun breaker_step :: "breaker \<Rightarrow> breaker_event \<Rightarrow> bool option \<times> breaker" where
  "breaker_step b (EvAllow t t') = map_prod Some id (breaker_allow t t' b)"
| "breaker_step b (EvSuccess t) = (None, record_success t b)"
| "breaker_step b (EvFailure t t') = (None, record_failure t t' b)"
| "breaker_step b (EvReset t) = (None, breaker_reset t b)"

definition spec_open :: "time \<Rightarrow> spec_breaker \<Rightarrow> spec_breaker" where
  "spec_open t s = s\<lparr>sp_mode := SOpen t 0, sp_level := Suc (sp_level s)\<rparr>"

definition spec_normal :: "spec_breaker \<Rightarrow> spec_breaker" where
  "spec_normal s = s\<lparr>sp_mode := SClosed 0, sp_level := 0\<rparr>"

fun spec_step :: "spec_breaker \<Rightarrow> breaker_event \<Rightarrow> bool option \<times> spec_breaker" where
  "spec_step s (EvAllow t t') = (case sp_mode s of
     SOpen t0 k \<Rightarrow>
       if spec_wait (sp_initial s) (sp_cap s) (sp_level s) < t - t0
       then (Some True, s\<lparr>sp_mode := SHalf k\<rparr>) else (Some False, s)
   | _ \<Rightarrow> (Some True, s))"
| "spec_step s (EvSuccess t) = (None, case sp_mode s of
     SClosed n \<Rightarrow> spec_normal s
   | SOpen t0 k \<Rightarrow> s\<lparr>sp_mode := SOpen t0 (i64 (k + 1))\<rparr>
   | SHalf k \<Rightarrow> if 3 \<le> i64 (k + 1) then spec_normal s else s\<lparr>sp_mode := SHalf (i64 (k + 1))\<rparr>)"
| "spec_step s (EvFailure t t') = (None, case sp_mode s of
     SClosed n \<Rightarrow> if sp_maxFailures s \<le> n + 1 then spec_open t s else s\<lparr>sp_mode := SClosed (n + 1)\<rparr>
   | SOpen t0 k \<Rightarrow> s\<lparr>sp_mode := SOpen t 0\<rparr>
   | SHalf k \<Rightarrow> spec_open t s)"
| "spec_step s (EvReset t) = (None, s\<lparr>sp_mode := SClosed 0\<rparr>)"

definition spec_init :: "int \<Rightarrow> duration \<Rightarrow> spec_breaker" where
  "spec_init maxFailures resetTimeout =
     \<lparr>sp_maxFailures = maxFailures, sp_initial = max (5 * second) (resetTimeout div 2),
      sp_cap = 10 * minute, sp_mode = SClosed 0, sp_level = 0\<rparr>"

subsection \<open>The simulation\<close>

definition breaker_consts :: "breaker \<Rightarrow> bool" where
  "breaker_consts b \<longleftrightarrow> cb_halfOpenSuccesses b = 3 \<and> cb_maxBackoff b = 10 * minute
     \<and> cb_backoffMultiplier b = Fin 2 \<and> 5 * second \<le> cb_initialBackoff b
     \<and> cb_initialBackoff b \<le> 2 ^ 61 \<and> cb_maxFailures b \<le> max_i64"

fun mode_rel :: "breaker \<Rightarrow> nat \<Rightarrow> spec_mode \<Rightarrow> bool" where
  "mode_rel b l (SClosed n) \<longleftrightarrow> cb_state b = StateClosed \<and> cb_failures b = n
     \<and> 0 \<le> n \<and> (n = 0 \<or> n < cb_maxFailures b)"
| "mode_rel b l (SOpen t k) \<longleftrightarrow> cb_state b = StateOpen \<and> cb_lastFailTime b = t
     \<and> cb_successes b = k \<and> 0 < l"
| "mode_rel b l (SHalf k) \<longleftrightarrow> cb_state b = StateHalfOpen \<and> cb_successes b = k \<and> 0 < l"

definition breaker_rel :: "breaker \<Rightarrow> spec_breaker \<Rightarrow> bool" where
  "breaker_rel b s \<longleftrightarrow> breaker_consts b \<and> sp_maxFailures s = cb_maxFailures b
     \<and> sp_initial s = cb_initialBackoff b \<and> sp_cap s = cb_maxBackoff b
     \<and> cb_currentBackoff b = spec_wait (sp_initial s) (sp_cap s) (sp_level s)
     \<and> mode_rel b (sp_level s) (sp_mode s)"

lemma spec_wait_bounds:
  "0 < initial \<Longrightarrow> 0 \<le> cap \<Longrightarrow> 0 < l \<Longrightarrow> 0 \<le> spec_wait initial cap l \<and> spec_wait initial cap l \<le> cap"
  by (simp add: spec_wait_def)

lemma grow_backoff_wait:
  assumes "breaker_consts b"
    and "cb_currentBackoff b = spec_wait (cb_initialBackoff b) (cb_maxBackoff b) l"
  shows "grow_backoff b =
    b\<lparr>cb_currentBackoff := spec_wait (cb_initialBackoff b) (cb_maxBackoff b) (Suc l)\<rparr>"
proof -
  let ?i = "cb_initialBackoff b" and ?c = "cb_currentBackoff b" and ?m = "cb_maxBackoff b"
  let ?d = "f_to_i64 (f_mul (f64_of_int ?c) (Fin 2))"
  have k: "5 * second \<le> ?i" "?i \<le> 2 ^ 61" "?m = 10 * minute" "cb_backoffMultiplier b = Fin 2"
    using assms(1) by (auto simp: breaker_consts_def)
  have "(if ?m < ?d then ?m else ?d) = spec_wait ?i ?m (Suc l)"
  proof (cases "?c < 2 ^ 53")
    case True
    have "0 \<le> ?c" using assms(2) k by (simp add: spec_wait_def)
    with True have d: "?d = 2 * ?c" by (intro double_exact)
    have "?i \<le> ?i * 2 ^ l" using k by simp
    then have "min (2 * min (?i * 2 ^ l) ?m) ?m = min (?i * 2 ^ Suc l) ?m" using k by auto
    then show ?thesis using d assms(2) k by (auto simp: spec_wait_def min_def)
  next
    case False
    then have l: "l = 0" using assms(2) k by (auto simp: spec_wait_def split: if_splits)
    then have c: "?c = ?i" using assms(2) by (simp add: spec_wait_def)
    then have "2 ^ 54 \<le> ?d" using False k by (intro double_large) auto
    then show ?thesis using False k c l by (simp add: spec_wait_def)
  qed
  then show ?thesis by (simp add: grow_backoff_def k Let_def)
qed

lemma breaker_sim_allow:
  assumes "breaker_rel b s"
  shows "fst (breaker_step b (EvAllow t t')) = fst (spec_step s (EvAllow t t'))
    \<and> breaker_rel (snd (breaker_step b (EvAllow t t'))) (snd (spec_step s (EvAllow t t')))"
proof (cases "sp_mode s")
  case (SOpen t0 k)
  have "0 \<le> cb_currentBackoff b \<and> cb_currentBackoff b \<le> 10 * minute"
    using assms SOpen spec_wait_bounds [of "sp_initial s" "sp_cap s" "sp_level s"]
    by (auto simp: breaker_rel_def breaker_consts_def)
  then have "backoff_over t b \<longleftrightarrow> cb_currentBackoff b < t - cb_lastFailTime b"
    by (intro since_greater_iff) auto
  then show ?thesis
    using assms SOpen by (auto simp: breaker_rel_def breaker_defs breaker_consts_def)
qed (use assms in \<open>auto simp: breaker_rel_def breaker_defs\<close>)

lemma breaker_sim_success:
  assumes "breaker_rel b s"
  shows "breaker_rel (record_success t b) (snd (spec_step s (EvSuccess t)))"
proof (cases "sp_mode s")
  case (SHalf k)
  then show ?thesis using assms
    by (auto simp: breaker_rel_def breaker_defs breaker_consts_def spec_normal_def spec_wait_def)
qed (use assms in \<open>auto simp: breaker_rel_def breaker_defs breaker_consts_def
      spec_normal_def spec_wait_def\<close>)

lemma breaker_sim_failure:
  assumes "breaker_rel b s"
  shows "breaker_rel (record_failure t t' b) (snd (spec_step s (EvFailure t t')))"
proof -
  let ?b = "b\<lparr>cb_failures := i64 (cb_failures b + 1), cb_lastFailTime := t, cb_successes := 0\<rparr>"
  let ?o = "?b\<lparr>cb_state := StateOpen, cb_lastStateTime := t'\<rparr>"
  have grow: "grow_backoff ?o = ?o\<lparr>cb_currentBackoff :=
      spec_wait (cb_initialBackoff b) (cb_maxBackoff b) (Suc (sp_level s))\<rparr>"
    using assms by (subst grow_backoff_wait [where l = "sp_level s"])
      (auto simp: breaker_rel_def breaker_consts_def)
  show ?thesis
  proof (cases "sp_mode s")
    case (SClosed n)
    then have n: "cb_state b = StateClosed" "cb_failures b = n" "0 \<le> n" "n + 1 \<le> max_i64"
      "sp_maxFailures s = cb_maxFailures b"
      using assms by (auto simp: breaker_rel_def breaker_consts_def)
    show ?thesis
    proof (cases "cb_maxFailures b \<le> n + 1")
      case True
      then have "record_failure t t' b = grow_backoff ?o"
        using n by (simp add: record_failure_def set_state_def)
      then show ?thesis using assms SClosed True n grow
        by (simp add: breaker_rel_def breaker_consts_def spec_open_def)
    next
      case False
      then have "record_failure t t' b = ?b" using n by (simp add: record_failure_def)
      then show ?thesis using assms SClosed False n
        by (simp add: breaker_rel_def breaker_consts_def)
    qed
  next
    case (SOpen t0 k)
    then have "record_failure t t' b = ?b"
      using assms by (simp add: breaker_rel_def record_failure_def)
    then show ?thesis using assms SOpen by (simp add: breaker_rel_def breaker_consts_def)
  next
    case (SHalf k)
    then have "record_failure t t' b = grow_backoff ?o"
      using assms by (simp add: breaker_rel_def record_failure_def set_state_def)
    then show ?thesis using assms SHalf grow
      by (simp add: breaker_rel_def breaker_consts_def spec_open_def)
  qed
qed

lemma breaker_sim_reset:
  "breaker_rel b s \<Longrightarrow> breaker_rel (breaker_reset t b) (snd (spec_step s (EvReset t)))"
  by (simp add: breaker_rel_def breaker_reset_def breaker_consts_def)

interpretation cb_sim: simulation breaker_step spec_step breaker_rel
proof
  fix b s e
  assume r: "breaker_rel b s"
  show "fst (breaker_step b e) = fst (spec_step s e)"
    using r breaker_sim_allow [of b s] by (cases e) simp_all
  show "breaker_rel (snd (breaker_step b e)) (snd (spec_step s e))"
    using r breaker_sim_allow [of b s] breaker_sim_success [of b s] breaker_sim_failure [of b s]
      breaker_sim_reset [of b s]
    by (cases e) (simp_all del: spec_step.simps)
qed

lemma new_breaker_rel:
  assumes "resetTimeout \<le> 2 ^ 62" and "maxFailures \<le> max_i64"
  shows "breaker_rel (new_breaker name maxFailures resetTimeout now) (spec_init maxFailures resetTimeout)"
proof -
  have "(if resetTimeout sdiv 2 < 5 * second then 5 * second else resetTimeout sdiv 2)
      = max (5 * second) (resetTimeout div 2)"
  proof (cases "0 \<le> resetTimeout")
    case False
    then have "resetTimeout sdiv 2 = - ((- resetTimeout) div 2)"
      by (simp add: signed_divide_int_def)
    then have "resetTimeout sdiv 2 \<le> 0" and "resetTimeout div 2 \<le> 0" using False by linarith+
    then show ?thesis by simp
  qed (simp add: signed_divide_int_def sgn_if max_def)
  then show ?thesis
    using assms
    by (simp add: breaker_rel_def breaker_consts_def new_breaker_def spec_init_def Let_def spec_wait_def)
qed

text \<open>C9: The breaker refines its abstract specification: whatever the sequence of Allow,
  RecordSuccess, RecordFailure and Reset calls and whatever clock readings they make, the calls
  admitted by the code are exactly those admitted by the specification, in which an opened circuit
  stays shut for initial * 2 ^ level (at most ten minutes), with no floating point and no
  saturating clock arithmetic.\<close>

theorem breaker_refines_spec:
  assumes "resetTimeout \<le> 2 ^ 62" and "maxFailures \<le> max_i64"
  shows "trace breaker_step (new_breaker name maxFailures resetTimeout now) es
       = trace spec_step (spec_init maxFailures resetTimeout) es"
  using new_breaker_rel [OF assms] by (rule cb_sim.traces_agree)

theorem breaker_refines_spec_witness:
  "trace breaker_step (new_breaker ''cam1'' 2 (60 * second) 0)
     [EvFailure 1 2, EvFailure 3 4, EvAllow (3 + 60 * second) 5, EvAllow (4 + 60 * second) 6]
   = [None, None, Some False, Some True]"
proof -
  have "60 * second \<le> (2::int) ^ 62" and "(2::int) \<le> max_i64" by simp_all
  from breaker_refines_spec [OF this, of "''cam1''" 0
      "[EvFailure 1 2, EvFailure 3 4, EvAllow (3 + 60 * second) 5, EvAllow (4 + 60 * second) 6]"]
  show ?thesis by (simp add: spec_init_def spec_open_def spec_wait_def)
qed

text \<open>C15: The waiting time is bounded: in every state a breaker can reach from its construction, an
  open or half-open circuit carries a backoff of at least ten seconds and at most ten minutes (the
  backoff, at least five seconds at first, is already doubled by the first opening), and a closed
  one has no failures or fewer than its maximum.\<close>

theorem breaker_backoff_bounds:
  assumes "resetTimeout \<le> 2 ^ 62" and "maxFailures \<le> max_i64"
    and "b = final breaker_step (new_breaker name maxFailures resetTimeout now) es"
  shows "(cb_state b \<noteq> StateClosed \<longrightarrow>
            10 * second \<le> cb_currentBackoff b \<and> cb_currentBackoff b \<le> 10 * minute)
       \<and> (cb_state b = StateClosed \<longrightarrow>
            0 \<le> cb_failures b \<and> (cb_failures b = 0 \<or> cb_failures b < cb_maxFailures b))"
proof -
  let ?s = "final spec_step (spec_init maxFailures resetTimeout) es"
  have r: "breaker_rel b ?s"
    unfolding assms(3) by (rule cb_sim.rel_final [OF new_breaker_rel [OF assms(1,2)]])
  have w: "10 * second \<le> spec_wait i (10 * minute) l" if "5 * second \<le> i" "0 < l" for i l
  proof -
    have "10 * second \<le> i * 2 ^ 1" using that by simp
    also have "\<dots> \<le> i * 2 ^ l" using that by (intro mult_left_mono power_increasing) auto
    finally show ?thesis using that by (simp add: spec_wait_def)
  qed
  show ?thesis
    using r w [of "sp_initial ?s" "sp_level ?s"] spec_wait_bounds [of "sp_initial ?s" "sp_cap ?s" "sp_level ?s"]
    by (cases "sp_mode ?s") (auto simp: breaker_rel_def breaker_consts_def)
qed

theorem breaker_backoff_bounds_witness:
  "cb_currentBackoff (final breaker_step (new_breaker ''cam1'' 1 (60 * second) 0) [EvFailure 1 2])
     \<le> 10 * minute"
proof -
  let ?b = "final breaker_step (new_breaker ''cam1'' 1 (60 * second) 0) [EvFailure 1 2]"
  have "cb_state ?b = StateOpen"
    by (simp add: new_breaker_def breaker_defs Let_def)
  then show ?thesis
    using breaker_backoff_bounds [of "60 * second" 1 ?b "''cam1''" 0 "[EvFailure 1 2]"] by simp
qed

subsection \<open>Bursts of calls\<close>

text \<open>The circuit opens after exactly the configured number of failures in a row: from a closed
  breaker with a cleared counter, n recorded failures leave it closed when n is below
  maxFailures and open otherwise.\<close>

theorem breaker_opens_after_max_failures:
  assumes "cb_state b = StateClosed" and "cb_failures b = 0" and "int (length ts) \<le> max_i64"
  shows "cb_state (fold (\<lambda>(t, t'). record_failure t t') ts b) =
    (if ts = [] \<or> int (length ts) < cb_maxFailures b then StateClosed else StateOpen)"
  using cb.failures_open [of b ts] assms by simp

theorem breaker_opens_after_max_failures_witness:
  "cb_state (fold (\<lambda>(t, t'). record_failure t t') [(1, 1), (2, 2), (3, 3)]
     (new_breaker ''cam1'' 3 minute 0)) = StateOpen"
proof -
  let ?b = "new_breaker ''cam1'' 3 minute 0"
  have "cb_state ?b = StateClosed" "cb_failures ?b = 0" "cb_maxFailures ?b = 3"
    by (simp_all add: new_breaker_def Let_def)
  then show ?thesis
    using breaker_opens_after_max_failures [of ?b "[(1, 1), (2, 2), (3, 3)]"] by simp
qed

text \<open>Recovery needs the configured number of successful probes: a half-open breaker that has
  counted no success closes after exactly halfOpenSuccesses successes, not earlier.\<close>

theorem breaker_closes_after_probes:
  assumes "cb_state b = StateHalfOpen" and "cb_successes b = 0"
    and "0 < cb_halfOpenSuccesses b" and "cb_halfOpenSuccesses b \<le> max_i64"
  shows "cb_state (fold record_success ts b) =
    (if int (length ts) < cb_halfOpenSuccesses b then StateHalfOpen else StateClosed)"
  using cb.successes_close [of b ts] assms by simp

theorem breaker_closes_after_probes_witness:
  "let b = final breaker_step (new_breaker ''cam1'' 1 minute 0) [EvFailure 1 1, EvAllow (2 * minute) 5]
   in cb_state (fold record_success [6, 7] b) = StateHalfOpen
    \<and> cb_state (fold record_success [6, 7, 8] b) = StateClosed"
proof -
  let ?b = "final breaker_step (new_breaker ''cam1'' 1 minute 0) [EvFailure 1 1, EvAllow (2 * minute) 5]"
  have g: "f_to_i64 (f_mul (f64_of_int (30 * second)) (Fin 2)) = minute"
    using double_exact [of "30 * second"] by simp
  have h: "cb_state ?b = StateHalfOpen" "cb_successes ?b = 0" "cb_halfOpenSuccesses ?b = 3"
    using g by (simp_all add: new_breaker_def breaker_defs Let_def since_def sat64_def signed_divide_int_def)
  show ?thesis
    using breaker_closes_after_probes [of ?b "[6, 7]"] breaker_closes_after_probes [of ?b "[6, 7, 8]"] h
    by (simp add: Let_def)
qed

text \<open>
  A sequence of protected calls, as the capture loop makes them: each call comes with the clock
  readings of its check and of its recording.
\<close>

fun breaker_calls ::
  "('s \<Rightarrow> goerr option \<times> 's) \<Rightarrow> ((time \<times> time) \<times> (time \<times> time)) list \<Rightarrow> breaker \<Rightarrow> 's
     \<Rightarrow> goerr option list \<times> breaker \<times> 's" where
  "breaker_calls fn [] b s = ([], b, s)"
| "breaker_calls fn ((ta, tr) # cs) b s =
     (let (e, b1, s1) = breaker_call ta tr fn b s;
          (es, b2, s2) = breaker_calls fn cs b1 s1
      in (e # es, b2, s2))"

definition breaker_open_error :: "breaker \<Rightarrow> goerr" where
  "breaker_open_error b = errorf (''circuit breaker '' @ cb_name b @ '' aberto'')"

text \<open>An open circuit fails fast: as long as the backoff since the last failure has not elapsed,
  every call returns the breaker's own error, the protected function is never run, and neither
  its state nor the breaker changes.\<close>

theorem breaker_fails_fast:
  assumes "cb_state b = StateOpen"
    and "\<forall>c \<in> set cs. since (fst (fst c)) (cb_lastFailTime b) \<le> cb_currentBackoff b"
  shows "breaker_calls fn cs b s = (replicate (length cs) (Some (breaker_open_error b)), b, s)"
  using assms(2)
proof (induction cs)
  case (Cons c cs)
  obtain ta tr where c: "c = (ta, tr)" by (cases c)
  have "breaker_allow (fst ta) (snd ta) b = (False, b)"
    using Cons.prems assms(1) c by (simp add: breaker_allow_def)
  then show ?case
    using Cons c by (simp add: breaker_call_def breaker_open_error_def)
qed simp

theorem breaker_fails_fast_witness:
  "breaker_calls (\<lambda>n :: nat. (None, Suc n)) [((2, 2), (3, 3)), ((second, second), (second, second))]
     ((new_breaker ''cam1'' 1 minute 0)\<lparr>cb_state := StateOpen, cb_lastFailTime := 1\<rparr>) 0
   = ([Some (errorf ''circuit breaker cam1 aberto''), Some (errorf ''circuit breaker cam1 aberto'')],
      (new_breaker ''cam1'' 1 minute 0)\<lparr>cb_state := StateOpen, cb_lastFailTime := 1\<rparr>, 0)"
proof -
  let ?b = "(new_breaker ''cam1'' 1 minute 0)\<lparr>cb_state := StateOpen, cb_lastFailTime := 1\<rparr>"
  have "cb_state ?b = StateOpen"
    and "\<forall>c \<in> set [((2, 2), (3, 3)), ((second, second), (second, second))].
          since (fst (fst c)) (cb_lastFailTime ?b) \<le> cb_currentBackoff ?b"
    by (simp_all add: new_breaker_def Let_def since_def sat64_def signed_divide_int_def)
  from breaker_fails_fast [OF this, of "\<lambda>n :: nat. (None, Suc n)" 0]
  show ?thesis by (simp add: breaker_open_error_def new_breaker_def Let_def)
qed

text \<open>A call that is admitted runs the function exactly once and returns its result: on an error
  the failure is recorded, on success the success is, and the error reaches the caller
  unchanged.\<close>

theorem breaker_call_admitted:
  assumes "cb_state b \<noteq> StateOpen \<or> backoff_over (fst ta) b"
  shows "breaker_call ta tr fn b s =
    (let b1 = snd (breaker_allow (fst ta) (snd ta) b) in
     (fst (fn s),
      (case fst (fn s) of None \<Rightarrow> record_success (fst tr) b1
                        | Some e \<Rightarrow> record_failure (fst tr) (snd tr) b1),
      snd (fn s)))"
proof -
  have "fst (breaker_allow (fst ta) (snd ta) b)"
    using assms by (auto simp: breaker_allow_def split: circuit_state.splits)
  then show ?thesis
    by (auto simp: breaker_call_def Let_def split: prod.splits option.splits)
qed

theorem breaker_call_admitted_witness:
  "fst (breaker_call (1, 1) (2, 2) (\<lambda>n :: nat. (Some (errorf ''frame vazio''), Suc n))
     (new_breaker ''cam1'' 3 minute 0) 0) = Some (errorf ''frame vazio'')"
proof -
  have "cb_state (new_breaker ''cam1'' 3 minute 0) \<noteq> StateOpen \<or>
      backoff_over (fst (1, 1 :: time)) (new_breaker ''cam1'' 3 minute 0)"
    by (simp add: new_breaker_def Let_def)
  from breaker_call_admitted [OF this, of "(2, 2)" "\<lambda>n :: nat. (Some (errorf ''frame vazio''), Suc n)" 0]
  show ?thesis by (simp add: Let_def)
qed

subsection \<open>Two corners of the code\<close>

text \<open>
  The first opening after construction waits twice \<open>initialBackoff\<close>, so at least ten seconds
  whatever the reset timeout: a breaker built with a reset timeout of 100 milliseconds still
  rejects a call 150 milliseconds after it opened, which \<open>TestBreakerStateHalfOpen\<close> and
  \<open>TestBreakerRecovery\<close> expect it to admit.
\<close>

lemma short_reset_timeout_still_rejects:
  "trace breaker_step (new_breaker ''test'' 2 (100 * millisecond) 0)
     [EvFailure 1 1, EvFailure 2 2, EvAllow (2 + 150 * millisecond) 3] = [None, None, Some False]"
proof -
  have "100 * millisecond \<le> (2::int) ^ 62" and "(2::int) \<le> max_i64" by simp_all
  from cb_sim.traces_agree [OF new_breaker_rel [OF this, of "''test''" 0],
      of "[EvFailure 1 1, EvFailure 2 2, EvAllow (2 + 150 * millisecond) 3]"]
  show ?thesis by (simp add: spec_init_def spec_open_def spec_wait_def)
qed

text \<open>
  \<open>successes\<close> is not cleared when the circuit becomes half-open, so successes of calls that were
  admitted before the circuit opened count as probes: here one probe closes it.
\<close>

lemma late_successes_count_as_probes:
  "cb_state (final breaker_step (new_breaker ''cam1'' 1 minute 0)
     [EvFailure 1 1, EvSuccess 2, EvSuccess 3, EvAllow (2 * minute) 4, EvSuccess 5]) = StateClosed"
proof -
  have "minute \<le> (2::int) ^ 62" and "(1::int) \<le> max_i64" by simp_all
  from cb_sim.rel_final [OF new_breaker_rel [OF this, of "''cam1''" 0],
      of "[EvFailure 1 1, EvSuccess 2, EvSuccess 3, EvAllow (2 * minute) 4, EvSuccess 5]"]
  show ?thesis
    by (simp add: spec_init_def spec_open_def spec_normal_def spec_wait_def breaker_rel_def)
qed

text \<open>\<open>Reset\<close> closes the circuit and keeps the grown backoff, unlike a recovery by probes.\<close>

lemma breaker_reset_keeps_backoff:
  "cb_currentBackoff (breaker_reset t b) = cb_currentBackoff b \<and> cb_state (breaker_reset t b) = StateClosed"
  by (simp add: breaker_reset_def)

end
