(* ===== verification/BreakerV2.thy ===== *)
theory BreakerV2
  imports CircuitSpec Float64
begin

section \<open>The circuit breaker of v2\<close>

text \<open>
  \<open>v2/src/circuit_breaker.go\<close>.  It differs from \<open>pkg/circuit\<close> in its configuration record, its
  statistics, the \<open>Enabled\<close> switch, the comparison at the end of the backoff (\<open>\<ge>\<close> where the other
  has \<open>>\<close>) and in the locks: \<open>Execute\<close> takes and releases the mutex several times, and
  \<open>allowRequest\<close> gives up its read lock before it takes the write lock to become half-open.  What
  other goroutines do to the breaker in that gap is the argument \<open>gap\<close> of \<open>allow_request\<close>;
  \<open>\<lambda>b. b\<close> is the case where nobody interferes.
\<close>

record cb_config =
  cfg_Enabled :: bool
  cfg_MaxFailures :: int
  cfg_ResetTimeout :: duration
  cfg_HalfOpenSuccesses :: int
  cfg_InitialBackoff :: duration
  cfg_MaxBackoff :: duration
  cfg_BackoffMultiplier :: f64

definition default_cb_config :: cb_config where
  "default_cb_config = \<lparr>cfg_Enabled = False, cfg_MaxFailures = 5, cfg_ResetTimeout = 30 * second,
     cfg_HalfOpenSuccesses = 3, cfg_InitialBackoff = 5 * second, cfg_MaxBackoff = 5 * minute,
     cfg_BackoffMultiplier = Fin 2\<rparr>"

record breaker2 =
  v2_name :: string
  v2_config :: cb_config
  v2_state :: circuit_state
  v2_failures :: int
  v2_consecutiveSuccesses :: int
  v2_lastFailureTime :: time
  v2_lastStateChange :: time
  v2_currentBackoff :: duration
  v2_totalCalls :: int
  v2_totalFailures :: int
  v2_totalSuccesses :: int
  v2_totalRejected :: int
  v2_stateChanges :: int

definition fill_cb_config :: "cb_config \<Rightarrow> cb_config" where
  "fill_cb_config c0 =
     (let c1 = (if cfg_InitialBackoff c0 = 0 then c0\<lparr>cfg_InitialBackoff := 5 * second\<rparr> else c0);
          c2 = (if cfg_MaxBackoff c1 = 0 then c1\<lparr>cfg_MaxBackoff := 5 * minute\<rparr> else c1);
          c3 = (if cfg_BackoffMultiplier c2 = Fin 0 then c2\<lparr>cfg_BackoffMultiplier := Fin 2\<rparr> else c2)
      in if cfg_HalfOpenSuccesses c3 = 0 then c3\<lparr>cfg_HalfOpenSuccesses := 3\<rparr> else c3)"

definition new_circuit_breaker :: "string \<Rightarrow> cb_config \<Rightarrow> time \<Rightarrow> breaker2" where
  "new_circuit_breaker name config0 now =
     (let config = fill_cb_config config0 in
      \<lparr>v2_name = name, v2_config = config, v2_state = StateClosed, v2_failures = 0,
       v2_consecutiveSuccesses = 0, v2_lastFailureTime = zero_time, v2_lastStateChange = now,
       v2_currentBackoff = cfg_InitialBackoff config, v2_totalCalls = 0, v2_totalFailures = 0,
       v2_totalSuccesses = 0, v2_totalRejected = 0, v2_stateChanges = 0\<rparr>)"

definition transition_to :: "circuit_state \<Rightarrow> time \<Rightarrow> breaker2 \<Rightarrow> breaker2" where
  "transition_to newState now b =
     (if v2_state b = newState then b
      else b\<lparr>v2_state := newState, v2_lastStateChange := now,
             v2_stateChanges := u64 (v2_stateChanges b + 1)\<rparr>)"

definition increase_backoff :: "breaker2 \<Rightarrow> breaker2" where
  "increase_backoff b =
     (let c = f_to_i64 (f_mul (f64_of_int (v2_currentBackoff b))
                              (cfg_BackoffMultiplier (v2_config b)));
          m = cfg_MaxBackoff (v2_config b)
      in b\<lparr>v2_currentBackoff := (if m < c then m else c)\<rparr>)"

definition allow_request ::
  "(breaker2 \<Rightarrow> breaker2) \<Rightarrow> time \<Rightarrow> time \<Rightarrow> breaker2 \<Rightarrow> bool \<times> breaker2" where
  "allow_request gap now now' b = (case v2_state b of
     StateClosed \<Rightarrow> (True, b)
   | StateOpen \<Rightarrow>
       if v2_currentBackoff b \<le> since now (v2_lastFailureTime b)
       then let b' = gap b in
            (True, if v2_state b' = StateOpen then transition_to StateHalfOpen now' b' else b')
       else (False, b)
   | StateHalfOpen \<Rightarrow> (True, b))"

definition on_success :: "time \<Rightarrow> breaker2 \<Rightarrow> breaker2" where
  "on_success now b0 =
     (let b = b0\<lparr>v2_totalSuccesses := u64 (v2_totalSuccesses b0 + 1)\<rparr> in case v2_state b of
        StateClosed \<Rightarrow>
          b\<lparr>v2_failures := 0, v2_consecutiveSuccesses := i64 (v2_consecutiveSuccesses b + 1)\<rparr>
      | StateHalfOpen \<Rightarrow>
          let b1 = b\<lparr>v2_consecutiveSuccesses := i64 (v2_consecutiveSuccesses b + 1), v2_failures := 0\<rparr>
          in if cfg_HalfOpenSuccesses (v2_config b1) \<le> v2_consecutiveSuccesses b1
             then (transition_to StateClosed now b1)
                    \<lparr>v2_consecutiveSuccesses := 0,
                     v2_currentBackoff := cfg_InitialBackoff (v2_config b1)\<rparr>
             else b1
      | StateOpen \<Rightarrow> b)"

definition on_failure :: "time \<Rightarrow> time \<Rightarrow> breaker2 \<Rightarrow> breaker2" where
  "on_failure now now' b0 =
     (let b = b0\<lparr>v2_totalFailures := u64 (v2_totalFailures b0 + 1),
                 v2_failures := i64 (v2_failures b0 + 1), v2_consecutiveSuccesses := 0,
                 v2_lastFailureTime := now\<rparr>
      in case v2_state b of
        StateClosed \<Rightarrow>
          if cfg_MaxFailures (v2_config b) \<le> v2_failures b
          then increase_backoff (transition_to StateOpen now' b) else b
      | StateHalfOpen \<Rightarrow> increase_backoff (transition_to StateOpen now' b)
      | StateOpen \<Rightarrow> b)"

definition reset2 :: "time \<Rightarrow> breaker2 \<Rightarrow> breaker2" where
  "reset2 now b = b\<lparr>v2_state := StateClosed, v2_failures := 0, v2_consecutiveSuccesses := 0,
     v2_currentBackoff := cfg_InitialBackoff (v2_config b), v2_lastStateChange := now\<rparr>"

definition time_until_retry :: "time \<Rightarrow> breaker2 \<Rightarrow> duration" where
  "time_until_retry now b =
     (if v2_state b \<noteq> StateOpen then 0
      else let remaining = i64 (v2_currentBackoff b - since now (v2_lastFailureTime b))
           in if remaining < 0 then 0 else remaining)"

definition is_open :: "breaker2 \<Rightarrow> bool" where
  "is_open b \<longleftrightarrow> v2_state b = StateOpen"

definition is_closed :: "breaker2 \<Rightarrow> bool" where
  "is_closed b \<longleftrightarrow> v2_state b = StateClosed"

text \<open>
  The error of a rejected call names the state and the time to the next attempt, whose rendering
  (\<open>%v\<close> of a \<open>Duration\<close>) is the argument \<open>show_dur\<close>; nothing depends on the text.
\<close>

definition rejected_error :: "(duration \<Rightarrow> string) \<Rightarrow> time \<Rightarrow> breaker2 \<Rightarrow> goerr" where
  "rejected_error show_dur now b = errorf (''circuit breaker ['' @ v2_name b @ ''] is ''
     @ state_string (v2_state b) @ '' - pr'' @ [CHR 0xC3, CHR 0xB3] @ ''xima tentativa em ''
     @ show_dur (time_until_retry now b))"

definition execute ::
  "(duration \<Rightarrow> string) \<Rightarrow> time \<times> time \<Rightarrow> time \<times> time \<Rightarrow> ('s \<Rightarrow> goerr option \<times> 's) \<Rightarrow> breaker2 \<Rightarrow> 's
     \<Rightarrow> goerr option \<times> breaker2 \<times> 's" where
  "execute show_dur ta tr fn b s =
     (if \<not> cfg_Enabled (v2_config b)
      then let (e, s1) = fn s in (e, b, s1)
      else let (allowed, b1) = allow_request (\<lambda>x. x) (fst ta) (snd ta) b in
        if \<not> allowed
        then let b2 = b1\<lparr>v2_totalRejected := u64 (v2_totalRejected b1 + 1)\<rparr>
             in (Some (rejected_error show_dur (fst tr) b2), b2, s)
        else let b2 = b1\<lparr>v2_totalCalls := u64 (v2_totalCalls b1 + 1)\<rparr> in case fn s of
          (Some e, s1) \<Rightarrow> (Some e, on_failure (fst tr) (snd tr) b2, s1)
        | (None, s1) \<Rightarrow> (None, on_success (fst tr) b2, s1))"

record cb_stats =
  st_Name :: string
  st_Enabled :: bool
  st_State :: circuit_state
  st_Failures :: int
  st_ConsecutiveSuccesses :: int
  st_CurrentBackoff :: duration
  st_TimeUntilRetry :: duration
  st_LastFailureTime :: time
  st_LastStateChange :: time
  st_TotalCalls :: int
  st_TotalSuccesses :: int
  st_TotalFailures :: int
  st_TotalRejected :: int
  st_StateChanges :: int
  st_MaxFailures :: int
  st_HalfOpenSuccesses :: int
  st_InitialBackoff :: duration
  st_MaxBackoff :: duration

definition stats2 :: "time \<Rightarrow> breaker2 \<Rightarrow> cb_stats" where
  "stats2 now b = \<lparr>st_Name = v2_name b, st_Enabled = cfg_Enabled (v2_config b),
     st_State = v2_state b, st_Failures = v2_failures b,
     st_ConsecutiveSuccesses = v2_consecutiveSuccesses b, st_CurrentBackoff = v2_currentBackoff b,
     st_TimeUntilRetry = time_until_retry now b, st_LastFailureTime = v2_lastFailureTime b,
     st_LastStateChange = v2_lastStateChange b, st_TotalCalls = v2_totalCalls b,
     st_TotalSuccesses = v2_totalSuccesses b, st_TotalFailures = v2_totalFailures b,
     st_TotalRejected = v2_totalRejected b, st_StateChanges = v2_stateChanges b,
     st_MaxFailures = cfg_MaxFailures (v2_config b),
     st_HalfOpenSuccesses = cfg_HalfOpenSuccesses (v2_config b),
     st_InitialBackoff = cfg_InitialBackoff (v2_config b),
     st_MaxBackoff = cfg_MaxBackoff (v2_config b)\<rparr>"

lemmas breaker2_defs =
  transition_to_def increase_backoff_def allow_request_def on_success_def on_failure_def reset2_def

subsection \<open>The contract\<close>

abbreviation retry_due :: "time \<Rightarrow> breaker2 \<Rightarrow> bool" where
  "retry_due t b \<equiv> v2_currentBackoff b \<le> since t (v2_lastFailureTime b)"

interpretation cb2: circuit_breaker v2_state v2_failures v2_consecutiveSuccesses
  "\<lambda>b. cfg_MaxFailures (v2_config b)" "\<lambda>b. cfg_HalfOpenSuccesses (v2_config b)"
  retry_due "allow_request (\<lambda>b. b)" on_success on_failure
  by unfold_locales
    (auto simp: breaker2_defs Let_def split: circuit_state.splits)

subsection \<open>Accounting\<close>

lemma allow_request_frame [simp]:
  "v2_config (snd (allow_request (\<lambda>b. b) t t' b)) = v2_config b"
  "v2_totalCalls (snd (allow_request (\<lambda>b. b) t t' b)) = v2_totalCalls b"
  "v2_totalSuccesses (snd (allow_request (\<lambda>b. b) t t' b)) = v2_totalSuccesses b"
  "v2_totalFailures (snd (allow_request (\<lambda>b. b) t t' b)) = v2_totalFailures b"
  "v2_totalRejected (snd (allow_request (\<lambda>b. b) t t' b)) = v2_totalRejected b"
  by (auto simp: allow_request_def transition_to_def split: circuit_state.splits)

lemma on_success_frame [simp]:
  "v2_config (on_success t b) = v2_config b"
  "v2_totalCalls (on_success t b) = v2_totalCalls b"
  "v2_totalFailures (on_success t b) = v2_totalFailures b"
  "v2_totalRejected (on_success t b) = v2_totalRejected b"
  "v2_totalSuccesses (on_success t b) = u64 (v2_totalSuccesses b + 1)"
  by (auto simp: on_success_def transition_to_def Let_def split: circuit_state.splits)

lemma on_failure_frame [simp]:
  "v2_config (on_failure t t' b) = v2_config b"
  "v2_totalCalls (on_failure t t' b) = v2_totalCalls b"
  "v2_totalSuccesses (on_failure t t' b) = v2_totalSuccesses b"
  "v2_totalRejected (on_failure t t' b) = v2_totalRejected b"
  "v2_totalFailures (on_failure t t' b) = u64 (v2_totalFailures b + 1)"
  by (auto simp: on_failure_def transition_to_def increase_backoff_def Let_def
      split: circuit_state.splits)

text \<open>A sequence of \<open>Execute\<close> calls, each with its clock readings and the function it protects.\<close>

type_synonym 's protected_call = "(time \<times> time) \<times> (time \<times> time) \<times> ('s \<Rightarrow> goerr option \<times> 's)"

fun executes ::
  "(duration \<Rightarrow> string) \<Rightarrow> 's protected_call list \<Rightarrow> breaker2 \<Rightarrow> 's
     \<Rightarrow> goerr option list \<times> breaker2 \<times> 's" where
  "executes sd [] b s = ([], b, s)"
| "executes sd ((ta, tr, fn) # cs) b s =
     (let (e, b1, s1) = execute sd ta tr fn b s;
          (es, b2, s2) = executes sd cs b1 s1
      in (e # es, b2, s2))"

definition calls_balanced :: "breaker2 \<Rightarrow> int \<Rightarrow> bool" where
  "calls_balanced b n \<longleftrightarrow>
     u64 (v2_totalCalls b) = u64 (v2_totalSuccesses b + v2_totalFailures b)
   \<and> u64 (v2_totalCalls b + v2_totalRejected b) = u64 n"

lemma execute_balanced:
  assumes "cfg_Enabled (v2_config b)" and "calls_balanced b n"
    and "execute sd ta tr fn b s = (e, b', s')"
  shows "cfg_Enabled (v2_config b') \<and> calls_balanced b' (n + 1)"
proof -
  let ?a = "allow_request (\<lambda>b. b) (fst ta) (snd ta) b"
  define b1 where "b1 = snd ?a"
  have f: "cfg_Enabled (v2_config b1)" "calls_balanced b1 n"
    using assms(1,2) by (simp_all add: b1_def calls_balanced_def)
  have a: "?a = (fst ?a, b1)" by (simp add: b1_def)
  have c: "u64 (v2_totalCalls b1) = u64 (v2_totalSuccesses b1 + v2_totalFailures b1)"
    "u64 (v2_totalCalls b1 + v2_totalRejected b1) = u64 n"
    using f(2) by (simp_all add: calls_balanced_def)
  have c': "u64 (v2_totalCalls b1 + 1) = u64 (v2_totalSuccesses b1 + 1 + v2_totalFailures b1)"
    "u64 (v2_totalCalls b1 + 1) = u64 (v2_totalSuccesses b1 + (v2_totalFailures b1 + 1))"
    "u64 (v2_totalCalls b1 + 1 + v2_totalRejected b1) = u64 (n + 1)"
    "u64 (v2_totalCalls b1 + (v2_totalRejected b1 + 1)) = u64 (n + 1)"
    using u64_cong_add [OF c(1), of 1] u64_cong_add [OF c(2), of 1] by (simp_all add: ac_simps)
  show ?thesis
  proof (cases "fst ?a")
    case False
    then have "b' = b1\<lparr>v2_totalRejected := u64 (v2_totalRejected b1 + 1)\<rparr>"
      using assms(1,3) a by (auto simp: execute_def Let_def split: prod.splits)
    then show ?thesis using f(1) c c' by (simp add: calls_balanced_def)
  next
    case True
    then have "b' = (let b2 = b1\<lparr>v2_totalCalls := u64 (v2_totalCalls b1 + 1)\<rparr> in
        case fst (fn s) of None \<Rightarrow> on_success (fst tr) b2 | Some e \<Rightarrow> on_failure (fst tr) (snd tr) b2)"
      using assms(1,3) a by (auto simp: execute_def Let_def split: prod.splits option.splits)
    then have "v2_totalCalls b' = u64 (v2_totalCalls b1 + 1)"
      "v2_totalRejected b' = v2_totalRejected b1" "cfg_Enabled (v2_config b')"
      "v2_totalSuccesses b' = u64 (v2_totalSuccesses b1 + 1) \<and> v2_totalFailures b' = v2_totalFailures b1
       \<or> v2_totalSuccesses b' = v2_totalSuccesses b1 \<and> v2_totalFailures b' = u64 (v2_totalFailures b1 + 1)"
      using f(1) by (auto simp: Let_def split: option.splits)
    then show ?thesis
      unfolding calls_balanced_def
      by (elim disjE conjE) (simp_all only: u64_idem u64_add_left u64_add_right c'(3) c'(1,2) [symmetric])
  qed
qed

lemma executes_balanced:
  assumes "cfg_Enabled (v2_config b)" and "calls_balanced b n"
    and "executes sd cs b s = (es, b', s')"
  shows "calls_balanced b' (n + int (length cs))"
  using assms
proof (induction cs arbitrary: b s n es b' s')
  case (Cons c cs)
  obtain ta tr fn where c: "c = (ta, tr, fn)" by (cases c)
  obtain e b1 s1 where 1: "execute sd ta tr fn b s = (e, b1, s1)" by (cases "execute sd ta tr fn b s")
  obtain es2 b2 s2 where 2: "executes sd cs b1 s1 = (es2, b2, s2)" by (cases "executes sd cs b1 s1")
  have "cfg_Enabled (v2_config b1)" "calls_balanced b1 (n + 1)"
    using execute_balanced [OF Cons.prems(1,2) 1] by simp_all
  then have "calls_balanced b2 (n + 1 + int (length cs))" using 2 by (rule Cons.IH)
  then show ?case using Cons.prems(3) c 1 2 by (simp add: add.assoc)
qed simp

text \<open>C10: The statistics of the v2 breaker add up: after any sequence of n Execute calls on a fresh,
  enabled breaker, every call is counted once, either as executed or as rejected, and every
  executed call once as a success or a failure (as 64-bit counters, that is modulo 2^64).\<close>

theorem execute_accounting:
  assumes "cfg_Enabled config"
    and "executes sd cs (new_circuit_breaker name config now) s = (es, b, s')"
  shows "u64 (v2_totalCalls b + v2_totalRejected b) = u64 (int (length cs))
       \<and> u64 (v2_totalCalls b) = u64 (v2_totalSuccesses b + v2_totalFailures b)"
proof -
  let ?b = "new_circuit_breaker name config now"
  have "cfg_Enabled (v2_config ?b)" "calls_balanced ?b 0"
    using assms(1)
    by (simp_all add: new_circuit_breaker_def fill_cb_config_def calls_balanced_def Let_def)
  from executes_balanced [OF this assms(2)] show ?thesis by (simp add: calls_balanced_def)
qed

theorem execute_accounting_witness:
  "let (es, b, s) = executes (\<lambda>_. []) [((1, 1), (1, 1), \<lambda>n :: nat. (None, Suc n)),
        ((2, 2), (2, 2), \<lambda>n. (Some (errorf ''EOF''), Suc n))]
        (new_circuit_breaker ''cam1'' (default_cb_config\<lparr>cfg_Enabled := True\<rparr>) 0) 0
   in u64 (v2_totalCalls b + v2_totalRejected b) = 2"
proof -
  let ?cs = "[((1, 1), (1, 1), \<lambda>n :: nat. (None, Suc n)), ((2, 2), (2, 2), \<lambda>n. (Some (errorf ''EOF''), Suc n))]
    :: nat protected_call list"
  let ?c = "default_cb_config\<lparr>cfg_Enabled := True\<rparr>"
  obtain es b s where r: "executes (\<lambda>_. []) ?cs (new_circuit_breaker ''cam1'' ?c 0) 0 = (es, b, s)"
    by (cases "executes (\<lambda>_. []) ?cs (new_circuit_breaker ''cam1'' ?c 0) 0")
  have "cfg_Enabled ?c" by simp
  from execute_accounting [OF this r] show ?thesis by (simp only: r) simp
qed

subsection \<open>Waiting times\<close>

text \<open>The time to the next attempt that the v2 breaker reports is exact: on an open breaker,
  a request is admitted at a time t (not before the last failure) if and only if timeUntilRetry
  reports zero at t, and a request made after waiting the reported time is admitted.\<close>

theorem time_until_retry_exact:
  assumes "v2_state b = StateOpen" and "v2_lastFailureTime b \<le> t"
    and "0 \<le> v2_currentBackoff b" and "v2_currentBackoff b \<le> max_i64"
  shows "(fst (allow_request gap t t' b) \<longleftrightarrow> time_until_retry t b = 0)
       \<and> fst (allow_request gap (t + time_until_retry t b) t' b)"
proof -
  have r: "0 \<le> since t (v2_lastFailureTime b)" "since t (v2_lastFailureTime b) \<le> max_i64"
    using assms(2) by (auto simp: since_def sat64_def)
  have w: "time_until_retry t b = (if retry_due t b then 0
      else v2_currentBackoff b - since t (v2_lastFailureTime b))"
    using assms(1,3,4) r by (simp add: time_until_retry_def Let_def)
  have "retry_due (t + time_until_retry t b) b"
  proof (cases "retry_due t b")
    case False
    then have "since t (v2_lastFailureTime b) = t - v2_lastFailureTime b"
      using assms(2,4) by (auto simp: since_def sat64_def)
    then show ?thesis using w False assms(4) by (auto simp: since_def sat64_def)
  qed (simp add: w)
  then show ?thesis using assms(1) w by (auto simp: allow_request_def Let_def)
qed

theorem time_until_retry_exact_witness:
  "let b = (new_circuit_breaker ''cam1'' default_cb_config 0)\<lparr>v2_state := StateOpen, v2_lastFailureTime := 0\<rparr>
   in \<not> fst (allow_request (\<lambda>b. b) second 0 b) \<and> fst (allow_request (\<lambda>b. b) (second + time_until_retry second b) 0 b)"
proof -
  let ?b = "(new_circuit_breaker ''cam1'' default_cb_config 0)\<lparr>v2_state := StateOpen, v2_lastFailureTime := 0\<rparr>"
  have h: "v2_state ?b = StateOpen" "v2_lastFailureTime ?b \<le> second" "0 \<le> v2_currentBackoff ?b"
    "v2_currentBackoff ?b \<le> max_i64"
    by (simp_all add: new_circuit_breaker_def default_cb_config_def fill_cb_config_def Let_def)
  have "time_until_retry second ?b = 4 * second"
    by (simp add: time_until_retry_def new_circuit_breaker_def default_cb_config_def
        fill_cb_config_def Let_def since_def sat64_def)
  then show ?thesis using time_until_retry_exact [OF h, of "\<lambda>b. b" 0] by (simp add: Let_def)
qed

text \<open>The failure that opens the v2 circuit already doubles the backoff, so with the default
  multiplier the first wait after opening is twice initial_backoff (capped by max_backoff),
  although the message of the transition still prints initial_backoff.\<close>

theorem first_wait_is_doubled:
  assumes "v2_state b = StateClosed" and "v2_currentBackoff b = cfg_InitialBackoff (v2_config b)"
    and "cfg_MaxFailures (v2_config b) \<le> v2_failures b + 1" and "0 \<le> v2_failures b"
    and "v2_failures b < max_i64"
    and "cfg_BackoffMultiplier (v2_config b) = Fin 2"
    and "0 \<le> cfg_InitialBackoff (v2_config b)" and "cfg_InitialBackoff (v2_config b) < 2 ^ 53"
  shows "v2_state (on_failure t t' b) = StateOpen
    \<and> v2_currentBackoff (on_failure t t' b) =
        min (2 * cfg_InitialBackoff (v2_config b)) (cfg_MaxBackoff (v2_config b))"
  using assms double_exact [of "cfg_InitialBackoff (v2_config b)"]
  by (simp add: on_failure_def transition_to_def increase_backoff_def Let_def min_def)

theorem first_wait_is_doubled_witness:
  "v2_currentBackoff (on_failure 7 8 ((new_circuit_breaker ''cam1'' default_cb_config 0)\<lparr>v2_failures := 4\<rparr>))
     = 10 * second"
proof -
  let ?b = "(new_circuit_breaker ''cam1'' default_cb_config 0)\<lparr>v2_failures := 4\<rparr>"
  have c: "v2_state ?b = StateClosed" "v2_config ?b = default_cb_config"
    "v2_currentBackoff ?b = 5 * second" "v2_failures ?b = 4"
    by (simp_all add: new_circuit_breaker_def default_cb_config_def fill_cb_config_def Let_def)
  show ?thesis
    using first_wait_is_doubled [of ?b 7 8] c by (simp add: default_cb_config_def)
qed

subsection \<open>The gap between the two locks of allowRequest\<close>

text \<open>The double check of allowRequest looks at the state and not at the clock: if another
  goroutine's probe is admitted and fails in the gap between the read and the write lock, the
  circuit is open again with a new failure time, yet the waiting request still turns it half-open
  and is admitted, however long the new backoff is.\<close>

theorem double_check_ignores_new_backoff:
  assumes "v2_state b = StateOpen" and "retry_due t b"
    and "0 \<le> v2_failures b" and "v2_failures b < max_i64"
    and "gap = (\<lambda>b. on_failure u u' (snd (allow_request (\<lambda>b. b) t t b)))"
  shows "v2_state (gap b) = StateOpen \<and> v2_lastFailureTime (gap b) = u
       \<and> fst (allow_request gap t t' b)
       \<and> v2_state (snd (allow_request gap t t' b)) = StateHalfOpen"
proof -
  let ?h = "snd (allow_request (\<lambda>b. b) t t b)"
  have h: "v2_state ?h = StateHalfOpen" using cb2.allow_late [OF assms(1,2), of t] by simp
  have g: "v2_state (gap b) = StateOpen \<and> v2_lastFailureTime (gap b) = u"
    using h by (simp add: assms(5) on_failure_def transition_to_def increase_backoff_def Let_def)
  then show ?thesis
    using assms(1,2) by (simp add: allow_request_def transition_to_def Let_def)
qed

theorem double_check_ignores_new_backoff_witness:
  "let b = (new_circuit_breaker ''cam1'' default_cb_config 0)
             \<lparr>v2_state := StateOpen, v2_lastFailureTime := 0, v2_failures := 5\<rparr>;
       t = 5 * second;
       gap = (\<lambda>b. on_failure t t (snd (allow_request (\<lambda>b. b) t t b)))
   in \<not> fst (allow_request (\<lambda>b. b) t t (gap b)) \<and> fst (allow_request gap t t b)"
proof -
  let ?b = "(new_circuit_breaker ''cam1'' default_cb_config 0)
             \<lparr>v2_state := StateOpen, v2_lastFailureTime := 0, v2_failures := 5\<rparr>"
  let ?t = "5 * second"
  let ?gap = "\<lambda>b. on_failure ?t ?t (snd (allow_request (\<lambda>b. b) ?t ?t b))"
  have c: "v2_state ?b = StateOpen" "retry_due ?t ?b" "0 \<le> v2_failures ?b" "v2_failures ?b < max_i64"
    by (simp_all add: new_circuit_breaker_def default_cb_config_def fill_cb_config_def Let_def
        since_def sat64_def)
  have "f_to_i64 (f_mul (f64_of_int (5 * second)) (Fin 2)) = 10 * second"
    using double_exact [of "5 * second"] by simp
  then have "v2_currentBackoff (?gap ?b) = 10 * second"
    by (simp add: new_circuit_breaker_def default_cb_config_def fill_cb_config_def Let_def
        breaker2_defs since_def sat64_def)
  then have "\<not> fst (allow_request (\<lambda>b. b) ?t ?t (?gap ?b))"
    using double_check_ignores_new_backoff [OF c refl, of ?t ?t]
    by (simp add: allow_request_def since_def sat64_def)
  then show ?thesis
    using double_check_ignores_new_backoff [OF c refl, of ?t ?t ?t] by (simp add: Let_def)
qed

end
