(* ===== verification/GoChan.thy ===== *)
theory GoChan
  imports Prelude "HOL-Library.Multiset" "HOL-Library.Sublist"
begin

section \<open>Buffered channels\<close>

text \<open>
  A Go channel with a buffer: the queued values, the capacity and whether it is closed.  A send on
  a closed channel panics, a send on a full one blocks (in a \<open>select\<close> with a \<open>default\<close>, the default
  runs); a receive takes the oldest value, reports the closing once the buffer is empty, and
  blocks otherwise.  No other goroutine is assumed to wait at the other end.
\<close>

record 'a chan =
  ch_buf :: "'a list"
  ch_cap :: nat
  ch_closed :: bool

definition make_chan :: "nat \<Rightarrow> 'a chan" where
  "make_chan n = \<lparr>ch_buf = [], ch_cap = n, ch_closed = False\<rparr>"

datatype 'a send = Sent "'a chan" | SendBlocks | SendPanics

definition chan_send :: "'a \<Rightarrow> 'a chan \<Rightarrow> 'a send" where
  "chan_send x c =
     (if ch_closed c then SendPanics
      else if length (ch_buf c) < ch_cap c then Sent (c\<lparr>ch_buf := ch_buf c @ [x]\<rparr>)
      else SendBlocks)"

datatype 'a recv = Received 'a "'a chan" | RecvClosed | RecvBlocks

definition chan_recv :: "'a chan \<Rightarrow> 'a recv" where
  "chan_recv c = (case ch_buf c of
     x # xs \<Rightarrow> Received x (c\<lparr>ch_buf := xs\<rparr>)
   | [] \<Rightarrow> if ch_closed c then RecvClosed else RecvBlocks)"

text \<open>Closing a closed channel panics, which is the result \<open>None\<close>.\<close>

definition chan_close :: "'a chan \<Rightarrow> 'a chan option" where
  "chan_close c = (if ch_closed c then None else Some (c\<lparr>ch_closed := True\<rparr>))"

definition chan_ok :: "'a chan \<Rightarrow> bool" where
  "chan_ok c \<longleftrightarrow> length (ch_buf c) \<le> ch_cap c"

text \<open>Both directions without blocking, as \<open>select\<close> with a \<open>default\<close> makes them on an open channel.\<close>

definition offer :: "'a \<Rightarrow> 'a chan \<Rightarrow> 'a chan option" where
  "offer x c = (case chan_send x c of Sent c' \<Rightarrow> Some c' | _ \<Rightarrow> None)"

definition poll :: "'a chan \<Rightarrow> ('a \<times> 'a chan) option" where
  "poll c = (case chan_recv c of Received x c' \<Rightarrow> Some (x, c') | _ \<Rightarrow> None)"

lemma chan_send_Sent_iff:
  "chan_send x c = Sent c' \<longleftrightarrow> \<not> ch_closed c \<and> length (ch_buf c) < ch_cap c
     \<and> c' = c\<lparr>ch_buf := ch_buf c @ [x]\<rparr>"
  by (auto simp: chan_send_def)

lemma chan_recv_Received_iff:
  "chan_recv c = Received x c' \<longleftrightarrow> (\<exists>xs. ch_buf c = x # xs \<and> c' = c\<lparr>ch_buf := xs\<rparr>)"
  by (auto simp: chan_recv_def split: list.splits)

lemma offer_Some_iff:
  "offer x c = Some c' \<longleftrightarrow> chan_send x c = Sent c'"
  by (auto simp: offer_def split: send.splits)

lemma poll_Some_iff:
  "poll c = Some (x, c') \<longleftrightarrow> chan_recv c = Received x c'"
  by (auto simp: poll_def split: recv.splits)

lemma poll_empty [simp]: "ch_buf c = [] \<Longrightarrow> poll c = None"
  by (simp add: poll_def chan_recv_def)

lemma poll_Cons [simp]: "ch_buf c = x # xs \<Longrightarrow> poll c = Some (x, c\<lparr>ch_buf := xs\<rparr>)"
  by (simp add: poll_def chan_recv_def)

lemmas chan_iffs = chan_send_Sent_iff chan_recv_Received_iff offer_Some_iff poll_Some_iff

lemma make_chan_simps [simp]:
  "ch_buf (make_chan n) = []" "ch_cap (make_chan n) = n" "\<not> ch_closed (make_chan n)"
  by (simp_all add: make_chan_def)

subsection \<open>What the users of a channel rely on\<close>

locale bounded_fifo =
  fixes items :: "'q \<Rightarrow> 'a list"
    and bound :: "'q \<Rightarrow> nat"
    and live :: "'q \<Rightarrow> bool"
    and put :: "'a \<Rightarrow> 'q \<Rightarrow> 'q option"
    and get :: "'q \<Rightarrow> ('a \<times> 'q) option"
  assumes put_room: "live q \<Longrightarrow> length (items q) < bound q \<Longrightarrow>
      \<exists>q'. put x q = Some q' \<and> items q' = items q @ [x] \<and> bound q' = bound q \<and> live q'"
    and put_full: "bound q \<le> length (items q) \<Longrightarrow> put x q = None"
    and get_some: "items q = y # ys \<Longrightarrow>
      \<exists>q'. get q = Some (y, q') \<and> items q' = ys \<and> bound q' = bound q \<and> live q' = live q"
    and get_none: "items q = [] \<Longrightarrow> get q = None"
begin

text \<open>Taking the oldest value out of a full queue makes room for exactly one more.\<close>

lemma displace_oldest:
  assumes "live q" and "0 < bound q" and "length (items q) = bound q"
  shows "\<exists>q1 q2. get q = Some (hd (items q), q1) \<and> put x q1 = Some q2
      \<and> items q2 = tl (items q) @ [x] \<and> bound q2 = bound q \<and> live q2"
proof -
  obtain y ys where y: "items q = y # ys" using assms by (cases "items q") auto
  obtain q1 where q1: "get q = Some (y, q1)" "items q1 = ys" "bound q1 = bound q" "live q1"
    using get_some [OF y] assms(1) by auto
  have "length (items q1) < bound q1" using q1 y assms(3) by simp
  then obtain q2 where "put x q1 = Some q2" "items q2 = ys @ [x]" "bound q2 = bound q" "live q2"
    using put_room [OF q1(4)] q1 by fastforce
  then show ?thesis using q1 y by auto
qed

lemma put_fits: "put x q = Some q' \<Longrightarrow> length (items q) < bound q"
  using put_full [of q x] by (metis not_le option.distinct(1))

end

interpretation chan_fifo: bounded_fifo ch_buf ch_cap "\<lambda>c. \<not> ch_closed c" offer poll
  by unfold_locales (auto simp: offer_def chan_send_def)

subsection \<open>Draining to the newest value\<close>

text \<open>
  The loop \<open>for \{ next, more := poll; if !more break; release(cur); cur = next \}\<close>: it empties the
  channel, keeps the newest value and hands back the ones it dropped, oldest first.
\<close>

function drain_latest :: "'a \<Rightarrow> 'a chan \<Rightarrow> 'a list \<times> 'a \<times> 'a chan" where
  "drain_latest cur c = (case poll c of
     None \<Rightarrow> ([], cur, c)
   | Some (x, c') \<Rightarrow> let (ds, y, c2) = drain_latest x c' in (cur # ds, y, c2))"
  by pat_completeness auto
termination
  by (relation "measure (\<lambda>(cur, c). length (ch_buf c))")
    (auto simp: poll_def chan_recv_def split: list.splits if_splits)

declare drain_latest.simps [simp del]

lemma drain_latest_eq:
  "drain_latest cur c =
    (butlast (cur # ch_buf c), last (cur # ch_buf c), c\<lparr>ch_buf := []\<rparr>)"
proof (induction cur c rule: drain_latest.induct)
  case (1 cur c)
  show ?case
  proof (cases "ch_buf c")
    case Nil
    then have "c\<lparr>ch_buf := []\<rparr> = c" by simp
    then show ?thesis using Nil by (subst drain_latest.simps) simp
  next
    case (Cons x xs)
    then have "poll c = Some (x, c\<lparr>ch_buf := xs\<rparr>)" by simp
    then show ?thesis using 1 [of "(x, c\<lparr>ch_buf := xs\<rparr>)" x "c\<lparr>ch_buf := xs\<rparr>"] Cons
      by (subst drain_latest.simps) simp
  qed
qed

end
