(* ===== verification/FrameBuffer.thy ===== *)
theory FrameBuffer
  imports GoChan Float64
begin

section \<open>The frame buffer of pkg/buffer\<close>

text \<open>
  \<open>pkg/buffer/frame_buffer.go\<close>: a channel of frames with two counters, where a push into a full
  buffer displaces the oldest frame.  The \<open>Release\<close> callback of a frame, which gives its bytes
  back to the pool, is the identity of the pooled buffer (\<open>None\<close> for a nil callback); an operation
  lists the buffers it released.
\<close>

record frame =
  fr_CameraID :: string
  fr_Data :: "8 word list"
  fr_Timestamp :: time
  fr_Release :: "nat option"

record frame_buffer =
  fb_buffer :: "frame chan"
  fb_capacity :: int
  fb_droppedFrames :: int
  fb_totalFrames :: int

text \<open>\<open>make\<close> with a negative size panics.\<close>

definition new_frame_buffer :: "int \<Rightarrow> frame_buffer option" where
  "new_frame_buffer capacity =
     (if capacity < 0 then None
      else Some \<lparr>fb_buffer = make_chan (nat capacity), fb_capacity = capacity,
                 fb_droppedFrames = 0, fb_totalFrames = 0\<rparr>)"

definition released :: "frame \<Rightarrow> nat list" where
  "released f = (case fr_Release f of None \<Rightarrow> [] | Some r \<Rightarrow> [r])"

datatype push_result = PushNil | PushErr goerr | PushBlocks | PushPanics

definition full_error :: goerr where
  "full_error = errorf (''buffer cheio: frame substitu'' @ [CHR 0xC3, CHR 0xAD] @ ''do'')"

definition fb_push :: "frame \<Rightarrow> frame_buffer \<Rightarrow> push_result \<times> nat list \<times> frame_buffer" where
  "fb_push f fb0 =
     (let fb = fb0\<lparr>fb_totalFrames := i64 (fb_totalFrames fb0 + 1)\<rparr> in
      case chan_send f (fb_buffer fb) of
        Sent c \<Rightarrow> (PushNil, [], fb\<lparr>fb_buffer := c\<rparr>)
      | SendPanics \<Rightarrow> (PushPanics, [], fb)
      | SendBlocks \<Rightarrow>
          let (rel, c1) = (case chan_recv (fb_buffer fb) of
                 Received dropped c' \<Rightarrow> (released dropped, c')
               | _ \<Rightarrow> ([], fb_buffer fb))
          in case chan_send f c1 of
               Sent c2 \<Rightarrow> (PushErr full_error, rel,
                  fb\<lparr>fb_buffer := c2, fb_droppedFrames := i64 (fb_droppedFrames fb + 1)\<rparr>)
             | SendBlocks \<Rightarrow> (PushBlocks, rel, fb\<lparr>fb_buffer := c1\<rparr>)
             | SendPanics \<Rightarrow> (PushPanics, rel, fb\<lparr>fb_buffer := c1\<rparr>))"

definition fb_pop :: "frame_buffer \<Rightarrow> frame option \<times> frame_buffer" where
  "fb_pop fb = (case chan_recv (fb_buffer fb) of
     Received f c \<Rightarrow> (Some f, fb\<lparr>fb_buffer := c\<rparr>)
   | _ \<Rightarrow> (None, fb))"

text \<open>
  \<open>PopBlocking\<close> chooses among the ready cases of its \<open>select\<close>: the result is the list of the
  possible outcomes, empty when it blocks.
\<close>

definition fb_pop_blocking :: "bool \<Rightarrow> frame_buffer \<Rightarrow> (frame option \<times> frame_buffer) list" where
  "fb_pop_blocking ctx_done fb =
     (if ctx_done then [(None, fb)] else []) @
     (case chan_recv (fb_buffer fb) of
        Received f c \<Rightarrow> [(Some f, fb\<lparr>fb_buffer := c\<rparr>)]
      | RecvClosed \<Rightarrow> [(None, fb)]
      | RecvBlocks \<Rightarrow> [])"

definition fb_size :: "frame_buffer \<Rightarrow> int" where
  "fb_size fb = int (length (ch_buf (fb_buffer fb)))"

record buffer_stats =
  bst_Size :: int
  bst_Capacity :: int
  bst_DroppedFrames :: int
  bst_TotalFrames :: int
  bst_DropRate :: f64

definition fb_stats :: "frame_buffer \<Rightarrow> buffer_stats" where
  "fb_stats fb =
     (let dropped = fb_droppedFrames fb; total = fb_totalFrames fb;
          dropRate = (if 0 < total then percent dropped total else Fin 0)
      in \<lparr>bst_Size = fb_size fb, bst_Capacity = fb_capacity fb, bst_DroppedFrames = dropped,
          bst_TotalFrames = total, bst_DropRate = dropRate\<rparr>)"

definition fb_close :: "frame_buffer \<Rightarrow> frame_buffer option" where
  "fb_close fb = map_option (\<lambda>c. fb\<lparr>fb_buffer := c\<rparr>) (chan_close (fb_buffer fb))"

subsection \<open>Pushing\<close>

abbreviation frames :: "frame_buffer \<Rightarrow> frame list" where
  "frames fb \<equiv> ch_buf (fb_buffer fb)"

definition fb_ok :: "frame_buffer \<Rightarrow> bool" where
  "fb_ok fb \<longleftrightarrow> chan_ok (fb_buffer fb) \<and> \<not> ch_closed (fb_buffer fb)
     \<and> 0 < ch_cap (fb_buffer fb) \<and> fb_capacity fb = int (ch_cap (fb_buffer fb))"

lemma fb_push_room:
  assumes "fb_ok fb" and "int (length (frames fb)) < fb_capacity fb"
  shows "fb_push f fb = (PushNil, [], fb\<lparr>fb_buffer := (fb_buffer fb)\<lparr>ch_buf := frames fb @ [f]\<rparr>,
      fb_totalFrames := i64 (fb_totalFrames fb + 1)\<rparr>)"
  using assms by (simp add: fb_ok_def fb_push_def chan_send_def)

lemma fb_push_full:
  assumes "fb_ok fb" and "fb_capacity fb \<le> int (length (frames fb))"
  shows "fb_push f fb = (PushErr full_error, released (hd (frames fb)),
      fb\<lparr>fb_buffer := (fb_buffer fb)\<lparr>ch_buf := tl (frames fb) @ [f]\<rparr>,
         fb_totalFrames := i64 (fb_totalFrames fb + 1),
         fb_droppedFrames := i64 (fb_droppedFrames fb + 1)\<rparr>)"
proof -
  have len: "length (frames fb) = ch_cap (fb_buffer fb)" "0 < ch_cap (fb_buffer fb)"
    "\<not> ch_closed (fb_buffer fb)"
    using assms by (auto simp: fb_ok_def chan_ok_def)
  obtain c1 c2 where c: "poll (fb_buffer fb) = Some (hd (frames fb), c1)" "offer f c1 = Some c2"
    "ch_buf c2 = tl (frames fb) @ [f]"
    using chan_fifo.displace_oldest [of "fb_buffer fb" f] len by blast
  then have "chan_recv (fb_buffer fb) = Received (hd (frames fb)) c1" "chan_send f c1 = Sent c2"
    by (simp_all only: poll_Some_iff offer_Some_iff)
  moreover from this have "c2 = (fb_buffer fb)\<lparr>ch_buf := tl (frames fb) @ [f]\<rparr>"
    using c(3) by (auto simp: chan_iffs)
  moreover have "chan_send f (fb_buffer fb) = SendBlocks" using len by (simp add: chan_send_def)
  ultimately show ?thesis by (simp add: fb_push_def Let_def)
qed

lemma fb_push_ok:
  assumes "fb_ok fb"
  shows "fb_ok (snd (snd (fb_push f fb)))"
proof (cases "int (length (frames fb)) < fb_capacity fb")
  case True
  then show ?thesis using fb_push_room [OF assms True] assms by (auto simp: fb_ok_def chan_ok_def)
next
  case False
  then have "frames fb \<noteq> []" using assms by (auto simp: fb_ok_def)
  then show ?thesis using fb_push_full [OF assms, of f] False assms
    by (cases "frames fb") (auto simp: fb_ok_def chan_ok_def)
qed

text \<open>C16: Push keeps the newest frames: run without another producer in between, on an open buffer of
  positive capacity, it never blocks and never panics, it stores the new frame last, and the content
  afterwards is the last `capacity' frames of the old content followed by the new one; it counts
  every frame, and it returns an error, counts a drop and releases the oldest frame exactly when the
  buffer was full.\<close>

theorem fb_push_keeps_newest:
  assumes "fb_ok fb"
  shows "let (r, rel, fb') = fb_push f fb;
             full = (length (frames fb) = ch_cap (fb_buffer fb))
         in fb_ok fb'
          \<and> frames fb' = drop (length (frames fb) + 1 - ch_cap (fb_buffer fb)) (frames fb @ [f])
          \<and> last (frames fb') = f
          \<and> r = (if full then PushErr full_error else PushNil)
          \<and> rel = (if full then released (hd (frames fb)) else [])
          \<and> fb_totalFrames fb' = i64 (fb_totalFrames fb + 1)
          \<and> fb_droppedFrames fb' = (if full then i64 (fb_droppedFrames fb + 1) else fb_droppedFrames fb)"
proof (cases "int (length (frames fb)) < fb_capacity fb")
  case True
  then show ?thesis
    using fb_push_room [OF assms True, of f] fb_push_ok [OF assms, of f] assms
    by (auto simp: fb_ok_def chan_ok_def)
next
  case False
  then have full: "length (frames fb) = ch_cap (fb_buffer fb)" "frames fb \<noteq> []"
    using assms by (auto simp: fb_ok_def chan_ok_def)
  then have "drop (length (frames fb) + 1 - ch_cap (fb_buffer fb)) (frames fb @ [f]) = tl (frames fb) @ [f]"
    by (cases "frames fb") auto
  then show ?thesis
    using fb_push_full [OF assms, of f] fb_push_ok [OF assms, of f] False full assms
    by (auto simp: fb_ok_def)
qed

subsection \<open>Sequences of pushes and pops\<close>

datatype fb_event = EvPush frame | EvPop

fun fb_step :: "frame_buffer \<Rightarrow> fb_event \<Rightarrow> (frame option \<times> nat list) \<times> frame_buffer" where
  "fb_step fb (EvPush f) = (let (r, rel, fb') = fb_push f fb in ((None, rel), fb'))"
| "fb_step fb EvPop = (let (r, fb') = fb_pop fb in ((r, []), fb'))"

fun pushes :: "fb_event list \<Rightarrow> frame list" where
  "pushes [] = []"
| "pushes (EvPush f # es) = f # pushes es"
| "pushes (EvPop # es) = pushes es"

definition pops :: "(frame option \<times> nat list) list \<Rightarrow> frame list" where
  "pops os = List.map_filter fst os"

definition releases :: "(frame option \<times> nat list) list \<Rightarrow> nat list" where
  "releases os = concat (map snd os)"

definition tokens :: "frame list \<Rightarrow> nat list" where
  "tokens fs = concat (map released fs)"

lemma pops_Cons [simp]: "pops (x # os) = (case fst x of None \<Rightarrow> pops os | Some f \<Rightarrow> f # pops os)"
  by (simp add: pops_def map_filter_simps split: option.split)

lemma run_lists_simps [simp]:
  "pops [] = []" "releases [] = []" "releases (x # os) = snd x @ releases os"
  "tokens [] = []" "tokens (f # fs) = released f @ tokens fs" "tokens (fs @ gs) = tokens fs @ tokens gs"
  by (simp_all add: pops_def releases_def tokens_def map_filter_simps)

lemma fb_pop_cases:
  "fb_pop fb = (case frames fb of [] \<Rightarrow> (None, fb)
     | f # fs \<Rightarrow> (Some f, fb\<lparr>fb_buffer := (fb_buffer fb)\<lparr>ch_buf := fs\<rparr>\<rparr>))"
  by (auto simp: fb_pop_def chan_recv_def split: list.splits)

text \<open>One event: what it adds to the buffer, what it takes out, and the two counters.\<close>

lemma fb_step_balance:
  assumes "fb_ok fb" and "fb_step fb e = (out, fb')"
  shows "fb_ok fb' \<and> (\<exists>ds. frames fb @ pushes [e] = pops [out] @ ds @ frames fb'
      \<and> tokens ds = snd out
      \<and> fb_droppedFrames fb' = (if ds = [] then fb_droppedFrames fb else i64 (fb_droppedFrames fb + 1))
      \<and> length ds \<le> 1
      \<and> fb_totalFrames fb' = (if pushes [e] = [] then fb_totalFrames fb else i64 (fb_totalFrames fb + 1)))"
proof (cases e)
  case (EvPush f)
  show ?thesis
  proof (cases "int (length (frames fb)) < fb_capacity fb")
    case True
    then have "fb_ok fb'" "frames fb @ pushes [e] = pops [out] @ [] @ frames fb'" "snd out = []"
      "fb_droppedFrames fb' = fb_droppedFrames fb" "fb_totalFrames fb' = i64 (fb_totalFrames fb + 1)"
      using fb_push_room [OF assms(1) True, of f] fb_push_ok [OF assms(1), of f] assms(2) EvPush
      by auto
    then show ?thesis using EvPush by (intro conjI exI [of _ "[]"]) simp_all
  next
    case False
    then have ne: "frames fb \<noteq> []" using assms(1) by (auto simp: fb_ok_def)
    have "fb_ok fb'" "frames fb @ pushes [e] = pops [out] @ [hd (frames fb)] @ frames fb'"
      "snd out = released (hd (frames fb))"
      "fb_droppedFrames fb' = i64 (fb_droppedFrames fb + 1)" "fb_totalFrames fb' = i64 (fb_totalFrames fb + 1)"
      using fb_push_full [OF assms(1), of f] fb_push_ok [OF assms(1), of f] assms(2) EvPush
        False ne by auto
    then show ?thesis using EvPush by (intro conjI exI [of _ "[hd (frames fb)]"]) simp_all
  qed
next
  case EvPop
  then show ?thesis
    using assms by (intro conjI exI [of _ "[]"])
      (auto simp: fb_pop_cases fb_ok_def chan_ok_def split: list.splits)
qed


definition demo_frame :: "nat \<Rightarrow> frame" where
  "demo_frame n = \<lparr>fr_CameraID = ''cam1'', fr_Data = [0xFF, 0xD8], fr_Timestamp = int n, fr_Release = Some n\<rparr>"

definition demo_buffer :: frame_buffer where
  "demo_buffer = \<lparr>fb_buffer = make_chan 2, fb_capacity = 2, fb_droppedFrames = 0, fb_totalFrames = 0\<rparr>"

lemma demo_buffer_ok: "fb_ok demo_buffer"
  by (simp add: demo_buffer_def fb_ok_def chan_ok_def)

lemma new_frame_buffer_ok:
  "0 < capacity \<Longrightarrow> new_frame_buffer capacity = Some fb \<Longrightarrow>
     fb_ok fb \<and> frames fb = [] \<and> fb_droppedFrames fb = 0 \<and> fb_totalFrames fb = 0"
  by (auto simp: new_frame_buffer_def fb_ok_def chan_ok_def)

theorem fb_push_keeps_newest_witness:
  "let (r, rel, fb') = fb_push (demo_frame 3)
        (demo_buffer\<lparr>fb_buffer := (make_chan 2)\<lparr>ch_buf := [demo_frame 1, demo_frame 2]\<rparr>\<rparr>)
   in frames fb' = [demo_frame 2, demo_frame 3] \<and> rel = [1]"
proof -
  let ?fb = "demo_buffer\<lparr>fb_buffer := (make_chan 2)\<lparr>ch_buf := [demo_frame 1, demo_frame 2]\<rparr>\<rparr>"
  have "fb_ok ?fb" by (simp add: demo_buffer_def fb_ok_def chan_ok_def)
  from fb_push_keeps_newest [OF this, of "demo_frame 3"] show ?thesis
    by (simp add: Let_def demo_frame_def released_def split: prod.splits)
qed


subsection \<open>The statistics\<close>

definition fb_counts_ok :: "frame_buffer \<Rightarrow> nat \<Rightarrow> bool" where
  "fb_counts_ok fb n \<longleftrightarrow> fb_ok fb \<and> 0 \<le> fb_droppedFrames fb \<and> fb_totalFrames fb = int n
     \<and> fb_droppedFrames fb + int (length (frames fb)) \<le> int n"

lemma fb_counts_run:
  assumes "fb_counts_ok fb n" and "int (n + length es) \<le> max_i64"
  shows "\<exists>m \<le> n + length es. fb_counts_ok (final fb_step fb es) m"
  using assms
proof (induction es arbitrary: fb n)
  case (Cons e es)
  obtain o1 fb1 where s1: "fb_step fb e = (o1, fb1)" by (cases "fb_step fb e")
  have ok: "fb_ok fb" using Cons.prems(1) by (simp add: fb_counts_ok_def)
  from fb_step_balance [OF ok s1] obtain ds where d: "fb_ok fb1"
    "frames fb @ pushes [e] = pops [o1] @ ds @ frames fb1" "length ds \<le> 1"
    "fb_droppedFrames fb1 = (if ds = [] then fb_droppedFrames fb else i64 (fb_droppedFrames fb + 1))"
    "fb_totalFrames fb1 = (if pushes [e] = [] then fb_totalFrames fb else i64 (fb_totalFrames fb + 1))"
    by blast
  let ?n = "n + length (pushes [e])"
  have len: "length (frames fb) + length (pushes [e]) = length (pops [o1]) + length ds + length (frames fb1)"
    using d(2) by (metis length_append add.assoc)
  have ds: "ds = [] \<or> length ds = 1" using d(3) by (cases ds) auto
  have p: "pushes [e] = [] \<or> length (pushes [e]) = 1" by (cases e) auto
  have "fb_counts_ok fb1 ?n"
    using Cons.prems d(1,4,5) len ds p by (auto simp: fb_counts_ok_def)
  then obtain m where "m \<le> ?n + length es" "fb_counts_ok (final fb_step fb1 es) m"
    using Cons.IH [of fb1 ?n] Cons.prems(2) p by fastforce
  then show ?case using s1 p by (intro exI [of _ m]) auto
qed auto

text \<open>The reported drop rate is a percentage: after any sequence of fewer than 2^63 pushes and pops
  on a new buffer, the counters satisfy 0 <= dropped <= total, every queued frame is counted and
  not dropped, and DropRate, computed in floating point, lies between 0 and 100.\<close>

theorem fb_drop_rate_is_percentage:
  assumes "0 < capacity" and "new_frame_buffer capacity = Some fb0" and "int (length es) \<le> max_i64"
    and "fb = final fb_step fb0 es"
  shows "0 \<le> fb_droppedFrames fb \<and> fb_droppedFrames fb + fb_size fb \<le> fb_totalFrames fb
       \<and> f_le (Fin 0) (bst_DropRate (fb_stats fb)) \<and> f_le (bst_DropRate (fb_stats fb)) (Fin 100)"
proof -
  have "fb_counts_ok fb0 0"
    using new_frame_buffer_ok [OF assms(1,2)] by (simp add: fb_counts_ok_def)
  then obtain m where m: "m \<le> length es" "fb_counts_ok fb m"
    using fb_counts_run [of fb0 0 es] assms(3,4) by auto
  then have c: "0 \<le> fb_droppedFrames fb" "fb_droppedFrames fb + fb_size fb \<le> fb_totalFrames fb"
    "0 \<le> fb_size fb" "fb_totalFrames fb \<le> max_i64"
    using assms(3) by (simp_all add: fb_counts_ok_def fb_size_def)
  then show ?thesis
    using percent_at_most_100 [of "fb_droppedFrames fb" "fb_totalFrames fb"]
    by (auto simp: fb_stats_def Let_def)
qed

theorem fb_drop_rate_is_percentage_witness:
  "f_le (bst_DropRate (fb_stats (final fb_step demo_buffer
     [EvPush (demo_frame 1), EvPush (demo_frame 2), EvPush (demo_frame 3)]))) (Fin 100)"
proof -
  have "new_frame_buffer 2 = Some demo_buffer" by (simp add: new_frame_buffer_def demo_buffer_def)
  from fb_drop_rate_is_percentage [OF _ this _ refl,
      of "[EvPush (demo_frame 1), EvPush (demo_frame 2), EvPush (demo_frame 3)]"]
  show ?thesis by simp
qed

subsection \<open>Concurrent producers and consumers\<close>

text \<open>
  \<open>Push\<close> is not atomic: it counts, tries to send, takes out the oldest frame and sends again,
  and other goroutines run between these steps.  The program counter of a pushing goroutine says
  where it is: about to try (\<open>PTry\<close>), about to take the oldest frame out (\<open>PDrain\<close>), or at the
  second, blocking send (\<open>PSend\<close>).  \<open>ps\<close> is the set of goroutines that push; any number of
  goroutines pop.
\<close>

datatype push_pc = PIdle | PTry frame | PDrain frame | PSend frame

record fb_sys =
  sy_fb :: frame_buffer
  sy_pc :: "nat \<Rightarrow> push_pc"

inductive fb_sys_step :: "nat set \<Rightarrow> fb_sys \<Rightarrow> fb_sys \<Rightarrow> bool" for ps where
  start: "p \<in> ps \<Longrightarrow> sy_pc s p = PIdle \<Longrightarrow> fb_sys_step ps s
     (s\<lparr>sy_fb := (sy_fb s)\<lparr>fb_totalFrames := i64 (fb_totalFrames (sy_fb s) + 1)\<rparr>,
        sy_pc := (sy_pc s)(p := PTry f)\<rparr>)"
| try_sent: "sy_pc s p = PTry f \<Longrightarrow> chan_send f (fb_buffer (sy_fb s)) = Sent c \<Longrightarrow> fb_sys_step ps s
     (s\<lparr>sy_fb := (sy_fb s)\<lparr>fb_buffer := c\<rparr>, sy_pc := (sy_pc s)(p := PIdle)\<rparr>)"
| try_full: "sy_pc s p = PTry f \<Longrightarrow> chan_send f (fb_buffer (sy_fb s)) = SendBlocks \<Longrightarrow> fb_sys_step ps s
     (s\<lparr>sy_pc := (sy_pc s)(p := PDrain f)\<rparr>)"
| drain_one: "sy_pc s p = PDrain f \<Longrightarrow> chan_recv (fb_buffer (sy_fb s)) = Received d c \<Longrightarrow> fb_sys_step ps s
     (s\<lparr>sy_fb := (sy_fb s)\<lparr>fb_buffer := c\<rparr>, sy_pc := (sy_pc s)(p := PSend f)\<rparr>)"
| drain_none: "sy_pc s p = PDrain f \<Longrightarrow> chan_recv (fb_buffer (sy_fb s)) = RecvBlocks \<Longrightarrow> fb_sys_step ps s
     (s\<lparr>sy_pc := (sy_pc s)(p := PSend f)\<rparr>)"
| sent: "sy_pc s p = PSend f \<Longrightarrow> chan_send f (fb_buffer (sy_fb s)) = Sent c \<Longrightarrow> fb_sys_step ps s
     (s\<lparr>sy_fb := (sy_fb s)\<lparr>fb_buffer := c, fb_droppedFrames := i64 (fb_droppedFrames (sy_fb s) + 1)\<rparr>,
        sy_pc := (sy_pc s)(p := PIdle)\<rparr>)"
| consume: "chan_recv (fb_buffer (sy_fb s)) = Received d c \<Longrightarrow> fb_sys_step ps s
     (s\<lparr>sy_fb := (sy_fb s)\<lparr>fb_buffer := c\<rparr>\<rparr>)"

inductive fb_reachable :: "nat set \<Rightarrow> frame_buffer \<Rightarrow> fb_sys \<Rightarrow> bool" for ps fb0 where
  init: "fb_reachable ps fb0 \<lparr>sy_fb = fb0, sy_pc = (\<lambda>_. PIdle)\<rparr>"
| step: "fb_reachable ps fb0 s \<Longrightarrow> fb_sys_step ps s t \<Longrightarrow> fb_reachable ps fb0 t"

definition single_producer_inv :: "nat \<Rightarrow> fb_sys \<Rightarrow> bool" where
  "single_producer_inv p s \<longleftrightarrow> fb_ok (sy_fb s) \<and> (\<forall>q. q \<noteq> p \<longrightarrow> sy_pc s q = PIdle)
     \<and> (\<forall>f. sy_pc s p = PSend f \<longrightarrow> length (frames (sy_fb s)) < ch_cap (fb_buffer (sy_fb s)))"

lemma single_producer_step:
  assumes "fb_sys_step {p} s t" and "single_producer_inv p s"
  shows "single_producer_inv p t"
  using assms
proof (induction rule: fb_sys_step.induct)
  case (drain_one s q f d c)
  then show ?case
    by (cases "q = p") (auto simp: single_producer_inv_def fb_ok_def chan_ok_def chan_iffs)
next
  case (drain_none s q f)
  then show ?case
    by (cases "q = p")
      (auto simp: single_producer_inv_def fb_ok_def chan_ok_def chan_recv_def split: list.splits if_splits)
next
  case (consume s d c)
  then show ?case
    by (auto simp: single_producer_inv_def fb_ok_def chan_ok_def chan_iffs)
next
  case (try_sent s q f c)
  then show ?case
    by (cases "q = p") (auto simp: single_producer_inv_def fb_ok_def chan_ok_def chan_iffs)
next
  case (sent s q f c)
  then show ?case
    by (cases "q = p") (auto simp: single_producer_inv_def fb_ok_def chan_ok_def chan_iffs)
next
  case (try_full s q f)
  then show ?case by (cases "q = p") (auto simp: single_producer_inv_def)
next
  case (start q s f)
  then show ?case by (auto simp: single_producer_inv_def fb_ok_def)
qed

text \<open>With a single pushing goroutine, as each camera has, Push never blocks, whatever the
  goroutines that pop do between its steps: in every reachable state in which the producer stands
  at the blocking send, the channel is open and has room, so the send goes through.\<close>

theorem push_never_blocks_single_producer:
  assumes "fb_ok fb0" and "fb_reachable {p} fb0 s" and "sy_pc s p = PSend f"
  shows "chan_send f (fb_buffer (sy_fb s)) =
    Sent ((fb_buffer (sy_fb s))\<lparr>ch_buf := frames (sy_fb s) @ [f]\<rparr>)"
proof -
  from assms(2) have "single_producer_inv p s"
  proof (induction rule: fb_reachable.induct)
    case init
    then show ?case using assms(1) by (simp add: single_producer_inv_def)
  qed (rule single_producer_step)
  then show ?thesis using assms(3) by (simp add: single_producer_inv_def fb_ok_def chan_send_def)
qed

definition full_buffer :: frame_buffer where
  "full_buffer = \<lparr>fb_buffer = (make_chan 1)\<lparr>ch_buf := [demo_frame 1]\<rparr>, fb_capacity = 1,
     fb_droppedFrames = 0, fb_totalFrames = 1\<rparr>"

lemma full_buffer_ok: "fb_ok full_buffer"
  by (simp add: full_buffer_def fb_ok_def chan_ok_def)

definition sys_after_drain :: fb_sys where
  "sys_after_drain = \<lparr>sy_fb = full_buffer\<lparr>fb_buffer := make_chan 1, fb_totalFrames := 2\<rparr>,
     sy_pc = (\<lambda>_. PIdle)(0 := PSend (demo_frame 2))\<rparr>"

lemma reach_after_drain:
  assumes "0 \<in> ps"
  shows "fb_reachable ps full_buffer sys_after_drain"
proof -
  let ?f = "demo_frame 2"
  let ?b = "full_buffer\<lparr>fb_totalFrames := 2\<rparr>"
  have "fb_sys_step ps \<lparr>sy_fb = full_buffer, sy_pc = (\<lambda>_. PIdle)\<rparr>
      \<lparr>sy_fb = ?b, sy_pc = (\<lambda>_. PIdle)(0 := PTry ?f)\<rparr>"
    using fb_sys_step.start [of 0 ps "\<lparr>sy_fb = full_buffer, sy_pc = (\<lambda>_. PIdle)\<rparr>" ?f] assms
    by (simp add: full_buffer_def)
  with fb_reachable.init have 1: "fb_reachable ps full_buffer \<lparr>sy_fb = ?b, sy_pc = (\<lambda>_. PIdle)(0 := PTry ?f)\<rparr>"
    by (rule fb_reachable.step)
  have "fb_sys_step ps \<lparr>sy_fb = ?b, sy_pc = (\<lambda>_. PIdle)(0 := PTry ?f)\<rparr>
      \<lparr>sy_fb = ?b, sy_pc = (\<lambda>_. PIdle)(0 := PDrain ?f)\<rparr>"
    using fb_sys_step.try_full [of "\<lparr>sy_fb = ?b, sy_pc = (\<lambda>_. PIdle)(0 := PTry ?f)\<rparr>" 0 ?f ps]
    by (simp add: full_buffer_def chan_send_def)
  with 1 have 2: "fb_reachable ps full_buffer \<lparr>sy_fb = ?b, sy_pc = (\<lambda>_. PIdle)(0 := PDrain ?f)\<rparr>"
    by (rule fb_reachable.step)
  have "fb_sys_step ps \<lparr>sy_fb = ?b, sy_pc = (\<lambda>_. PIdle)(0 := PDrain ?f)\<rparr> sys_after_drain"
    using fb_sys_step.drain_one [of "\<lparr>sy_fb = ?b, sy_pc = (\<lambda>_. PIdle)(0 := PDrain ?f)\<rparr>" 0 ?f
        "demo_frame 1" "make_chan 1" ps]
    by (simp add: full_buffer_def sys_after_drain_def chan_iffs make_chan_def)
  with 2 show ?thesis by (rule fb_reachable.step)
qed

theorem push_never_blocks_single_producer_witness:
  "\<exists>c. chan_send (demo_frame 2) (fb_buffer (sy_fb sys_after_drain)) = Sent c"
  using push_never_blocks_single_producer [OF full_buffer_ok reach_after_drain [of "{0}"]]
  by (auto simp: sys_after_drain_def)

text \<open>
  With two producers the second send can block: while one stands before it, the other fills the
  slot it made.  Nothing but a consumer can then let it continue.
\<close>

lemma two_producers_can_block:
  "\<exists>s. fb_reachable {0, 2} full_buffer s \<and> sy_pc s 0 = PSend (demo_frame 2)
     \<and> chan_send (demo_frame 2) (fb_buffer (sy_fb s)) = SendBlocks"
proof -
  define f where "f = demo_frame 3"
  define t where "t = sys_after_drain
    \<lparr>sy_fb := (sy_fb sys_after_drain)\<lparr>fb_totalFrames := i64 (fb_totalFrames (sy_fb sys_after_drain) + 1)\<rparr>,
     sy_pc := (sy_pc sys_after_drain)(2 := PTry f)\<rparr>"
  define c where "c = (fb_buffer (sy_fb t))\<lparr>ch_buf := frames (sy_fb t) @ [f]\<rparr>"
  define u where "u = t\<lparr>sy_fb := (sy_fb t)\<lparr>fb_buffer := c\<rparr>, sy_pc := (sy_pc t)(2 := PIdle)\<rparr>"
  have s: "sy_pc sys_after_drain 2 = PIdle" "sy_pc sys_after_drain 0 = PSend (demo_frame 2)"
    "fb_buffer (sy_fb sys_after_drain) = make_chan 1"
    by (simp_all add: sys_after_drain_def)
  have "fb_sys_step {0, 2} sys_after_drain t"
    unfolding t_def by (rule fb_sys_step.start) (simp_all add: s)
  then have t: "fb_reachable {0, 2} full_buffer t"
    by (intro fb_reachable.step [OF reach_after_drain]) simp_all
  have tb: "fb_buffer (sy_fb t) = make_chan 1" "sy_pc t 2 = PTry f" "sy_pc t 0 = PSend (demo_frame 2)"
    by (simp_all add: t_def s)
  have "fb_sys_step {0, 2} t u"
    unfolding u_def by (rule fb_sys_step.try_sent) (simp_all add: tb c_def chan_iffs)
  with t have "fb_reachable {0, 2} full_buffer u" by (rule fb_reachable.step)
  moreover have "sy_pc u 0 = PSend (demo_frame 2)"
    "chan_send (demo_frame 2) (fb_buffer (sy_fb u)) = SendBlocks"
    by (simp_all add: u_def c_def tb chan_send_def)
  ultimately show ?thesis by blast
qed

end
