(* ===== verification/GoText.thy ===== *)
theory GoText
  imports Prelude
begin

section \<open>Strings of Go: numbers, positions, slices\<close>

text \<open>
  A Go string is its bytes, here a list of 8-bit characters.  The theory has what the components
  use of \<open>fmt\<close> and \<open>strings\<close>: the \<open>%d\<close> and \<open>%05d\<close> verbs, \<open>Index\<close> and \<open>LastIndex\<close> of one
  character (\<open>-1\<close> when there is none), and \<open>Sscanf\<close> with the format \<open>%d\<close> into an \<open>int64\<close>: it
  skips white space, but stops at a newline, takes an optional sign and the longest run of decimal
  digits, and ignores what follows them.
\<close>

subsection \<open>Decimal numbers\<close>

definition digit :: "nat \<Rightarrow> char" where
  "digit d = char_of (48 + d)"

definition digit_val :: "char \<Rightarrow> nat" where
  "digit_val c = of_char c - 48"

definition is_digit :: "char \<Rightarrow> bool" where
  "is_digit c \<longleftrightarrow> 48 \<le> (of_char c :: nat) \<and> (of_char c :: nat) \<le> 57"

fun dec :: "nat \<Rightarrow> string" where
  "dec n = (if n < 10 then [digit n] else dec (n div 10) @ [digit (n mod 10)])"

declare dec.simps [simp del]

definition undec :: "string \<Rightarrow> nat" where
  "undec s = foldl (\<lambda>a c. a * 10 + digit_val c) 0 s"

definition fmt_d :: "int \<Rightarrow> string" where
  "fmt_d i = (if i < 0 then CHR ''-'' # dec (nat (- i)) else dec (nat i))"

definition fmt_0d :: "nat \<Rightarrow> nat \<Rightarrow> string" where
  "fmt_0d width n = replicate (width - length (dec n)) (CHR ''0'') @ dec n"

lemma of_char_digit: "d < 10 \<Longrightarrow> (of_char (digit d) :: nat) = 48 + d"
  by (simp add: digit_def)

lemma is_digit_digit [simp]: "d < 10 \<Longrightarrow> is_digit (digit d)"
  by (simp add: is_digit_def of_char_digit)

lemma digit_val_digit [simp]: "d < 10 \<Longrightarrow> digit_val (digit d) = d"
  by (simp add: digit_val_def of_char_digit)

lemma digits_dec: "list_all is_digit (dec n)"
proof (induction n rule: dec.induct)
  case (1 n)
  then show ?case by (subst dec.simps) simp
qed

lemma dec_not_Nil [simp]: "dec n \<noteq> []"
  by (subst dec.simps) simp

lemma undec_snoc [simp]: "undec (s @ [c]) = undec s * 10 + digit_val c"
  by (simp add: undec_def)

lemma undec_dec [simp]: "undec (dec n) = n"
proof (induction n rule: dec.induct)
  case (1 n)
  show ?case
  proof (cases "n < 10")
    case True
    then show ?thesis by (subst dec.simps) (simp add: undec_def)
  next
    case False
    then show ?thesis using 1 by (subst dec.simps) simp
  qed
qed

lemma undec_zeros: "undec (replicate k (CHR ''0'') @ s) = undec s"
  by (induction k) (simp_all add: undec_def digit_val_def)

lemma undec_fmt_0d [simp]: "undec (fmt_0d w n) = n"
  by (simp add: fmt_0d_def undec_zeros)

lemma length_dec: "n < 10 ^ Suc k \<Longrightarrow> length (dec n) \<le> Suc k"
proof (induction k arbitrary: n)
  case 0
  then show ?case by (subst dec.simps) simp
next
  case (Suc k)
  then have "length (dec (n div 10)) \<le> Suc k" by (intro Suc.IH) (simp add: less_mult_imp_div_less)
  then show ?case by (subst dec.simps) simp
qed

lemma length_fmt_0d: "n < 10 ^ Suc k \<Longrightarrow> length (fmt_0d (Suc k) n) = Suc k"
  using length_dec [of n k] by (simp add: fmt_0d_def)

lemma digits_fmt_0d: "list_all is_digit (fmt_0d w n)"
  using digits_dec [of n] by (auto simp: fmt_0d_def list_all_iff is_digit_def)

lemma no_colon_digits:
  assumes "list_all is_digit s"
  shows "CHR '':'' \<notin> set s"
proof
  assume "CHR '':'' \<in> set s"
  with assms have "is_digit (CHR '':'')" by (auto simp: list_all_iff)
  then show False by (simp add: is_digit_def)
qed

lemma no_colon_fmt_d: "CHR '':'' \<notin> set (fmt_d i)"
  using no_colon_digits [OF digits_dec] by (auto simp: fmt_d_def)

lemma no_colon_fmt_0d: "CHR '':'' \<notin> set (fmt_0d w n)"
  by (rule no_colon_digits [OF digits_fmt_0d])

lemma fmt_d_not_Nil [simp]: "fmt_d i \<noteq> []"
  by (simp add: fmt_d_def)

subsection \<open>Positions of a character\<close>

fun index_of :: "char \<Rightarrow> string \<Rightarrow> int" where
  "index_of c [] = -1"
| "index_of c (x # xs) = (if x = c then 0 else let i = index_of c xs in if i < 0 then -1 else i + 1)"

fun last_index_of :: "char \<Rightarrow> string \<Rightarrow> int" where
  "last_index_of c [] = -1"
| "last_index_of c (x # xs) =
     (let i = last_index_of c xs in if 0 \<le> i then i + 1 else if x = c then 0 else -1)"

text \<open>The slice \<open>s[i:j]\<close> with \<open>0 \<le> i \<le> j \<le> len(s)\<close>.\<close>

definition slice :: "string \<Rightarrow> int \<Rightarrow> int \<Rightarrow> string" where
  "slice s i j = take (nat (j - i)) (drop (nat i) s)"

definition slice_from :: "string \<Rightarrow> int \<Rightarrow> string" where
  "slice_from s i = drop (nat i) s"

lemma index_of_none [simp]: "c \<notin> set xs \<Longrightarrow> index_of c xs = -1"
  by (induction xs) auto

lemma index_of_first [simp]: "c \<notin> set xs \<Longrightarrow> index_of c (xs @ c # ys) = int (length xs)"
  by (induction xs) auto

lemma index_of_range: "-1 \<le> index_of c xs \<and> index_of c xs < int (length xs)"
  by (induction xs) (auto simp: Let_def)

lemma last_index_of_none [simp]: "c \<notin> set xs \<Longrightarrow> last_index_of c xs = -1"
  by (induction xs) auto

lemma last_index_of_last [simp]: "c \<notin> set ys \<Longrightarrow> last_index_of c (xs @ c # ys) = int (length xs)"
  by (induction xs) auto

subsection \<open>Scanning a number\<close>

text \<open>The length of the white-space rune a string starts with, 0 when it starts with none.\<close>

definition space_len :: "string \<Rightarrow> nat" where
  "space_len s = (let b = map (of_char :: char \<Rightarrow> nat) (take 3 s) in
     if take 1 b \<in> {[9], [10], [11], [12], [13], [32]} then 1
     else if take 2 b \<in> {[0xC2, 0x85], [0xC2, 0xA0]} then 2
     else if b \<in> {[0xE1, 0x9A, 0x80], [0xE2, 0x80, 0xA8], [0xE2, 0x80, 0xA9], [0xE2, 0x80, 0xAF],
                  [0xE2, 0x81, 0x9F], [0xE3, 0x80, 0x80]} then 3
     else if take 2 b = [0xE2, 0x80] \<and> 2 < length b \<and> 0x80 \<le> b ! 2 \<and> b ! 2 \<le> 0x8A then 3
     else 0)"

datatype scan_error = ScanEOF | ScanNewline | ScanExpectedInteger | ScanOutOfRange

function skip_space :: "string \<Rightarrow> scan_error + string" where
  "skip_space s =
     (if s \<noteq> [] \<and> hd s = char_of (10 :: nat) then Inl ScanNewline
      else if s = [] \<or> space_len s = 0 then Inr s
      else skip_space (drop (space_len s) s))"
  by pat_completeness auto
termination
  by (relation "measure length") auto

declare skip_space.simps [simp del]

definition sscanf_d :: "string \<Rightarrow> scan_error + int" where
  "sscanf_d s = (case skip_space s of
     Inl e \<Rightarrow> Inl e
   | Inr [] \<Rightarrow> Inl ScanEOF
   | Inr (c # cs) \<Rightarrow>
       let neg = (c = CHR ''-'');
           rest = (if c = CHR ''-'' \<or> c = CHR ''+'' then cs else c # cs);
           ds = takeWhile is_digit rest;
           v = (if neg then - int (undec ds) else int (undec ds))
       in if rest = [] then Inl ScanEOF
          else if ds = [] then Inl ScanExpectedInteger
          else if v < min_i64 \<or> max_i64 < v then Inl ScanOutOfRange
          else Inr v)"

lemma skip_space_stop:
  assumes "is_digit c \<or> c = CHR ''-''"
  shows "skip_space (c # s) = Inr (c # s)"
proof -
  have c: "48 \<le> (of_char c :: nat) \<and> (of_char c :: nat) \<le> 57 \<or> (of_char c :: nat) = 45"
    using assms by (auto simp: is_digit_def)
  then obtain n :: nat where n: "of_char c = n" "45 \<le> n" "n \<le> 57" by fastforce
  have b: "map (of_char :: char \<Rightarrow> nat) (take 3 (c # s)) = n # map of_char (take 2 s)"
    by (simp add: n(1) numeral_3_eq_3 numeral_2_eq_2)
  have "space_len (c # s) = 0"
    unfolding space_len_def b Let_def using n(2,3) by (simp add: numeral_2_eq_2)
  moreover have "c \<noteq> char_of (10 :: nat)" using c by auto
  ultimately show ?thesis by (subst skip_space.simps) simp
qed

lemma takeWhile_digits: "list_all is_digit s \<Longrightarrow> takeWhile is_digit s = s"
  by (auto simp: list_all_iff)

text \<open>Printing and scanning again is the identity on \<open>int64\<close>.\<close>

lemma sscanf_fmt_d:
  assumes "min_i64 \<le> i" and "i \<le> max_i64"
  shows "sscanf_d (fmt_d i) = Inr i"
proof (cases "i < 0")
  case True
  then have "fmt_d i = CHR ''-'' # dec (nat (- i))" by (simp add: fmt_d_def)
  then show ?thesis
    using True assms
    by (simp add: sscanf_d_def skip_space_stop takeWhile_digits [OF digits_dec] Let_def)
next
  case False
  then have f: "fmt_d i = dec (nat i)" by (simp add: fmt_d_def)
  obtain c cs where d: "dec (nat i) = c # cs" by (cases "dec (nat i)") auto
  have c: "is_digit c" "c \<noteq> CHR ''-''" "c \<noteq> CHR ''+''"
    using digits_dec [of "nat i"] d by (auto simp: is_digit_def)
  have tw: "takeWhile is_digit cs = cs" and "undec (c # cs) = nat i"
    using digits_dec [of "nat i"] takeWhile_digits [of cs] undec_dec [of "nat i"] d by simp_all
  then show ?thesis
    using False assms c f d by (auto simp: sscanf_d_def skip_space_stop Let_def tw)
qed

end
