(* ===== verification/KeyGenerator.thy ===== *)
theory KeyGenerator
  imports GoText "HOL-Library.Sublist"
begin

section \<open>The Redis keys of internal/storage\<close>

text \<open>
  \<open>internal/storage/key_generator.go\<close>: the keys \<open>vhost:prefix:camera:nanoseconds[:suffix]\<close> under
  which frames are stored, the parser of such keys, and the patterns that select them.  The text
  of \<open>uuid.New().String()\<close> is an argument of the call that makes it.
\<close>

definition StrategyBasic :: string where "StrategyBasic = ''basic''"
definition StrategySequence :: string where "StrategySequence = ''sequence''"
definition StrategyUUID :: string where "StrategyUUID = ''uuid''"

record key_config =
  kc_Strategy :: string
  kc_Prefix :: string
  kc_Vhost :: string

record key_generator =
  kg_config :: key_config
  kg_sequence :: int

definition new_key_generator :: "key_config \<Rightarrow> key_generator" where
  "new_key_generator config =
     (let c1 = (if kc_Strategy config = [] then config\<lparr>kc_Strategy := StrategySequence\<rparr> else config);
          c2 = (if kc_Vhost c1 = [] then c1\<lparr>kc_Vhost := ''default''\<rparr> else c1)
      in \<lparr>kg_config = c2, kg_sequence = 0\<rparr>)"

definition get_next_sequence :: "key_generator \<Rightarrow> int \<times> key_generator" where
  "get_next_sequence kg =
     (let s = u64 (kg_sequence kg + 1);
          s' = (if 99999 < s then 1 else s)
      in (s', kg\<lparr>kg_sequence := s'\<rparr>))"

definition base_key :: "key_config \<Rightarrow> string \<Rightarrow> time \<Rightarrow> string" where
  "base_key c cameraID timestamp =
     kc_Vhost c @ '':'' @ kc_Prefix c @ '':'' @ cameraID @ '':'' @ fmt_d (i64 timestamp)"

definition generate_key :: "string \<Rightarrow> time \<Rightarrow> string \<Rightarrow> key_generator \<Rightarrow> string \<times> key_generator" where
  "generate_key cameraID timestamp uuid kg =
     (let baseKey = base_key (kg_config kg) cameraID timestamp in
      if kc_Strategy (kg_config kg) = StrategySequence then
        let (sq, kg') = get_next_sequence kg in (baseKey @ '':'' @ fmt_0d 5 (nat sq), kg')
      else if kc_Strategy (kg_config kg) = StrategyUUID then (baseKey @ '':'' @ take 8 uuid, kg)
      else (baseKey, kg))"

record key_components =
  co_Prefix :: string
  co_Vhost :: string
  co_CameraID :: string
  co_Timestamp :: time
  co_Suffix :: string

datatype key_error = InvalidKeyFormat string | InvalidTimestamp scan_error

definition parse_key :: "string \<Rightarrow> key_error + key_components" where
  "parse_key key =
     (let firstColon = index_of (CHR '':'') key in
      if firstColon = -1 then Inl (InvalidKeyFormat key) else
      let vhost = slice key 0 firstColon;
          second = index_of (CHR '':'') (slice_from key (firstColon + 1)) in
      if second = -1 then Inl (InvalidKeyFormat key) else
      let secondColon = second + firstColon + 1;
          pfx = slice key (firstColon + 1) secondColon;
          third = index_of (CHR '':'') (slice_from key (secondColon + 1)) in
      if third = -1 then Inl (InvalidKeyFormat key) else
      let thirdColon = third + secondColon + 1;
          cameraID = slice key (secondColon + 1) thirdColon;
          remaining = slice_from key (thirdColon + 1);
          lastColon = last_index_of (CHR '':'') remaining;
          (timestampStr, suff) =
            (if 0 < lastColon then (slice remaining 0 lastColon, slice_from remaining (lastColon + 1))
             else (remaining, []))
      in case sscanf_d timestampStr of
           Inl e \<Rightarrow> Inl (InvalidTimestamp e)
         | Inr unixNano \<Rightarrow> Inr \<lparr>co_Prefix = pfx, co_Vhost = vhost, co_CameraID = cameraID,
                                co_Timestamp = unixNano, co_Suffix = suff\<rparr>)"

definition query_pattern :: "string \<Rightarrow> string \<Rightarrow> key_generator \<Rightarrow> string" where
  "query_pattern cameraID vhost kg =
     (let vh = (if vhost = [] then kc_Vhost (kg_config kg) else vhost) in
      if cameraID = [] then vh @ '':'' @ kc_Prefix (kg_config kg) @ '':*''
      else vh @ '':'' @ kc_Prefix (kg_config kg) @ '':'' @ cameraID @ '':*'')"

subsection \<open>Fields between colons\<close>

definition colon_free :: "string \<Rightarrow> bool" where
  "colon_free s \<longleftrightarrow> CHR '':'' \<notin> set s"

lemma colon_free_numbers [simp]: "colon_free (fmt_d i)" "colon_free (fmt_0d w n)"
  by (simp_all add: colon_free_def no_colon_fmt_d no_colon_fmt_0d)

lemma prefix_fields:
  assumes "colon_free a" and "colon_free a'"
  shows "prefix (a @ CHR '':'' # b) (a' @ CHR '':'' # b') \<longleftrightarrow> a = a' \<and> prefix b b'"
  using assms
proof (induction a arbitrary: a')
  case Nil
  then show ?case by (cases a') (auto simp: colon_free_def)
next
  case (Cons x a)
  then show ?case by (cases a') (auto simp: colon_free_def)
qed

text \<open>The parser on a key of four or five fields.\<close>

lemma parse_fields:
  assumes "colon_free v" and "colon_free p" and "colon_free c"
  shows "parse_key (v @ CHR '':'' # p @ CHR '':'' # c @ CHR '':'' # r) =
    (let lastColon = last_index_of (CHR '':'') r;
         (t, suff) = (if 0 < lastColon then (slice r 0 lastColon, slice_from r (lastColon + 1)) else (r, []))
     in case sscanf_d t of
          Inl e \<Rightarrow> Inl (InvalidTimestamp e)
        | Inr n \<Rightarrow> Inr \<lparr>co_Prefix = p, co_Vhost = v, co_CameraID = c, co_Timestamp = n, co_Suffix = suff\<rparr>)"
proof -
  define k where "k = v @ CHR '':'' # p @ CHR '':'' # c @ CHR '':'' # r"
  have cf: "CHR '':'' \<notin> set v" "CHR '':'' \<notin> set p" "CHR '':'' \<notin> set c"
    using assms by (simp_all add: colon_free_def)
  have i1: "index_of (CHR '':'') k = int (length v)"
    and i2: "index_of (CHR '':'') (slice_from k (int (length v) + 1)) = int (length p)"
    using cf by (simp_all add: k_def slice_from_def nat_add_distrib)
  let ?s = "int (length p) + int (length v) + 1"
  have i3: "index_of (CHR '':'') (slice_from k (?s + 1)) = int (length c)"
    using cf by (simp add: k_def slice_from_def nat_add_distrib)
  have s1: "slice k 0 (int (length v)) = v"
    and s2: "slice k (int (length v) + 1) ?s = p"
    and s3: "slice k (?s + 1) (int (length c) + ?s + 1) = c"
    and s4: "slice_from k (int (length c) + ?s + 1 + 1) = r"
    by (simp_all add: k_def slice_def slice_from_def nat_add_distrib numeral_3_eq_3 del: drop_drop)
  have nz: "int (length x) \<noteq> -1" for x :: string by simp
  show ?thesis
    unfolding k_def [symmetric] parse_key_def i1 Let_def
    by (simp only: i2 i3 s1 s2 s3 s4 nz if_False simp_thms)
qed

lemma parse_two_fields:
  assumes "colon_free t" and "t \<noteq> []" and "colon_free s"
  shows "(let lastColon = last_index_of (CHR '':'') (t @ CHR '':'' # s) in
      if 0 < lastColon then (slice (t @ CHR '':'' # s) 0 lastColon, slice_from (t @ CHR '':'' # s) (lastColon + 1))
      else (t @ CHR '':'' # s, [])) = (t, s)"
  using assms by (simp add: colon_free_def slice_def slice_from_def nat_add_distrib)

subsection \<open>Runs of the generator\<close>

definition kg_step :: "key_generator \<Rightarrow> string \<times> time \<times> string \<Rightarrow> string \<times> key_generator" where
  "kg_step kg call = (case call of (cameraID, timestamp, uuid) \<Rightarrow> generate_key cameraID timestamp uuid kg)"

definition kg_ok :: "key_config \<Rightarrow> key_generator \<Rightarrow> bool" where
  "kg_ok c kg \<longleftrightarrow> kg_config kg = c \<and> 0 \<le> kg_sequence kg \<and> kg_sequence kg \<le> 99999"

lemma next_sequence_eq:
  assumes "kg_ok c kg"
  shows "get_next_sequence kg =
    (kg_sequence kg mod 99999 + 1, kg\<lparr>kg_sequence := kg_sequence kg mod 99999 + 1\<rparr>)"
proof (cases "kg_sequence kg = 99999")
  case True
  then show ?thesis by (simp add: get_next_sequence_def Let_def)
next
  case False
  with assms have "0 \<le> kg_sequence kg" "kg_sequence kg < 99999" by (simp_all add: kg_ok_def)
  then show ?thesis by (simp add: get_next_sequence_def Let_def)
qed

lemma seq_bounds: "0 \<le> (x :: int) mod 99999" "x mod 99999 < 99999"
  by simp_all

interpretation kgr: preserved kg_step "kg_ok c" for c
proof
  fix kg e
  assume ok: "kg_ok c kg"
  then show "kg_ok c (snd (kg_step kg e))"
    using seq_bounds [of "kg_sequence kg"]
    by (cases e) (auto simp: kg_step_def generate_key_def Let_def next_sequence_eq [OF ok]
        kg_ok_def intro: order.strict_implies_order)
qed

lemma kg_ok_new: "kg_ok (kg_config (new_key_generator config)) (new_key_generator config)"
  by (simp add: kg_ok_def new_key_generator_def Let_def)

lemma generate_sequence:
  assumes "kg_ok c kg" and "kc_Strategy c = StrategySequence"
  shows "generate_key cam ts u kg =
    (base_key c cam ts @ '':'' @ fmt_0d 5 (nat (kg_sequence kg mod 99999 + 1)),
     kg\<lparr>kg_sequence := kg_sequence kg mod 99999 + 1\<rparr>)"
  using assms(2) next_sequence_eq [OF assms(1)] assms(1)
  by (simp add: generate_key_def kg_ok_def)

lemma sequence_after:
  assumes "kg_ok c kg" and "kc_Strategy c = StrategySequence"
  shows "kg_sequence (final kg_step kg es) mod 99999 = (kg_sequence kg + int (length es)) mod 99999"
  using assms(1)
proof (induction es arbitrary: kg)
  case (Cons e es)
  obtain cam ts u where e: "e = (cam, ts, u)" by (cases e)
  have "kg_sequence (snd (kg_step kg e)) mod 99999 = (kg_sequence kg + 1) mod 99999"
    using e generate_sequence [OF Cons.prems assms(2)] by (simp add: kg_step_def mod_simps)
  then have "(kg_sequence (snd (kg_step kg e)) + int (length es)) mod 99999
      = (kg_sequence kg + 1 + int (length es)) mod 99999"
    by (metis mod_add_left_eq)
  then show ?case using Cons.IH [OF kgr.inv_step [OF Cons.prems]] by (simp add: ac_simps)
qed simp

text \<open>The key of the \<open>i\<close>-th call.\<close>

lemma key_at:
  assumes "kg_ok c kg" and "kc_Strategy c = StrategySequence" and "i < length es"
    and "es ! i = (cam, ts, u)"
  shows "trace kg_step kg es ! i =
    base_key c cam ts @ '':'' @ fmt_0d 5 (nat ((kg_sequence kg + int i) mod 99999 + 1))"
proof -
  let ?k = "final kg_step kg (take i es)"
  have "kg_sequence ?k mod 99999 = (kg_sequence kg + int i) mod 99999"
    using sequence_after [OF assms(1,2), of "take i es"] assms(3) by simp
  then show ?thesis
    using generate_sequence [OF kgr.inv_final [OF assms(1)] assms(2), of cam ts u "take i es"] assms(3,4)
    by (simp add: trace_nth kg_step_def)
qed

lemma sequence_suffix_inj:
  "fmt_0d 5 (nat (x mod 99999 + 1)) = fmt_0d 5 (nat (y mod 99999 + 1)) \<longleftrightarrow> x mod 99999 = y mod (99999 :: int)"
proof
  assume "fmt_0d 5 (nat (x mod 99999 + 1)) = fmt_0d 5 (nat (y mod 99999 + 1))"
  then have "nat (x mod 99999 + 1) = nat (y mod 99999 + 1)" by (metis undec_fmt_0d)
  then show "x mod 99999 = y mod 99999" using seq_bounds [of x] seq_bounds [of y] by linarith
qed simp

lemma sequence_suffix_length: "length (fmt_0d 5 (nat (x mod 99999 + 1))) = 5"
proof -
  have "nat (x mod 99999 + 1) < 10 ^ Suc 4" using seq_bounds [of x] by (simp add: nat_less_iff)
  then show ?thesis using length_fmt_0d [of "nat (x mod 99999 + 1)" 4] by simp
qed

text \<open>When two calls return the same key.\<close>

lemma keys_equal_iff:
  assumes "kg_ok c kg" and "kc_Strategy c = StrategySequence"
    and "i < length es" and "j < length es" and "es ! i = (cam, ts, u)" and "es ! j = (cam', ts', u')"
  shows "trace kg_step kg es ! i = trace kg_step kg es ! j \<longleftrightarrow>
    base_key c cam ts = base_key c cam' ts' \<and> int i mod 99999 = int j mod 99999"
proof -
  let ?f = "\<lambda>n. fmt_0d 5 (nat ((kg_sequence kg + int n) mod 99999 + 1))"
  have "(base_key c cam ts @ '':'' @ ?f i = base_key c cam' ts' @ '':'' @ ?f j) \<longleftrightarrow>
      base_key c cam ts = base_key c cam' ts' \<and> ?f i = ?f j"
    using sequence_suffix_length by (subst append_eq_append_conv) simp_all
  moreover have "(kg_sequence kg + int i) mod 99999 = (kg_sequence kg + int j) mod 99999
      \<longleftrightarrow> int i mod 99999 = int j mod 99999"
    by (metis add_diff_cancel_left mod_eq_dvd_iff)
  ultimately show ?thesis
    using key_at [OF assms(1,2,3,5)] key_at [OF assms(1,2,4,6)] by (simp add: sequence_suffix_inj)
qed

lemma keys_distinct:
  assumes "kg_ok c kg" and "kc_Strategy c = StrategySequence" and "length es \<le> 99999"
  shows "distinct (trace kg_step kg es)"
proof -
  have "trace kg_step kg es ! i \<noteq> trace kg_step kg es ! j"
    if ij: "i < length es" "j < length es" "i \<noteq> j" for i j
  proof -
    obtain a b c' a' b' c'' where e: "es ! i = (a, b, c')" "es ! j = (a', b', c'')" by (metis prod_cases3)
    have "int i mod 99999 \<noteq> int j mod 99999" using ij assms(3) by simp
    then show ?thesis using keys_equal_iff [OF assms(1,2) ij(1,2) e] by blast
  qed
  then show ?thesis by (simp add: distinct_conv_nth)
qed

text \<open>C12: Under the sequence strategy any 99999 consecutive calls return different keys, whatever the
  cameras and timestamps are; and the bound is exact: a call that repeats the camera and the
  nanosecond of the call 99999 before it gets that call's key again.\<close>

theorem generated_keys_distinct:
  assumes "kg_ok c kg" and "kc_Strategy c = StrategySequence"
  shows "(length es \<le> 99999 \<longrightarrow> distinct (trace kg_step kg es))
    \<and> (\<forall>i. i + 99999 < length es \<longrightarrow> es ! (i + 99999) = es ! i \<longrightarrow>
          trace kg_step kg es ! (i + 99999) = trace kg_step kg es ! i)"
proof (intro conjI impI allI)
  show "distinct (trace kg_step kg es)" if "length es \<le> 99999" using keys_distinct [OF assms that] .
next
  fix i
  assume i: "i + 99999 < length es" "es ! (i + 99999) = es ! i"
  obtain cam ts u where e: "es ! i = (cam, ts, u)" by (metis prod_cases3)
  have "i < length es" using i(1) by simp
  moreover have "int (i + 99999) mod 99999 = int i mod 99999" by simp
  ultimately show "trace kg_step kg es ! (i + 99999) = trace kg_step kg es ! i"
    using keys_equal_iff [OF assms i(1), of i cam ts u cam ts u] e i(2) by simp
qed

definition demo_key_config :: key_config where
  "demo_key_config = \<lparr>kc_Strategy = ''sequence'', kc_Prefix = ''frames'', kc_Vhost = ''client''\<rparr>"

theorem generated_keys_distinct_witness:
  "distinct (trace kg_step \<lparr>kg_config = demo_key_config, kg_sequence = 99998\<rparr>
     [(''cam1'', 5, []), (''cam1'', 5, []), (''cam1'', 5, [])])"
  using generated_keys_distinct [of demo_key_config "\<lparr>kg_config = demo_key_config, kg_sequence = 99998\<rparr>"
      "[(''cam1'', 5, []), (''cam1'', 5, []), (''cam1'', 5, [])]"]
  by (simp add: kg_ok_def demo_key_config_def StrategySequence_def del: trace.simps distinct.simps)

subsection \<open>Parsing what was generated\<close>

definition suffix_of :: "key_config \<Rightarrow> int \<Rightarrow> string \<Rightarrow> string" where
  "suffix_of c sq u =
     (if kc_Strategy c = StrategySequence then fmt_0d 5 (nat (sq mod 99999 + 1))
      else if kc_Strategy c = StrategyUUID then take 8 u else [])"

lemma generate_forms:
  assumes "kg_ok c kg"
  shows "fst (generate_key cam ts u kg) = base_key c cam ts @
    (if kc_Strategy c = StrategySequence \<or> kc_Strategy c = StrategyUUID
     then CHR '':'' # suffix_of c (kg_sequence kg) u else [])"
proof (cases "kc_Strategy c = StrategySequence")
  case True
  then show ?thesis using generate_sequence [OF assms True] by (simp add: suffix_of_def)
next
  case False
  then show ?thesis using assms by (simp add: generate_key_def kg_ok_def Let_def suffix_of_def)
qed

text \<open>C18: Parsing a generated key gives back what it was generated from: when the vhost, the prefix
  and the camera id (and the piece of the UUID that is used) contain no colon, the parser returns
  exactly them, the timestamp as \<open>UnixNano\<close> reads it, and the sequence number or UUID as suffix.\<close>

theorem parse_generated_key:
  assumes "kg_ok c kg"
    and "colon_free (kc_Vhost c)" and "colon_free (kc_Prefix c)" and "colon_free cam"
    and "kc_Strategy c = StrategyUUID \<Longrightarrow> colon_free (take 8 u)"
  shows "parse_key (fst (generate_key cam ts u kg)) =
    Inr \<lparr>co_Prefix = kc_Prefix c, co_Vhost = kc_Vhost c, co_CameraID = cam, co_Timestamp = i64 ts,
         co_Suffix = (if kc_Strategy c = StrategySequence
                      then fmt_0d 5 (nat (kg_sequence kg mod 99999 + 1))
                      else if kc_Strategy c = StrategyUUID then take 8 u else [])\<rparr>"
proof -
  let ?s = "suffix_of c (kg_sequence kg) u" and ?t = "fmt_d (i64 ts)"
  let ?k = "\<lambda>r. kc_Vhost c @ CHR '':'' # kc_Prefix c @ CHR '':'' # cam @ CHR '':'' # r"
  have scan: "sscanf_d ?t = Inr (i64 ts)"
    using i64_range [of ts] by (simp add: sscanf_fmt_d)
  have plain: "last_index_of (CHR '':'') ?t = -1"
    using no_colon_fmt_d by simp
  show ?thesis
  proof (cases "kc_Strategy c = StrategySequence \<or> kc_Strategy c = StrategyUUID")
    case True
    then have k: "fst (generate_key cam ts u kg) = ?k (?t @ CHR '':'' # ?s)"
      by (simp add: generate_forms [OF assms(1)] base_key_def)
    have s: "colon_free ?s" using True assms(5) by (auto simp: suffix_of_def)
    have "parse_key (?k (?t @ CHR '':'' # ?s)) =
      Inr \<lparr>co_Prefix = kc_Prefix c, co_Vhost = kc_Vhost c, co_CameraID = cam, co_Timestamp = i64 ts,
           co_Suffix = ?s\<rparr>"
      using parse_fields [OF assms(2-4), of "?t @ CHR '':'' # ?s"] parse_two_fields [of ?t ?s] s scan
      by (simp add: Let_def)
    then show ?thesis using k by (simp add: suffix_of_def)
  next
    case False
    then have "fst (generate_key cam ts u kg) = ?k ?t"
      by (simp add: generate_forms [OF assms(1)] base_key_def)
    then show ?thesis
      using parse_fields [OF assms(2-4), of ?t] False plain scan by simp
  qed
qed

theorem parse_generated_key_witness:
  "\<exists>s. parse_key (fst (generate_key ''cam4'' 1731024000123456789 []
      \<lparr>kg_config = demo_key_config, kg_sequence = 0\<rparr>)) =
    Inr \<lparr>co_Prefix = ''frames'', co_Vhost = ''client'', co_CameraID = ''cam4'',
         co_Timestamp = 1731024000123456789, co_Suffix = s\<rparr>"
  using parse_generated_key [of demo_key_config "\<lparr>kg_config = demo_key_config, kg_sequence = 0\<rparr>"
      "''cam4''" "[]" 1731024000123456789]
  by (simp add: kg_ok_def demo_key_config_def StrategyUUID_def colon_free_def)

text \<open>The pattern of a camera selects that camera's keys and no others: its part before the
  final \<open>*\<close> is a prefix of a generated key exactly when the key belongs to the same vhost, prefix
  and camera (none of them with a colon), so clients that share a Redis server stay apart.\<close>

theorem query_pattern_selects:
  assumes "kg_ok c kg" and "kg_ok c' kg'" and "cam \<noteq> []" and "kc_Vhost c \<noteq> []"
    and "colon_free (kc_Vhost c)" and "colon_free (kc_Prefix c)" and "colon_free cam"
    and "colon_free (kc_Vhost c')" and "colon_free (kc_Prefix c')" and "colon_free cam'"
  shows "\<exists>p. query_pattern cam [] kg = p @ ''*'' \<and>
    (prefix p (fst (generate_key cam' ts u kg')) \<longleftrightarrow>
      kc_Vhost c = kc_Vhost c' \<and> kc_Prefix c = kc_Prefix c' \<and> cam = cam')"
proof -
  let ?p = "kc_Vhost c @ CHR '':'' # kc_Prefix c @ CHR '':'' # cam @ CHR '':'' # []"
  obtain rest where "fst (generate_key cam' ts u kg') =
      kc_Vhost c' @ CHR '':'' # kc_Prefix c' @ CHR '':'' # cam' @ CHR '':'' # rest"
    by (simp add: generate_forms [OF assms(2)] base_key_def)
  then have "prefix ?p (fst (generate_key cam' ts u kg')) \<longleftrightarrow>
      kc_Vhost c = kc_Vhost c' \<and> kc_Prefix c = kc_Prefix c' \<and> cam = cam'"
    using assms by (simp add: prefix_fields)
  moreover have "query_pattern cam [] kg = ?p @ ''*''"
    using assms(1,3) by (simp add: query_pattern_def kg_ok_def)
  ultimately show ?thesis by blast
qed

theorem query_pattern_selects_witness:
  "\<exists>p. query_pattern ''cam1'' [] \<lparr>kg_config = demo_key_config, kg_sequence = 0\<rparr> = p @ ''*'' \<and>
    \<not> prefix p (fst (generate_key ''cam10'' 7 [] \<lparr>kg_config = demo_key_config, kg_sequence = 3\<rparr>))"
  using query_pattern_selects [of demo_key_config "\<lparr>kg_config = demo_key_config, kg_sequence = 0\<rparr>"
      demo_key_config "\<lparr>kg_config = demo_key_config, kg_sequence = 3\<rparr>" "''cam1''" "''cam10''" 7 "[]"]
  by (simp add: kg_ok_def demo_key_config_def colon_free_def)

end
