(* ===== verification/Monitor.thy ===== *)
theory Monitor
  imports Prelude "HOL-Library.Sublist"
begin

section \<open>The camera monitor of pkg/camera\<close>

text \<open>
  \<open>pkg/camera/monitor.go\<close>: the status of every registered camera, updated by the successes and
  failures of its captures.  An operation returns what it makes visible outside: the callbacks it
  starts (each in a goroutine of its own) and the gauges it sets, in the order of the code.  Every
  operation holds the monitor's lock for its whole body, so the operations are atomic.
\<close>

record camera_status =
  cs_CameraID :: string
  cs_IsActive :: bool
  cs_LastSuccessfulCapture :: time
  cs_ConsecutiveFailures :: int
  cs_LastError :: "goerr option"

text \<open>A callback is present or nil; \<open>mo_cameras\<close> is the map the code ranges over.\<close>

record monitor =
  mo_cameras :: "(string \<times> camera_status) list"
  mo_interval :: duration
  mo_onAllInactive :: bool
  mo_onCameraDown :: bool
  mo_onCameraUp :: bool

datatype mon_event = CallAllInactive | CallCameraDown string | CallCameraUp string
  | GaugeLastCapture string int | GaugeConnected string bool | GaugeActiveCount int

definition new_monitor :: "duration \<Rightarrow> monitor" where
  "new_monitor interval = \<lparr>mo_cameras = [], mo_interval = interval,
     mo_onAllInactive = False, mo_onCameraDown = False, mo_onCameraUp = False\<rparr>"

definition set_callbacks :: "bool \<Rightarrow> bool \<Rightarrow> bool \<Rightarrow> monitor \<Rightarrow> monitor" where
  "set_callbacks onAllInactive onCameraDown onCameraUp m =
     (if onAllInactive then m\<lparr>mo_onAllInactive := True\<rparr> else m)
       \<lparr>mo_onCameraDown := onCameraDown, mo_onCameraUp := onCameraUp\<rparr>"

definition register_camera :: "string \<Rightarrow> monitor \<Rightarrow> monitor" where
  "register_camera cam m = m\<lparr>mo_cameras := AList.update cam
     \<lparr>cs_CameraID = cam, cs_IsActive = False, cs_LastSuccessfulCapture = zero_time,
      cs_ConsecutiveFailures = 0, cs_LastError = None\<rparr> (mo_cameras m)\<rparr>"

definition count_active_cameras :: "monitor \<Rightarrow> int" where
  "count_active_cameras m = int (length (filter (\<lambda>(k, st). cs_IsActive st) (mo_cameras m)))"

definition update_active_cameras_count :: "monitor \<Rightarrow> mon_event list" where
  "update_active_cameras_count m = [GaugeActiveCount (count_active_cameras m)]"

definition mon_record_success :: "string \<Rightarrow> time \<Rightarrow> time \<Rightarrow> monitor \<Rightarrow> mon_event list \<times> monitor" where
  "mon_record_success cam now now' m = (case map_of (mo_cameras m) cam of
     None \<Rightarrow> ([], m)
   | Some st \<Rightarrow>
       let wasInactive = \<not> cs_IsActive st;
           st' = st\<lparr>cs_LastSuccessfulCapture := now, cs_ConsecutiveFailures := 0,
                    cs_IsActive := True, cs_LastError := None\<rparr>;
           m' = m\<lparr>mo_cameras := AList.update cam st' (mo_cameras m)\<rparr>
       in ([GaugeLastCapture cam (now' div second), GaugeConnected cam True]
             @ (if wasInactive \<and> mo_onCameraUp m then [CallCameraUp cam] else [])
             @ update_active_cameras_count m', m'))"

definition mon_record_failure :: "string \<Rightarrow> goerr option \<Rightarrow> monitor \<Rightarrow> mon_event list \<times> monitor" where
  "mon_record_failure cam err m = (case map_of (mo_cameras m) cam of
     None \<Rightarrow> ([], m)
   | Some st \<Rightarrow>
       let wasActive = cs_IsActive st;
           st1 = st\<lparr>cs_ConsecutiveFailures := i64 (cs_ConsecutiveFailures st + 1), cs_LastError := err\<rparr>;
           down = (3 \<le> cs_ConsecutiveFailures st1);
           st2 = (if down then st1\<lparr>cs_IsActive := False\<rparr> else st1);
           m' = m\<lparr>mo_cameras := AList.update cam st2 (mo_cameras m)\<rparr>
       in ((if down then GaugeConnected cam False #
              (if wasActive \<and> mo_onCameraDown m then [CallCameraDown cam] else []) else [])
           @ update_active_cameras_count m'
           @ (if count_active_cameras m' = 0 \<and> mo_onAllInactive m then [CallAllInactive] else []), m'))"

definition get_status :: "string \<Rightarrow> monitor \<Rightarrow> camera_status option" where
  "get_status cam m = map_of (mo_cameras m) cam"

definition get_all_status :: "monitor \<Rightarrow> (string \<times> camera_status) list" where
  "get_all_status m = mo_cameras m"

text \<open>
  \<open>checkCameraHealth\<close> only reports; \<open>nows\<close> are its readings of the clock, one for each active camera
  in the order of the iteration.
\<close>

datatype health_report = StaleCamera string duration | NoneActive int int | SomeInactive int int int

fun stale_cameras :: "time list \<Rightarrow> camera_status list \<Rightarrow> health_report list" where
  "stale_cameras nows [] = []"
| "stale_cameras nows (st # sts) =
     (if cs_IsActive st
      then (let d = since (hd nows) (cs_LastSuccessfulCapture st)
            in (if 5 * minute < d then [StaleCamera (cs_CameraID st) d] else [])
               @ stale_cameras (tl nows) sts)
      else stale_cameras nows sts)"

definition check_camera_health :: "time list \<Rightarrow> monitor \<Rightarrow> health_report list" where
  "check_camera_health nows m =
     (let allStatus = map snd (mo_cameras m);
          activeCount = int (length (filter cs_IsActive allStatus));
          inactiveCount = int (length (filter (\<lambda>st. \<not> cs_IsActive st) allStatus));
          totalCameras = int (length allStatus)
      in stale_cameras nows allStatus @
         (if 0 < totalCameras then
            if activeCount = 0 then [NoneActive totalCameras inactiveCount]
            else if 0 < inactiveCount then [SomeInactive activeCount inactiveCount totalCameras]
            else []
          else []))"

subsection \<open>Sequences of operations\<close>

datatype mon_op = Register string | Success string time time | Failure string "goerr option"

fun mon_step :: "monitor \<Rightarrow> mon_op \<Rightarrow> mon_event list \<times> monitor" where
  "mon_step m (Register cam) = ([], register_camera cam m)"
| "mon_step m (Success cam now now') = mon_record_success cam now now' m"
| "mon_step m (Failure cam err) = mon_record_failure cam err m"

fun op_camera :: "mon_op \<Rightarrow> string" where
  "op_camera (Register cam) = cam"
| "op_camera (Success cam _ _) = cam"
| "op_camera (Failure cam _) = cam"

lemmas mon_defs = register_camera_def mon_record_success_def mon_record_failure_def
  update_active_cameras_count_def Let_def

lemma other_camera:
  assumes "op_camera e \<noteq> cam"
  shows "get_status cam (snd (mon_step m e)) = get_status cam m"
  using assms
  by (cases e) (auto simp: get_status_def mon_defs split: option.splits)

lemma own_camera:
  "get_status cam (snd (mon_step m (Register cam))) = Some
     \<lparr>cs_CameraID = cam, cs_IsActive = False, cs_LastSuccessfulCapture = zero_time,
      cs_ConsecutiveFailures = 0, cs_LastError = None\<rparr>"
  "get_status cam (snd (mon_step m (Success cam t t'))) = map_option (\<lambda>st.
     st\<lparr>cs_LastSuccessfulCapture := t, cs_ConsecutiveFailures := 0, cs_IsActive := True,
        cs_LastError := None\<rparr>) (get_status cam m)"
  "get_status cam (snd (mon_step m (Failure cam err))) = map_option (\<lambda>st.
     st\<lparr>cs_ConsecutiveFailures := i64 (cs_ConsecutiveFailures st + 1), cs_LastError := err,
        cs_IsActive := cs_IsActive st \<and> \<not> 3 \<le> i64 (cs_ConsecutiveFailures st + 1)\<rparr>) (get_status cam m)"
  by (simp_all add: get_status_def mon_defs split: option.splits)

lemmas own_camera_simps = own_camera [unfolded mon_step.simps snd_conv]

subsection \<open>The status of a camera follows from its history\<close>

fun is_failure :: "mon_op \<Rightarrow> bool" where
  "is_failure (Failure _ _) = True"
| "is_failure _ = False"

fun is_success :: "mon_op \<Rightarrow> bool" where
  "is_success (Success _ _ _) = True"
| "is_success _ = False"

fun is_register :: "mon_op \<Rightarrow> bool" where
  "is_register (Register _) = True"
| "is_register _ = False"

definition camera_ops :: "string \<Rightarrow> mon_op list \<Rightarrow> mon_op list" where
  "camera_ops cam es = filter (\<lambda>e. op_camera e = cam) es"

text \<open>
  A camera is active when fewer than three failures followed its last success, which came after a
  registration and has no registration after it.
\<close>

definition active_by_history :: "mon_op list \<Rightarrow> bool" where
  "active_by_history ops =
     (length (takeWhile is_failure (rev ops)) < 3
      \<and> (case dropWhile is_failure (rev ops) of
           [] \<Rightarrow> False
         | e # past \<Rightarrow> is_success e \<and> list_ex is_register past))"

lemma history_snoc:
  "active_by_history (ops @ [Register cam]) = False"
  "active_by_history (ops @ [Success cam t t']) = list_ex is_register ops"
  "list_ex is_register ops \<Longrightarrow> active_by_history (ops @ [Failure cam err]) =
     (active_by_history ops \<and> length (takeWhile is_failure (rev ops)) + 1 < 3)"
  by (auto simp: active_by_history_def list_ex_iff split: list.splits)

lemma status_by_history:
  assumes "length es \<le> 9223372036854775807"
  shows "case get_status cam (final mon_step (new_monitor iv) es) of
      None \<Rightarrow> \<not> list_ex is_register (camera_ops cam es)
    | Some st \<Rightarrow> list_ex is_register (camera_ops cam es)
        \<and> cs_ConsecutiveFailures st = int (length (takeWhile is_failure (rev (camera_ops cam es))))
        \<and> cs_IsActive st = active_by_history (camera_ops cam es)"
  using assms
proof (induction es rule: rev_induct)
  case Nil
  then show ?case by (simp add: get_status_def new_monitor_def camera_ops_def)
next
  case (snoc e es)
  let ?m = "final mon_step (new_monitor iv) es"
  note IH = snoc.IH
  show ?case
  proof (cases "op_camera e = cam")
    case False
    then have "camera_ops cam (es @ [e]) = camera_ops cam es" by (simp add: camera_ops_def)
    then show ?thesis using IH snoc.prems False by (simp add: other_camera split: option.splits)
  next
    case True
    have ops: "camera_ops cam (es @ [e]) = camera_ops cam es @ [e]" using True by (simp add: camera_ops_def)
    have "length (takeWhile is_failure (rev (camera_ops cam es))) \<le> length es"
      unfolding camera_ops_def
      by (metis length_filter_le length_rev length_takeWhile_le order_trans)
    then have le: "int (length (takeWhile is_failure (rev (camera_ops cam es)))) < max_i64"
      using snoc.prems by simp
    show ?thesis
      using IH snoc.prems le True unfolding ops
      by (cases e; cases "get_status cam ?m")
        (auto simp: own_camera_simps history_snoc split: option.splits)
  qed
qed

text \<open>C19: The monitor's verdict on a camera is its history: after any sequence of operations a
  registered camera is active exactly when it has succeeded since its last registration and fewer
  than three failures came after the last success; what other cameras did does not matter.\<close>

theorem camera_active_by_history:
  assumes "length es \<le> 9223372036854775807"
    and "get_status cam (final mon_step (new_monitor iv) es) = Some st"
  shows "cs_IsActive st = active_by_history (camera_ops cam es)"
  using status_by_history [OF assms(1), of cam iv] assms(2) by simp

theorem camera_active_by_history_witness:
  "\<exists>st. get_status ''c'' (final mon_step (new_monitor second)
       [Register ''c'', Success ''c'' 1 1, Failure ''c'' None, Register ''d'', Failure ''d'' None,
        Failure ''c'' None]) = Some st \<and> cs_IsActive st"
proof -
  let ?es = "[Register ''c'', Success ''c'' 1 1, Failure ''c'' None, Register ''d'', Failure ''d'' None,
        Failure ''c'' None]"
  obtain st where st: "get_status ''c'' (final mon_step (new_monitor second) ?es) = Some st"
    using status_by_history [of ?es "''c''" second] by (auto simp: camera_ops_def split: option.splits)
  then show ?thesis
    using camera_active_by_history [OF _ st] by (auto simp: camera_ops_def active_by_history_def)
qed

subsection \<open>Up and down alternate\<close>

text \<open>The callbacks about one camera: \<open>True\<close> for up, \<open>False\<close> for down.\<close>

fun transition_of :: "string \<Rightarrow> mon_event \<Rightarrow> bool list" where
  "transition_of cam (CallCameraUp c) = (if c = cam then [True] else [])"
| "transition_of cam (CallCameraDown c) = (if c = cam then [False] else [])"
| "transition_of cam _ = []"

definition transitions :: "string \<Rightarrow> mon_event list \<Rightarrow> bool list" where
  "transitions cam evs = concat (map (transition_of cam) evs)"

fun alternates :: "bool \<Rightarrow> bool list \<Rightarrow> bool" where
  "alternates a [] = True"
| "alternates a (b # bs) = (b \<noteq> a \<and> alternates b bs)"

definition is_active :: "string \<Rightarrow> monitor \<Rightarrow> bool" where
  "is_active cam m = (case get_status cam m of None \<Rightarrow> False | Some st \<Rightarrow> cs_IsActive st)"

lemma transitions_simps [simp]:
  "transitions cam [] = []"
  "transitions cam (e # es) = transition_of cam e @ transitions cam es"
  "transitions cam (es @ es') = transitions cam es @ transitions cam es'"
  by (simp_all add: transitions_def)

lemma callbacks_kept [simp]:
  "mo_onCameraUp (snd (mon_step m e)) = mo_onCameraUp m"
  "mo_onCameraDown (snd (mon_step m e)) = mo_onCameraDown m"
  "mo_onAllInactive (snd (mon_step m e)) = mo_onAllInactive m"
  by (cases e; simp add: mon_defs
      split: option.splits)+

lemma step_transitions:
  assumes "mo_onCameraUp m" and "mo_onCameraDown m" and "e \<noteq> Register cam"
  shows "transitions cam (fst (mon_step m e)) =
    (if is_active cam (snd (mon_step m e)) = is_active cam m then [] else [is_active cam (snd (mon_step m e))])"
proof (cases "op_camera e = cam")
  case False
  then have "transitions cam (fst (mon_step m e)) = []"
    by (cases e) (auto simp: mon_defs split: option.splits)
  then show ?thesis using other_camera [OF False, of m] by (simp add: is_active_def)
next
  case True
  then show ?thesis using assms
    by (cases e) (auto simp: mon_defs is_active_def
        get_status_def split: option.splits)
qed

lemma alternation:
  assumes "mo_onCameraUp m" and "mo_onCameraDown m" and "Register cam \<notin> set es"
  shows "alternates (is_active cam m) (transitions cam (concat (trace mon_step m es)))
    \<and> is_active cam (final mon_step m es)
      = last (is_active cam m # transitions cam (concat (trace mon_step m es)))"
  using assms
proof (induction es arbitrary: m)
  case (Cons e es)
  let ?m = "snd (mon_step m e)"
  have "alternates (is_active cam ?m) (transitions cam (concat (trace mon_step ?m es)))
    \<and> is_active cam (final mon_step ?m es)
      = last (is_active cam ?m # transitions cam (concat (trace mon_step ?m es)))"
    using Cons.prems by (intro Cons.IH) simp_all
  moreover have "transitions cam (fst (mon_step m e)) =
    (if is_active cam ?m = is_active cam m then [] else [is_active cam ?m])"
    using Cons.prems by (intro step_transitions) auto
  ultimately show ?case by auto
qed simp

text \<open>With both callbacks set, the up and down calls about a camera strictly alternate and the
  last of them tells its present state: no camera goes down twice without coming up in between,
  and no change is lost (as long as the camera is not registered anew, which resets it silently).\<close>

theorem up_down_alternate:
  assumes "mo_onCameraUp m" and "mo_onCameraDown m" and "Register cam \<notin> set es"
    and "\<not> is_active cam m"
  shows "let ts = transitions cam (concat (trace mon_step m es))
         in alternates False ts \<and> is_active cam (final mon_step m es) = last (False # ts)"
  using alternation [OF assms(1-3)] assms(4) by simp

definition demo_monitor :: monitor where
  "demo_monitor = register_camera ''c'' (set_callbacks True True True (new_monitor second))"

theorem up_down_alternate_witness:
  "alternates False (transitions ''c'' (concat (trace mon_step demo_monitor
     [Success ''c'' 1 1, Failure ''c'' None, Failure ''c'' None, Failure ''c'' None, Success ''c'' 2 2])))"
  using up_down_alternate [of demo_monitor "''c''"
      "[Success ''c'' 1 1, Failure ''c'' None, Failure ''c'' None, Failure ''c'' None, Success ''c'' 2 2]"]
  unfolding Let_def
  by (simp add: demo_monitor_def set_callbacks_def register_camera_def is_active_def get_status_def
      new_monitor_def)

subsection \<open>The gauges\<close>

definition mon_ok :: "monitor \<Rightarrow> bool" where
  "mon_ok m \<longleftrightarrow> distinct (keys (mo_cameras m))"

interpretation mon: preserved mon_step mon_ok
  by unfold_locales (case_tac e; auto simp: mon_ok_def mon_defs distinct_keys_update split: option.splits)

lemma mon_ok_new: "mon_ok (new_monitor iv)"
  by (simp add: mon_ok_def new_monitor_def)

lemma active_names:
  assumes "mon_ok m"
  shows "{c. is_active c m} = set (keys (filter (\<lambda>(k, st). cs_IsActive st) (mo_cameras m)))"
proof -
  have d: "distinct (keys (mo_cameras m))" using assms by (simp add: mon_ok_def)
  have "is_active c m \<longleftrightarrow> (\<exists>st. (c, st) \<in> set (mo_cameras m) \<and> cs_IsActive st)" for c
    by (auto simp: is_active_def get_status_def map_of_eq_Some_iff [OF d, symmetric]
        split: option.splits)
  then show ?thesis by force
qed

lemma active_set:
  assumes "mon_ok m"
  shows "count_active_cameras m = int (card {c. is_active c m})" and "finite {c. is_active c m}"
proof -
  let ?f = "filter (\<lambda>(k, st). cs_IsActive st) (mo_cameras m)"
  have "distinct (keys ?f)" using assms by (simp add: mon_ok_def distinct_map_filter)
  then show "count_active_cameras m = int (card {c. is_active c m})"
    by (simp add: active_names [OF assms] count_active_cameras_def distinct_card del: set_map set_filter)
  show "finite {c. is_active c m}" by (simp add: active_names [OF assms])
qed

text \<open>Every capture result of a registered camera publishes the number of active cameras, and the
  alarm that no camera is active is raised by exactly the failures that leave none active.\<close>

theorem active_count_published:
  assumes "op_camera e = cam" and "\<not> is_register e" and "get_status cam (final mon_step (new_monitor iv) es) \<noteq> None"
    and "m = set_callbacks True d u (final mon_step (new_monitor iv) es)"
  shows "let (evs, m') = mon_step m e
    in GaugeActiveCount (int (card {c. is_active c m'})) \<in> set evs
       \<and> (CallAllInactive \<in> set evs \<longleftrightarrow> is_failure e \<and> {c. is_active c m'} = {})"
proof -
  have m: "mon_ok m" "get_status cam m \<noteq> None" "mo_onAllInactive m"
    using mon.inv_final [OF mon_ok_new] assms(3,4)
    by (auto simp: mon_ok_def set_callbacks_def get_status_def)
  have ok': "mon_ok (snd (mon_step m e))" using m by (simp add: mon.inv_step)
  then have "(count_active_cameras (snd (mon_step m e)) = 0) = ({c. is_active c (snd (mon_step m e))} = {})"
    using active_set [OF ok'] by simp
  moreover have "GaugeActiveCount (count_active_cameras (snd (mon_step m e))) \<in> set (fst (mon_step m e))
     \<and> (CallAllInactive \<in> set (fst (mon_step m e))
         \<longleftrightarrow> is_failure e \<and> count_active_cameras (snd (mon_step m e)) = 0)"
    using assms(1,2) m(2,3)
    by (cases e) (auto simp: mon_defs get_status_def)
  ultimately show ?thesis using active_set(1) [OF ok'] by (simp add: split_beta)
qed

theorem active_count_published_witness:
  "CallAllInactive \<in> set (fst (mon_step (set_callbacks True True True
     (final mon_step (new_monitor second) [Register ''c''])) (Failure ''c'' None)))"
proof -
  let ?m = "set_callbacks True True True (final mon_step (new_monitor second) [Register ''c''])"
  have "{c. is_active c (snd (mon_step ?m (Failure ''c'' None)))} = {}"
    by (auto simp: is_active_def get_status_def mon_defs
        set_callbacks_def new_monitor_def split: option.splits if_splits)
  then show ?thesis
    using active_count_published [of "Failure ''c'' None" "''c''" second "[Register ''c'']" ?m True True]
    by (simp add: split_beta own_camera_simps(1))
qed

end
