(* ===== verification/MemLevel.thy ===== *)
theory MemLevel
  imports Float64
begin

section \<open>Levels of memory pressure\<close>

text \<open>
  The type \<open>MemoryLevel\<close>, which \<open>pkg/memcontrol\<close> and \<open>v2/src/memory_controller.go\<close> declare with
  the same constants in the same order, and the contract of their classifications: a locale with
  the three thresholds, interpreted by \<open>MemControl\<close> and \<open>MemControlV2\<close>.
\<close>

datatype memory_level = MemoryNormal | MemoryWarning | MemoryCritical | MemoryEmergency

text \<open>The number \<open>iota\<close> gives a constant; levels are compared by it.\<close>

definition level_value :: "memory_level \<Rightarrow> int" where
  "level_value l = (case l of MemoryNormal \<Rightarrow> 0 | MemoryWarning \<Rightarrow> 1 | MemoryCritical \<Rightarrow> 2 | MemoryEmergency \<Rightarrow> 3)"

definition level_string :: "memory_level \<Rightarrow> string" where
  "level_string l = (case l of MemoryNormal \<Rightarrow> ''NORMAL'' | MemoryWarning \<Rightarrow> ''WARNING''
     | MemoryCritical \<Rightarrow> ''CRITICAL'' | MemoryEmergency \<Rightarrow> ''EMERGENCY'')"

lemma level_value_eq [simp]: "level_value a = level_value b \<longleftrightarrow> a = b"
  by (cases a; cases b) (simp_all add: level_value_def)

instantiation memory_level :: linorder
begin

definition less_eq_memory_level :: "memory_level \<Rightarrow> memory_level \<Rightarrow> bool" where
  "less_eq_memory_level a b \<longleftrightarrow> level_value a \<le> level_value b"

definition less_memory_level :: "memory_level \<Rightarrow> memory_level \<Rightarrow> bool" where
  "less_memory_level a b \<longleftrightarrow> level_value a < level_value b"

instance
  by standard (auto simp: less_eq_memory_level_def less_memory_level_def)

end

lemma level_le_simps [simp]:
  "MemoryNormal \<le> l" "l \<le> MemoryEmergency"
  "MemoryWarning \<le> l \<longleftrightarrow> l \<noteq> MemoryNormal"
  "MemoryCritical \<le> l \<longleftrightarrow> l = MemoryCritical \<or> l = MemoryEmergency"
  "MemoryEmergency \<le> l \<longleftrightarrow> l = MemoryEmergency"
  by (cases l; simp add: less_eq_memory_level_def level_value_def)+

lemma f_le_trans: "f_le x y \<Longrightarrow> f_le y z \<Longrightarrow> f_le x z"
  by (cases x; cases y; cases z) auto

lemma f_lt_not_le: "x \<noteq> NaN \<Longrightarrow> y \<noteq> NaN \<Longrightarrow> f_lt x y \<longleftrightarrow> \<not> f_le y x"
  by (cases x; cases y) auto

lemma f_lt_imp_le: "f_lt x y \<Longrightarrow> f_le x y"
  by (cases x; cases y) auto

locale level_classifier =
  fixes classify :: "'c \<Rightarrow> f64 \<Rightarrow> memory_level"
    and warning :: "'c \<Rightarrow> f64"
    and critical :: "'c \<Rightarrow> f64"
    and emergency :: "'c \<Rightarrow> f64"
  assumes classify_emergency: "f_ge u (emergency c) \<Longrightarrow> classify c u = MemoryEmergency"
    and classify_critical: "\<not> f_ge u (emergency c) \<Longrightarrow> f_ge u (critical c) \<Longrightarrow> classify c u = MemoryCritical"
    and classify_warning: "\<not> f_ge u (emergency c) \<Longrightarrow> \<not> f_ge u (critical c) \<Longrightarrow> f_ge u (warning c) \<Longrightarrow>
      classify c u = MemoryWarning"
    and classify_normal: "\<not> f_ge u (emergency c) \<Longrightarrow> \<not> f_ge u (critical c) \<Longrightarrow> \<not> f_ge u (warning c) \<Longrightarrow>
      classify c u = MemoryNormal"
begin

lemmas classify_rules = classify_emergency classify_critical classify_warning classify_normal

lemma at_least:
  "MemoryEmergency \<le> classify c u \<longleftrightarrow> f_ge u (emergency c)"
  "MemoryCritical \<le> classify c u \<longleftrightarrow> f_ge u (emergency c) \<or> f_ge u (critical c)"
  "MemoryWarning \<le> classify c u \<longleftrightarrow> f_ge u (emergency c) \<or> f_ge u (critical c) \<or> f_ge u (warning c)"
  by (cases "f_ge u (emergency c)"; cases "f_ge u (critical c)"; cases "f_ge u (warning c)";
      simp add: classify_rules)+

text \<open>More memory in use never lowers the level, whatever the thresholds are.\<close>

lemma classify_mono:
  assumes "f_le u v"
  shows "classify c u \<le> classify c v"
proof -
  have *: "f_ge u t \<Longrightarrow> f_ge v t" for t using assms by (rule f_le_trans [rotated])
  consider "classify c u = MemoryNormal" | "classify c u = MemoryWarning"
    | "classify c u = MemoryCritical" | "classify c u = MemoryEmergency"
    by (cases "classify c u")
  then show ?thesis
    using at_least [of c u] at_least [of c v] * by cases (auto simp del: level_le_simps(3-5) simp: order_refl)
qed

text \<open>With ordered thresholds the levels are the four intervals they cut out.\<close>

lemma classify_interval:
  assumes "f_lt (warning c) (critical c)" and "f_lt (critical c) (emergency c)" and "u \<noteq> NaN"
  shows "classify c u =
    (if f_lt u (warning c) then MemoryNormal
     else if f_lt u (critical c) then MemoryWarning
     else if f_lt u (emergency c) then MemoryCritical
     else MemoryEmergency)"
proof -
  have nn: "warning c \<noteq> NaN" "critical c \<noteq> NaN" "emergency c \<noteq> NaN"
    using assms by (cases "warning c"; cases "critical c"; cases "emergency c"; auto)+
  have wc: "f_ge u (critical c) \<Longrightarrow> f_ge u (warning c)" and ce: "f_ge u (emergency c) \<Longrightarrow> f_ge u (critical c)"
    using f_le_trans [OF f_lt_imp_le] assms(1,2) by blast+
  show ?thesis
    using wc ce by (auto simp: f_lt_not_le assms(3) nn classify_rules)
qed

end

end
