(* ===== verification/MemControl.thy ===== *)
theory MemControl
  imports MemLevel
begin

section \<open>The memory controller of pkg/memcontrol\<close>

text \<open>
  \<open>pkg/memcontrol/controller.go\<close>.  What \<open>runtime.ReadMemStats\<close> returned is an argument of the
  operation that calls it; an operation returns the effects it has outside the controller, in the
  order of the code: garbage collections started in a goroutine or run in place, memory given back
  to the system, sleeps, and callbacks started (a callback is the number of its registration).
  The end of a background collection is an operation of its own, \<open>gc_done\<close>.
\<close>

record runtime_mem =
  rt_Alloc :: int
  rt_TotalAlloc :: int
  rt_Sys :: int
  rt_NumGC :: int
  rt_HeapAlloc :: int
  rt_HeapSys :: int
  rt_HeapInuse :: int
  rt_StackInuse :: int

record memory_stats =
  ms_Alloc :: int
  ms_TotalAlloc :: int
  ms_Sys :: int
  ms_NumGC :: int
  ms_HeapAlloc :: int
  ms_HeapSys :: int
  ms_HeapInuse :: int
  ms_StackInuse :: int
  ms_UsagePercent :: f64
  ms_Level :: memory_level
  ms_Timestamp :: time

record threshold_config =
  th_MaxMemoryMB :: int
  th_WarningPercent :: f64
  th_CriticalPercent :: f64
  th_EmergencyPercent :: f64
  th_CheckInterval :: duration
  th_GCTriggerPercent :: f64

record throttle_state =
  ts_CurrentDelay :: duration
  ts_LastUpdate :: time
  ts_Paused :: bool

record controller =
  mc_config :: threshold_config
  mc_currentLevel :: memory_level
  mc_stats :: memory_stats
  mc_callbacks :: "memory_level \<Rightarrow> nat list"
  mc_gcInProgress :: bool
  mc_lastGC :: time
  mc_lastLevelChange :: time
  mc_cancelled :: bool
  mc_throttleMap :: "string \<Rightarrow> throttle_state option"

datatype mem_effect = StartGC string | RunGC | FreeOSMemory | SleepFor duration
  | StartCallback nat memory_stats

definition zero_stats :: memory_stats where
  "zero_stats = \<lparr>ms_Alloc = 0, ms_TotalAlloc = 0, ms_Sys = 0, ms_NumGC = 0, ms_HeapAlloc = 0,
     ms_HeapSys = 0, ms_HeapInuse = 0, ms_StackInuse = 0, ms_UsagePercent = Fin 0,
     ms_Level = MemoryNormal, ms_Timestamp = zero_time\<rparr>"

definition default_max_memory :: "runtime_mem \<Rightarrow> int" where
  "default_max_memory rt =
     (let systemMem = rt_Sys rt div 1024 div 1024;
          m = f_to_i64 (f_mul (f64_of_int systemMem) (Fin (3 / 4)))
      in if m < 512 then 512 else m)"

definition new_controller :: "int \<Rightarrow> runtime_mem \<Rightarrow> time \<Rightarrow> time \<Rightarrow> controller" where
  "new_controller maxMemoryMB rt now now' =
     (let m = (if maxMemoryMB = 0 then default_max_memory rt else maxMemoryMB)
      in \<lparr>mc_config = \<lparr>th_MaxMemoryMB = m, th_WarningPercent = Fin 60, th_CriticalPercent = Fin 75,
            th_EmergencyPercent = Fin 85, th_CheckInterval = 2 * second, th_GCTriggerPercent = Fin 70\<rparr>,
          mc_currentLevel = MemoryNormal, mc_stats = zero_stats, mc_callbacks = (\<lambda>_. []),
          mc_gcInProgress = False, mc_lastGC = now, mc_lastLevelChange = now', mc_cancelled = False,
          mc_throttleMap = (\<lambda>_. None)\<rparr>)"

definition determine_level :: "threshold_config \<Rightarrow> f64 \<Rightarrow> memory_level" where
  "determine_level config usagePercent =
     (if f_ge usagePercent (th_EmergencyPercent config) then MemoryEmergency
      else if f_ge usagePercent (th_CriticalPercent config) then MemoryCritical
      else if f_ge usagePercent (th_WarningPercent config) then MemoryWarning
      else MemoryNormal)"

definition usage_percent :: "threshold_config \<Rightarrow> runtime_mem \<Rightarrow> f64" where
  "usage_percent config rt = (let allocMB = rt_Alloc rt div 1024 div 1024
     in percent allocMB (th_MaxMemoryMB config))"

definition update_stats :: "runtime_mem \<Rightarrow> time \<Rightarrow> controller \<Rightarrow> controller" where
  "update_stats rt now mc =
     (let usagePercent = usage_percent (mc_config mc) rt
      in mc\<lparr>mc_stats := \<lparr>ms_Alloc = rt_Alloc rt, ms_TotalAlloc = rt_TotalAlloc rt, ms_Sys = rt_Sys rt,
           ms_NumGC = rt_NumGC rt, ms_HeapAlloc = rt_HeapAlloc rt, ms_HeapSys = rt_HeapSys rt,
           ms_HeapInuse = rt_HeapInuse rt, ms_StackInuse = rt_StackInuse rt,
           ms_UsagePercent = usagePercent, ms_Level = determine_level (mc_config mc) usagePercent,
           ms_Timestamp = now\<rparr>\<rparr>)"

definition notify_callbacks :: "memory_level \<Rightarrow> memory_stats \<Rightarrow> controller \<Rightarrow> mem_effect list" where
  "notify_callbacks level stats mc = map (\<lambda>cb. StartCallback cb stats) (mc_callbacks mc level)"

definition on_level_change ::
    "memory_level \<Rightarrow> memory_stats \<Rightarrow> time \<Rightarrow> controller \<Rightarrow> mem_effect list \<times> controller" where
  "on_level_change new stats now mc =
     (let mc' = mc\<lparr>mc_currentLevel := new, mc_lastLevelChange := now\<rparr>
      in (notify_callbacks new stats mc', mc'))"

definition should_trigger_gc :: "memory_stats \<Rightarrow> time \<Rightarrow> controller \<Rightarrow> bool" where
  "should_trigger_gc stats now mc =
     (if mc_gcInProgress mc then False
      else if since now (mc_lastGC mc) < 5 * second then False
      else f_ge (ms_UsagePercent stats) (th_GCTriggerPercent (mc_config mc)))"

definition trigger_gc :: "string \<Rightarrow> time \<Rightarrow> controller \<Rightarrow> mem_effect list \<times> controller" where
  "trigger_gc reason now mc =
     (if mc_gcInProgress mc then ([], mc)
      else ([StartGC reason], mc\<lparr>mc_gcInProgress := True, mc_lastGC := now\<rparr>))"

text \<open>The deferred end of the goroutine \<open>triggerGC\<close> starts.\<close>

definition gc_done :: "controller \<Rightarrow> controller" where
  "gc_done mc = mc\<lparr>mc_gcInProgress := False\<rparr>"

definition handle_warning ::
    "memory_stats \<Rightarrow> time \<Rightarrow> time \<Rightarrow> controller \<Rightarrow> mem_effect list \<times> controller" where
  "handle_warning stats now now' mc =
     (if should_trigger_gc stats now mc then trigger_gc ''warning level'' now' mc else ([], mc))"

definition handle_critical :: "time \<Rightarrow> controller \<Rightarrow> mem_effect list \<times> controller" where
  "handle_critical now mc =
     (let (es, mc') = trigger_gc ''critical level'' now mc in (es @ [FreeOSMemory], mc'))"

definition handle_emergency :: "time \<Rightarrow> controller \<Rightarrow> mem_effect list \<times> controller" where
  "handle_emergency now mc =
     (let (es, mc') = trigger_gc ''emergency level'' now mc
      in (es @ [FreeOSMemory, RunGC, SleepFor (100 * millisecond), FreeOSMemory], mc'))"

text \<open>\<open>t1\<close> is the clock of \<open>onLevelChange\<close>, \<open>t2\<close> of \<open>shouldTriggerGC\<close>, \<open>t3\<close> of \<open>triggerGC\<close>.\<close>

definition check_and_act ::
    "time \<Rightarrow> time \<Rightarrow> time \<Rightarrow> controller \<Rightarrow> mem_effect list \<times> controller" where
  "check_and_act t1 t2 t3 mc =
     (let stats = mc_stats mc; oldLevel = mc_currentLevel mc; newLevel = ms_Level stats;
          (es1, mc1) = (if newLevel \<noteq> oldLevel then on_level_change newLevel stats t1 mc else ([], mc));
          (es2, mc2) = (case newLevel of
              MemoryWarning \<Rightarrow> handle_warning stats t2 t3 mc1
            | MemoryCritical \<Rightarrow> handle_critical t3 mc1
            | MemoryEmergency \<Rightarrow> handle_emergency t3 mc1
            | MemoryNormal \<Rightarrow> ([], mc1))
      in (es1 @ es2, mc2))"

text \<open>One round of \<open>monitorLoop\<close>; once the context is cancelled the loop ends.\<close>

definition monitor_tick ::
    "runtime_mem \<Rightarrow> time \<Rightarrow> time \<Rightarrow> time \<Rightarrow> time \<Rightarrow> controller \<Rightarrow> mem_effect list \<times> controller" where
  "monitor_tick rt t0 t1 t2 t3 mc =
     (if mc_cancelled mc then ([], mc) else check_and_act t1 t2 t3 (update_stats rt t0 mc))"

definition stop :: "controller \<Rightarrow> controller" where
  "stop mc = mc\<lparr>mc_cancelled := True\<rparr>"

definition should_throttle :: "controller \<Rightarrow> bool" where
  "should_throttle mc \<longleftrightarrow> MemoryCritical \<le> mc_currentLevel mc"

definition should_pause :: "controller \<Rightarrow> bool" where
  "should_pause mc \<longleftrightarrow> MemoryEmergency \<le> mc_currentLevel mc"

definition get_throttle_delay ::
    "string \<Rightarrow> time \<Rightarrow> time \<Rightarrow> controller \<Rightarrow> duration \<times> controller" where
  "get_throttle_delay cam now now' mc =
     (let st = (case mc_throttleMap mc cam of
                  Some st \<Rightarrow> st
                | None \<Rightarrow> \<lparr>ts_CurrentDelay = 0, ts_LastUpdate = now, ts_Paused = False\<rparr>);
          st1 = (case mc_currentLevel mc of
              MemoryNormal \<Rightarrow> st\<lparr>ts_CurrentDelay := 0, ts_Paused := False\<rparr>
            | MemoryWarning \<Rightarrow> st\<lparr>ts_CurrentDelay := 100 * millisecond, ts_Paused := False\<rparr>
            | MemoryCritical \<Rightarrow> st\<lparr>ts_CurrentDelay := 500 * millisecond, ts_Paused := False\<rparr>
            | MemoryEmergency \<Rightarrow> st\<lparr>ts_CurrentDelay := 2 * second, ts_Paused := True\<rparr>);
          st2 = st1\<lparr>ts_LastUpdate := now'\<rparr>
      in (ts_CurrentDelay st2, mc\<lparr>mc_throttleMap := (mc_throttleMap mc)(cam := Some st2)\<rparr>))"

definition register_callback :: "memory_level \<Rightarrow> nat \<Rightarrow> controller \<Rightarrow> controller" where
  "register_callback level cb mc =
     mc\<lparr>mc_callbacks := (mc_callbacks mc)(level := mc_callbacks mc level @ [cb])\<rparr>"

definition force_gc :: "time \<Rightarrow> controller \<Rightarrow> mem_effect list \<times> controller" where
  "force_gc now mc = trigger_gc ''manual trigger'' now mc"

definition update_config :: "threshold_config \<Rightarrow> controller \<Rightarrow> controller" where
  "update_config config mc = mc\<lparr>mc_config := config\<rparr>"

subsection \<open>Levels\<close>

interpretation mc_levels: level_classifier determine_level th_WarningPercent th_CriticalPercent
  th_EmergencyPercent
  by unfold_locales (simp_all add: determine_level_def)

lemmas gc_defs = trigger_gc_def handle_warning_def handle_critical_def handle_emergency_def Let_def

lemma handlers_level [simp]:
  "mc_currentLevel (snd (trigger_gc r t mc)) = mc_currentLevel mc"
  "mc_currentLevel (snd (handle_warning s t t' mc)) = mc_currentLevel mc"
  "mc_currentLevel (snd (handle_critical t mc)) = mc_currentLevel mc"
  "mc_currentLevel (snd (handle_emergency t mc)) = mc_currentLevel mc"
  by (simp_all add: gc_defs)

lemma check_and_act_level:
  "mc_currentLevel (snd (check_and_act t1 t2 t3 mc)) = ms_Level (mc_stats mc)"
  by (cases "ms_Level (mc_stats mc)")
    (auto simp: check_and_act_def on_level_change_def Let_def split_beta)

lemma tick_level:
  "\<not> mc_cancelled mc \<Longrightarrow> mc_currentLevel (snd (monitor_tick rt t0 t1 t2 t3 mc))
     = determine_level (mc_config mc) (usage_percent (mc_config mc) rt)"
  by (simp add: monitor_tick_def check_and_act_level update_stats_def Let_def)

lemma usage_mono:
  assumes "0 \<le> rt_Alloc rt" and "rt_Alloc rt \<le> rt_Alloc rt'" and "rt_Alloc rt' < 2 ^ 64"
    and "0 < th_MaxMemoryMB c" and "th_MaxMemoryMB c < 2 ^ 64"
  shows "f_le (usage_percent c rt) (usage_percent c rt')"
proof -
  have "rt_Alloc rt' div 1024 div 1024 \<le> rt_Alloc rt'" using assms by simp
  then show ?thesis
    using assms unfolding usage_percent_def Let_def
    by (intro percent_mono) (auto intro: zdiv_mono1)
qed

text \<open>A round of the monitor sets the level the sampled usage has under the thresholds, and the
  level is monotone: a round that samples more allocated memory never ends on a lower level and
  never lifts the throttling or the pause that a smaller sample would have caused.\<close>

theorem tick_level_monotone:
  assumes "\<not> mc_cancelled mc" and "0 \<le> rt_Alloc rt" and "rt_Alloc rt \<le> rt_Alloc rt'"
    and "rt_Alloc rt' < 2 ^ 64" and "0 < th_MaxMemoryMB (mc_config mc)" and "th_MaxMemoryMB (mc_config mc) < 2 ^ 64"
  shows "let mc1 = snd (monitor_tick rt t0 t1 t2 t3 mc); mc2 = snd (monitor_tick rt' t0' t1' t2' t3' mc)
    in mc_currentLevel mc1 = determine_level (mc_config mc) (usage_percent (mc_config mc) rt)
      \<and> mc_currentLevel mc1 \<le> mc_currentLevel mc2
      \<and> (should_throttle mc1 \<longrightarrow> should_throttle mc2) \<and> (should_pause mc1 \<longrightarrow> should_pause mc2)"
proof -
  have le: "determine_level (mc_config mc) (usage_percent (mc_config mc) rt)
      \<le> determine_level (mc_config mc) (usage_percent (mc_config mc) rt')"
    using usage_mono [OF assms(2-6)] by (rule mc_levels.classify_mono)
  show ?thesis
    using le assms(1) order_trans [OF _ le]
    unfolding should_throttle_def should_pause_def Let_def tick_level [OF assms(1)] by blast
qed

definition sample :: "int \<Rightarrow> runtime_mem" where
  "sample mb = \<lparr>rt_Alloc = mb * 1024 * 1024, rt_TotalAlloc = 0, rt_Sys = 0, rt_NumGC = 0,
     rt_HeapAlloc = 0, rt_HeapSys = 0, rt_HeapInuse = 0, rt_StackInuse = 0\<rparr>"

definition demo_controller :: controller where
  "demo_controller = new_controller 1024 (sample 0) 0 0"

lemma sample_alloc [simp]: "rt_Alloc (sample mb) = mb * 1024 * 1024"
  by (simp add: sample_def)

lemma demo_controller_facts [simp]:
  "\<not> mc_cancelled demo_controller" "th_MaxMemoryMB (mc_config demo_controller) = 1024"
  by (simp_all add: demo_controller_def new_controller_def Let_def)

theorem tick_level_monotone_witness:
  "mc_currentLevel (snd (monitor_tick (sample 700) 1 1 1 1 demo_controller))
    \<le> mc_currentLevel (snd (monitor_tick (sample 900) 2 2 2 2 demo_controller))"
  using tick_level_monotone [of demo_controller "sample 700" "sample 900" 1 1 1 1 2 2 2 2]
  unfolding Let_def by auto

subsection \<open>A level change and its callbacks\<close>

definition notified :: "mem_effect list \<Rightarrow> nat list" where
  "notified es = concat (map (\<lambda>e. case e of StartCallback cb _ \<Rightarrow> [cb] | _ \<Rightarrow> []) es)"

definition started_gcs :: "mem_effect list \<Rightarrow> nat" where
  "started_gcs es = length (filter (\<lambda>e. case e of StartGC _ \<Rightarrow> True | _ \<Rightarrow> False) es)"

lemma effect_counts [simp]:
  "notified [] = []" "notified (es @ es') = notified es @ notified es'"
  "notified (StartGC r # es) = notified es" "notified (RunGC # es) = notified es"
  "notified (FreeOSMemory # es) = notified es" "notified (SleepFor d # es) = notified es"
  "started_gcs [] = 0" "started_gcs (es @ es') = started_gcs es + started_gcs es'"
  "started_gcs (StartGC r # es) = Suc (started_gcs es)" "started_gcs (RunGC # es) = started_gcs es"
  "started_gcs (FreeOSMemory # es) = started_gcs es" "started_gcs (SleepFor d # es) = started_gcs es"
  by (simp_all add: notified_def started_gcs_def)

lemma effect_counts_notify [simp]:
  "notified (notify_callbacks l s mc) = mc_callbacks mc l" "started_gcs (notify_callbacks l s mc) = 0"
  by (simp_all add: notify_callbacks_def notified_def started_gcs_def comp_def)

text \<open>The callbacks of a level run exactly when a round changes the level to it, each once and in
  the order they were registered; a round that keeps the level runs none and leaves the time of
  the last change alone.\<close>

theorem callbacks_on_change:
  assumes "\<not> mc_cancelled mc"
  shows "let (es, mc') = monitor_tick rt t0 t1 t2 t3 mc; new = mc_currentLevel mc'
    in notified es = (if new = mc_currentLevel mc then [] else mc_callbacks mc new)
      \<and> mc_lastLevelChange mc' = (if new = mc_currentLevel mc then mc_lastLevelChange mc else t1)"
proof -
  let ?u = "update_stats rt t0 mc"
  have u: "mc_currentLevel ?u = mc_currentLevel mc" "mc_callbacks ?u = mc_callbacks mc"
    "mc_lastLevelChange ?u = mc_lastLevelChange mc"
    by (simp_all add: update_stats_def Let_def)
  have "monitor_tick rt t0 t1 t2 t3 mc = check_and_act t1 t2 t3 ?u"
    using assms by (simp add: monitor_tick_def)
  moreover have "mc_currentLevel (snd (check_and_act t1 t2 t3 ?u)) = ms_Level (mc_stats ?u)"
    by (rule check_and_act_level)
  moreover have "notified (fst (check_and_act t1 t2 t3 ?u)) =
      (if ms_Level (mc_stats ?u) = mc_currentLevel ?u then [] else mc_callbacks ?u (ms_Level (mc_stats ?u)))
    \<and> mc_lastLevelChange (snd (check_and_act t1 t2 t3 ?u)) =
      (if ms_Level (mc_stats ?u) = mc_currentLevel ?u then mc_lastLevelChange ?u else t1)"
    by (cases "ms_Level (mc_stats ?u)")
      (simp_all add: check_and_act_def on_level_change_def gc_defs split_beta)
  ultimately show ?thesis by (simp add: split_beta u Let_def)
qed

theorem callbacks_on_change_witness:
  "notified (fst (monitor_tick (sample 900) 1 1 1 1 (register_callback MemoryEmergency 7 demo_controller))) = [7]"
proof -
  let ?mc = "register_callback MemoryEmergency 7 demo_controller"
  have "percent 900 1024 = Fin (rnd (rnd (rnd 900 / rnd 1024) * 100))"
    using percent_finite [of 900 1024] by simp
  also have "\<dots> = Fin (5625 / 64)"
  proof -
    have "rnd (225 / 256) = 225 / 256" "rnd (5625 / 64) = 5625 / 64"
      using rnd_dyadic [of 225 8] rnd_dyadic [of 5625 6] by simp_all
    then show ?thesis
      using rnd_of_int [of 900] rnd_of_int [of 1024]
      by (simp del: eq_divide_eq_numeral1 divide_eq_eq_numeral1)
  qed
  finally have "mc_currentLevel (snd (monitor_tick (sample 900) 1 1 1 1 ?mc)) = MemoryEmergency"
    by (subst tick_level) (simp_all add: register_callback_def demo_controller_def new_controller_def
        sample_def usage_percent_def determine_level_def Let_def)
  then show ?thesis
    using callbacks_on_change [of ?mc "sample 900" 1 1 1 1]
    by (simp add: register_callback_def demo_controller_def new_controller_def split_beta Let_def)
qed

subsection \<open>Background collections\<close>

text \<open>
  The controller and the number of collecting goroutines.  The end of a goroutine can come between
  any two operations.
\<close>

datatype mem_op = Tick runtime_mem time time time time | ForceGC time | GcDone
  | ThrottleDelay string time time | OnLevel memory_level nat | SetConfig threshold_config | Stop

fun mem_step :: "controller \<times> nat \<Rightarrow> mem_op \<Rightarrow> mem_effect list \<times> (controller \<times> nat)" where
  "mem_step (mc, n) (Tick rt t0 t1 t2 t3) =
     (let (es, mc') = monitor_tick rt t0 t1 t2 t3 mc in (es, mc', n + started_gcs es))"
| "mem_step (mc, n) (ForceGC t) = (let (es, mc') = force_gc t mc in (es, mc', n + started_gcs es))"
| "mem_step (mc, n) GcDone = ([], if 0 < n then (gc_done mc, n - 1) else (mc, n))"
| "mem_step (mc, n) (ThrottleDelay cam t t') = ([], snd (get_throttle_delay cam t t' mc), n)"
| "mem_step (mc, n) (OnLevel l cb) = ([], register_callback l cb mc, n)"
| "mem_step (mc, n) (SetConfig c) = ([], update_config c mc, n)"
| "mem_step (mc, n) Stop = ([], stop mc, n)"

definition single_gc :: "controller \<times> nat \<Rightarrow> bool" where
  "single_gc s \<longleftrightarrow> snd s = (if mc_gcInProgress (fst s) then 1 else 0)"

lemma trigger_gc_single:
  "started_gcs (fst (trigger_gc r t mc)) = (if mc_gcInProgress mc then 0 else 1)"
  "mc_gcInProgress (snd (trigger_gc r t mc))"
  by (simp_all add: trigger_gc_def)

lemma check_and_act_single:
  "single_gc (mc, n) \<Longrightarrow> single_gc (snd (check_and_act t1 t2 t3 mc), n + started_gcs (fst (check_and_act t1 t2 t3 mc)))"
  by (cases "ms_Level (mc_stats mc)")
    (auto simp: single_gc_def check_and_act_def on_level_change_def gc_defs split_beta)

lemma tick_single:
  assumes "single_gc (mc, n)"
  shows "single_gc (snd (monitor_tick rt t0 t1 t2 t3 mc), n + started_gcs (fst (monitor_tick rt t0 t1 t2 t3 mc)))"
proof -
  have "single_gc (update_stats rt t0 mc, n)"
    using assms by (simp add: single_gc_def update_stats_def Let_def)
  then show ?thesis using assms check_and_act_single by (simp add: monitor_tick_def)
qed

lemma force_single:
  "single_gc (mc, n) \<Longrightarrow> single_gc (snd (force_gc t mc), n + started_gcs (fst (force_gc t mc)))"
  by (simp add: single_gc_def force_gc_def trigger_gc_single)

interpretation mem: preserved mem_step single_gc
proof
  fix s :: "controller \<times> nat" and e
  assume inv: "single_gc s"
  obtain mc n where s: "s = (mc, n)" by (cases s)
  show "single_gc (snd (mem_step s e))"
  proof (cases e)
    case (Tick rt t0 t1 t2 t3)
    then show ?thesis using inv s tick_single by (simp add: split_beta)
  next
    case (ForceGC t)
    then show ?thesis using inv s force_single by (simp add: split_beta)
  next
    case GcDone
    then show ?thesis using inv s by (auto simp: single_gc_def gc_done_def split: if_splits)
  qed (use inv s in \<open>simp_all add: single_gc_def get_throttle_delay_def register_callback_def
      update_config_def stop_def Let_def\<close>)
qed

text \<open>C20: At most one background collection is in flight, and the flag tells whether it is: no
  sequence of rounds, forced collections, configuration changes and ends of collections starts a
  second one while one runs.\<close>

theorem one_collection_in_flight:
  "let (mc, n) = final mem_step (new_controller m rt t t', 0) es
   in n \<le> 1 \<and> (mc_gcInProgress mc \<longleftrightarrow> n = 1)"
proof -
  have "single_gc (new_controller m rt t t', 0)" by (simp add: single_gc_def new_controller_def Let_def)
  then have "single_gc (final mem_step (new_controller m rt t t', 0) es)" by (rule mem.inv_final)
  then show ?thesis by (auto simp: single_gc_def split: prod.splits if_splits)
qed

text \<open>
  The debounce of five seconds guards only the warning level: at the critical and the emergency
  level every round collects again as soon as the previous collection has ended.
\<close>

lemma warning_gc_debounced:
  assumes "started_gcs (fst (handle_warning stats now now' mc)) = 1"
  shows "5 * second \<le> since now (mc_lastGC mc) \<and> f_ge (ms_UsagePercent stats) (th_GCTriggerPercent (mc_config mc))"
  using assms by (auto simp: gc_defs should_trigger_gc_def not_less split: if_splits)

lemma critical_gc_not_debounced:
  assumes "\<not> mc_gcInProgress mc"
  shows "started_gcs (fst (handle_critical now mc)) = 1"
  using assms by (simp add: gc_defs)

subsection \<open>Throttling\<close>

text \<open>The delay a camera is told is a function of the level alone, grows with it, is zero exactly
  at the normal level, and the camera is marked paused exactly when the controller says to pause.\<close>

theorem throttle_delay_by_level:
  "let (d, mc') = get_throttle_delay cam t t' mc; l = mc_currentLevel mc
   in d = [0, 100 * millisecond, 500 * millisecond, 2 * second] ! nat (level_value l)
      \<and> (d = 0 \<longleftrightarrow> l = MemoryNormal)
      \<and> (\<exists>st. mc_throttleMap mc' cam = Some st \<and> ts_CurrentDelay st = d
            \<and> ts_Paused st = should_pause mc \<and> ts_LastUpdate st = t')
      \<and> mc' = mc\<lparr>mc_throttleMap := mc_throttleMap mc'\<rparr>"
  by (cases "mc_currentLevel mc")
    (simp_all add: get_throttle_delay_def should_pause_def level_value_def Let_def)

end
