(* ===== verification/MemControlV2.thy ===== *)
theory MemControlV2
  imports MemLevel
begin

section \<open>The memory controller of v2\<close>

text \<open>
  \<open>v2/src/memory_controller.go\<close>.  Unlike the controller of \<open>pkg/memcontrol\<close> it collects in place,
  in the goroutine that calls: a collection is a first critical section (\<open>gc_begin\<close>), the
  collection itself, and a second critical section (\<open>gc_end\<close>).  What \<open>runtime.ReadMemStats\<close>
  returned (allocated, total, system bytes and the number of collections) and the readings of the
  clock are arguments.
\<close>

record memory_controller_config =
  m2_Enabled :: bool
  m2_MaxMemoryMB :: int
  m2_WarningPercent :: f64
  m2_CriticalPercent :: f64
  m2_EmergencyPercent :: f64
  m2_CheckInterval :: duration
  m2_GCTriggerPercent :: f64

record memory_stats2 =
  s2_AllocMB :: int
  s2_TotalAllocMB :: int
  s2_SysMB :: int
  s2_NumGC :: int
  s2_Level :: memory_level
  s2_UsagePercent :: f64
  s2_Timestamp :: time

record throttle_state2 =
  t2_CameraID :: string
  t2_DelayMs :: int
  t2_LastThrottle :: time

record memory_controller =
  mm_config :: memory_controller_config
  mm_currentLevel :: memory_level
  mm_stats :: memory_stats2
  mm_callbacks :: "memory_level \<Rightarrow> nat list"
  mm_gcInProgress :: bool
  mm_lastGC :: time
  mm_throttleMap :: "string \<Rightarrow> throttle_state2 option"
  mm_cancelled :: bool

record mem_sample =
  sa_Alloc :: int
  sa_TotalAlloc :: int
  sa_Sys :: int
  sa_NumGC :: int

definition new_memory_controller :: "memory_controller_config \<Rightarrow> time \<Rightarrow> memory_controller" where
  "new_memory_controller config now = \<lparr>mm_config = config, mm_currentLevel = MemoryNormal,
     mm_stats = \<lparr>s2_AllocMB = 0, s2_TotalAllocMB = 0, s2_SysMB = 0, s2_NumGC = 0,
       s2_Level = MemoryNormal, s2_UsagePercent = Fin 0, s2_Timestamp = zero_time\<rparr>,
     mm_callbacks = (\<lambda>_. []), mm_gcInProgress = False, mm_lastGC = now,
     mm_throttleMap = (\<lambda>_. None), mm_cancelled = False\<rparr>"

definition calculate_level :: "memory_controller_config \<Rightarrow> f64 \<Rightarrow> memory_level" where
  "calculate_level config usagePercent =
     (if f_ge usagePercent (m2_EmergencyPercent config) then MemoryEmergency
      else if f_ge usagePercent (m2_CriticalPercent config) then MemoryCritical
      else if f_ge usagePercent (m2_WarningPercent config) then MemoryWarning
      else MemoryNormal)"

text \<open>The locked part of \<open>checkMemory\<close>; it returns the old and the new level.\<close>

definition sample_level ::
    "mem_sample \<Rightarrow> time \<Rightarrow> memory_controller \<Rightarrow> memory_level \<times> memory_level \<times> memory_controller" where
  "sample_level sa now mc =
     (let allocMB = sa_Alloc sa div 1024 div 1024;
          usage = (if 0 < m2_MaxMemoryMB (mm_config mc)
                   then percent allocMB (m2_MaxMemoryMB (mm_config mc)) else Fin 0);
          oldLevel = mm_currentLevel mc;
          newLevel = calculate_level (mm_config mc) usage
      in (oldLevel, newLevel,
          mc\<lparr>mm_stats := \<lparr>s2_AllocMB = allocMB, s2_TotalAllocMB = sa_TotalAlloc sa div 1024 div 1024,
               s2_SysMB = sa_Sys sa div 1024 div 1024, s2_NumGC = sa_NumGC sa, s2_Level = newLevel,
               s2_UsagePercent = usage, s2_Timestamp = now\<rparr>,
             mm_currentLevel := newLevel\<rparr>))"

definition should_trigger_gc2 :: "time \<Rightarrow> memory_controller \<Rightarrow> bool" where
  "should_trigger_gc2 now mc =
     (if mm_gcInProgress mc then False
      else if since now (mm_lastGC mc) < 5 * second then False
      else f_ge (s2_UsagePercent (mm_stats mc)) (m2_GCTriggerPercent (mm_config mc)))"

definition gc_begin :: "memory_controller \<Rightarrow> memory_controller" where
  "gc_begin mc = mc\<lparr>mm_gcInProgress := True\<rparr>"

definition gc_end :: "time \<Rightarrow> memory_controller \<Rightarrow> memory_controller" where
  "gc_end now mc = mc\<lparr>mm_gcInProgress := False, mm_lastGC := now\<rparr>"

definition trigger_gc2 :: "time \<Rightarrow> memory_controller \<Rightarrow> memory_controller" where
  "trigger_gc2 now mc = gc_end now (gc_begin mc)"

definition execute_callbacks :: "memory_level \<Rightarrow> memory_stats2 \<Rightarrow> memory_controller \<Rightarrow> (nat \<times> memory_stats2) list" where
  "execute_callbacks level stats mc = map (\<lambda>cb. (cb, stats)) (mm_callbacks mc level)"

text \<open>
  \<open>checkMemory\<close>: \<open>now\<close>, \<open>t1\<close> and \<open>t2\<close> are the clocks of the sample, of \<open>shouldTriggerGC\<close> and of the
  end of the collection.  It returns whether it collected and the callbacks it started.
\<close>

definition check_memory ::
    "mem_sample \<Rightarrow> time \<Rightarrow> time \<Rightarrow> time \<Rightarrow> memory_controller
      \<Rightarrow> (bool \<times> (nat \<times> memory_stats2) list) \<times> memory_controller" where
  "check_memory sa now t1 t2 mc =
     (let (oldLevel, newLevel, mc1) = sample_level sa now mc;
          collect = should_trigger_gc2 t1 mc1;
          mc2 = (if collect then trigger_gc2 t2 mc1 else mc1)
      in ((collect, if oldLevel \<noteq> newLevel then execute_callbacks newLevel (mm_stats mc2) mc2 else []), mc2))"

definition stop2 :: "memory_controller \<Rightarrow> memory_controller" where
  "stop2 mc = mc\<lparr>mm_cancelled := True\<rparr>"

definition should_throttle2 :: "memory_controller \<Rightarrow> bool \<times> int" where
  "should_throttle2 mc = (case mm_currentLevel mc of
     MemoryNormal \<Rightarrow> (False, 0) | MemoryWarning \<Rightarrow> (True, 100)
   | MemoryCritical \<Rightarrow> (True, 500) | MemoryEmergency \<Rightarrow> (True, 2000))"

text \<open>The result is the time the caller sleeps, \<open>None\<close> when it is not throttled.\<close>

definition apply_throttle :: "string \<Rightarrow> time \<Rightarrow> memory_controller \<Rightarrow> duration option \<times> memory_controller" where
  "apply_throttle cam now mc =
     (let (throttle, delayMs) = should_throttle2 mc in
      if \<not> throttle then (None, mc)
      else (Some (delayMs * millisecond), mc\<lparr>mm_throttleMap := (mm_throttleMap mc)(cam :=
        Some \<lparr>t2_CameraID = cam, t2_DelayMs = delayMs, t2_LastThrottle = now\<rparr>)\<rparr>))"

definition register_callback2 :: "memory_level \<Rightarrow> nat \<Rightarrow> memory_controller \<Rightarrow> memory_controller" where
  "register_callback2 level cb mc =
     mc\<lparr>mm_callbacks := (mm_callbacks mc)(level := mm_callbacks mc level @ [cb])\<rparr>"

definition force_gc2 :: "time \<Rightarrow> memory_controller \<Rightarrow> memory_controller" where
  "force_gc2 now mc = trigger_gc2 now mc"

definition validate_memory_config :: "memory_controller_config \<Rightarrow> goerr option" where
  "validate_memory_config config =
     (if \<not> m2_Enabled config then None
      else if m2_MaxMemoryMB config = 0 then Some (errorf ''max_memory_mb deve ser > 0'')
      else if f_le (m2_WarningPercent config) (Fin 0) \<or> f_ge (m2_WarningPercent config) (Fin 100)
        then Some (errorf ''warning_percent deve estar entre 0 e 100'')
      else if f_le (m2_CriticalPercent config) (m2_WarningPercent config) \<or> f_ge (m2_CriticalPercent config) (Fin 100)
        then Some (errorf ''critical_percent deve ser > warning_percent e < 100'')
      else if f_le (m2_EmergencyPercent config) (m2_CriticalPercent config) \<or> f_ge (m2_EmergencyPercent config) (Fin 100)
        then Some (errorf ''emergency_percent deve ser > critical_percent e < 100'')
      else if m2_CheckInterval config \<le> 0 then Some (errorf ''check_interval deve ser > 0'')
      else if f_le (m2_GCTriggerPercent config) (Fin 0) \<or> f_ge (m2_GCTriggerPercent config) (Fin 100)
        then Some (errorf ''gc_trigger_percent deve estar entre 0 e 100'')
      else None)"

subsection \<open>Levels of a validated configuration\<close>

interpretation mm_levels: level_classifier calculate_level m2_WarningPercent m2_CriticalPercent
  m2_EmergencyPercent
  by unfold_locales (simp_all add: calculate_level_def)

lemma validated_thresholds:
  assumes "validate_memory_config c = None" and "m2_Enabled c"
    and "NaN \<notin> {m2_WarningPercent c, m2_CriticalPercent c, m2_EmergencyPercent c}"
  shows "f_lt (Fin 0) (m2_WarningPercent c)" "f_lt (m2_WarningPercent c) (m2_CriticalPercent c)"
    "f_lt (m2_CriticalPercent c) (m2_EmergencyPercent c)" "f_lt (m2_EmergencyPercent c) (Fin 100)"
    "m2_MaxMemoryMB c \<noteq> 0"
  using assms by (auto simp: validate_memory_config_def f_lt_not_le split: if_splits)

lemma check_level:
  "mm_currentLevel (snd (check_memory sa now t1 t2 mc)) = calculate_level (mm_config mc)
     (if 0 < m2_MaxMemoryMB (mm_config mc)
      then percent (sa_Alloc sa div 1024 div 1024) (m2_MaxMemoryMB (mm_config mc)) else Fin 0)"
  by (simp add: check_memory_def sample_level_def trigger_gc2_def gc_begin_def gc_end_def Let_def)

text \<open>With a configuration that passes validation (its thresholds being numbers) a check puts the
  controller into one of four levels that partition the usage: below the warning threshold, from
  it to the critical one, from there to the emergency one, and above; all four intervals are
  non-empty and lie strictly between 0 and 100 percent.\<close>

theorem validated_levels_partition:
  assumes "validate_memory_config (mm_config mc) = None" and "m2_Enabled (mm_config mc)"
    and "NaN \<notin> {m2_WarningPercent (mm_config mc), m2_CriticalPercent (mm_config mc), m2_EmergencyPercent (mm_config mc)}"
    and "0 \<le> sa_Alloc sa" and "sa_Alloc sa < 2 ^ 64"
    and "0 \<le> m2_MaxMemoryMB (mm_config mc)" and "m2_MaxMemoryMB (mm_config mc) < 2 ^ 64"
  shows "let c = mm_config mc; u = percent (sa_Alloc sa div 1024 div 1024) (m2_MaxMemoryMB c)
    in mm_currentLevel (snd (check_memory sa now t1 t2 mc)) =
        (if f_lt u (m2_WarningPercent c) then MemoryNormal
         else if f_lt u (m2_CriticalPercent c) then MemoryWarning
         else if f_lt u (m2_EmergencyPercent c) then MemoryCritical
         else MemoryEmergency)
      \<and> f_lt (Fin 0) (m2_WarningPercent c) \<and> f_lt (m2_WarningPercent c) (m2_CriticalPercent c)
      \<and> f_lt (m2_CriticalPercent c) (m2_EmergencyPercent c) \<and> f_lt (m2_EmergencyPercent c) (Fin 100)"
proof -
  note th = validated_thresholds [OF assms(1-3)]
  have pos: "0 < m2_MaxMemoryMB (mm_config mc)" using th(5) assms(6) by simp
  have "sa_Alloc sa div 1024 div 1024 \<le> sa_Alloc sa" "0 \<le> sa_Alloc sa div 1024 div 1024"
    using assms(4) by simp_all
  then have "percent (sa_Alloc sa div 1024 div 1024) (m2_MaxMemoryMB (mm_config mc)) \<noteq> NaN"
    using assms(5,7) pos by (simp add: percent_finite)
  then show ?thesis
    using mm_levels.classify_interval [OF th(2,3)] th pos by (simp add: check_level Let_def)
qed

definition demo_config2 :: memory_controller_config where
  "demo_config2 = \<lparr>m2_Enabled = True, m2_MaxMemoryMB = 2048, m2_WarningPercent = Fin 60,
     m2_CriticalPercent = Fin 75, m2_EmergencyPercent = Fin 85, m2_CheckInterval = 5 * second,
     m2_GCTriggerPercent = Fin 70\<rparr>"

definition demo_sample :: "int \<Rightarrow> mem_sample" where
  "demo_sample mb = \<lparr>sa_Alloc = mb * 1048576, sa_TotalAlloc = 0, sa_Sys = 0, sa_NumGC = 0\<rparr>"

lemma percent_1600_2048: "percent 1600 2048 = Fin (625 / 8)"
proof -
  have "percent 1600 2048 = Fin (rnd (rnd (rnd 1600 / rnd 2048) * 100))"
    using percent_finite [of 1600 2048] by simp
  also have "\<dots> = Fin (625 / 8)"
  proof -
    have "rnd (25 / 32) = 25 / 32" "rnd (625 / 8) = 625 / 8"
      using rnd_dyadic [of 25 5] rnd_dyadic [of 625 3] by simp_all
    then show ?thesis using rnd_of_int [of 1600] rnd_of_int [of 2048] by (simp del: eq_divide_eq_numeral1 divide_eq_eq_numeral1)
  qed
  finally show ?thesis .
qed

theorem validated_levels_partition_witness:
  "mm_currentLevel (snd (check_memory (demo_sample 1600) 1 1 1 (new_memory_controller demo_config2 0))) = MemoryCritical"
  using validated_levels_partition [of "new_memory_controller demo_config2 0" "demo_sample 1600" 1 1 1]
  by (simp add: new_memory_controller_def demo_config2_def demo_sample_def percent_1600_2048
      validate_memory_config_def)

text \<open>
  Validation does not exclude thresholds that are not numbers: no comparison with such a threshold
  holds, so it passes every test, and the level it guards is never reached.
\<close>

lemma validation_accepts_nan:
  "validate_memory_config \<lparr>m2_Enabled = True, m2_MaxMemoryMB = 2048, m2_WarningPercent = NaN,
     m2_CriticalPercent = NaN, m2_EmergencyPercent = NaN, m2_CheckInterval = second,
     m2_GCTriggerPercent = NaN\<rparr> = None"
  by (simp add: validate_memory_config_def)

subsection \<open>Checks and their callbacks\<close>

lemma trigger_gc2_simps [simp]:
  "mm_config (trigger_gc2 t mc) = mm_config mc" "mm_currentLevel (trigger_gc2 t mc) = mm_currentLevel mc"
  "mm_stats (trigger_gc2 t mc) = mm_stats mc" "mm_callbacks (trigger_gc2 t mc) = mm_callbacks mc"
  "mm_gcInProgress (trigger_gc2 t mc) = False" "mm_lastGC (trigger_gc2 t mc) = t"
  by (simp_all add: trigger_gc2_def gc_begin_def gc_end_def)

lemma sample_level_simps:
  assumes "sample_level sa now mc = (old, new, mc')"
  shows "old = mm_currentLevel mc" "new = mm_currentLevel mc'" "s2_Level (mm_stats mc') = new"
    "mm_callbacks mc' = mm_callbacks mc" "mm_config mc' = mm_config mc"
    "mm_gcInProgress mc' = mm_gcInProgress mc" "mm_lastGC mc' = mm_lastGC mc"
  using assms by (auto simp: sample_level_def Let_def)

text \<open>A check that changes the level starts the callbacks of the new level, in the order of their
  registration and with the sample just taken; a check that keeps the level starts none.  A check
  collects only when no collection is flagged as running, the last one ended at least five seconds
  ago and the usage has reached the trigger, and it leaves the flag down when it collected.\<close>

theorem check_memory_effects:
  "let ((collected, cbs), mc') = check_memory sa now t1 t2 mc
   in cbs = (if mm_currentLevel mc' = mm_currentLevel mc then []
             else map (\<lambda>cb. (cb, mm_stats mc')) (mm_callbacks mc (mm_currentLevel mc')))
    \<and> s2_Level (mm_stats mc') = mm_currentLevel mc'
    \<and> (collected \<longleftrightarrow> \<not> mm_gcInProgress mc \<and> 5 * second \<le> since t1 (mm_lastGC mc)
          \<and> f_ge (s2_UsagePercent (mm_stats mc')) (m2_GCTriggerPercent (mm_config mc)))
    \<and> mm_lastGC mc' = (if collected then t2 else mm_lastGC mc)
    \<and> mm_gcInProgress mc' = (mm_gcInProgress mc \<and> \<not> collected)"
proof -
  obtain old new mc1 where s: "sample_level sa now mc = (old, new, mc1)" by (metis prod_cases3)
  note f = sample_level_simps [OF s]
  have c: "should_trigger_gc2 t1 mc1 \<longleftrightarrow> \<not> mm_gcInProgress mc \<and> 5 * second \<le> since t1 (mm_lastGC mc)
      \<and> f_ge (s2_UsagePercent (mm_stats mc1)) (m2_GCTriggerPercent (mm_config mc))"
    by (simp add: should_trigger_gc2_def f not_less)
  show ?thesis
    using f c by (cases "should_trigger_gc2 t1 mc1") (simp_all add: check_memory_def s execute_callbacks_def Let_def)
qed

text \<open>
  Collections are not exclusive: \<open>ForceGC\<close> does not look at the flag, so two goroutines can collect
  at once, and the first to end takes the flag down while the other is still collecting.
\<close>

lemma overlapping_collections:
  assumes "\<not> mm_gcInProgress mc"
  shows "\<not> mm_gcInProgress (gc_end t (gc_begin (gc_begin mc)))"
  by (simp add: gc_begin_def gc_end_def)

subsection \<open>Throttling\<close>

text \<open>Throttling follows the level: nothing at the normal level, and 100 ms, 500 ms and 2 s at the
  others, so a higher level never gives a shorter delay; a throttled camera is recorded with the
  delay it is given, an unthrottled one leaves the record as it was.\<close>

theorem throttle_monotone:
  assumes "mm_currentLevel mc \<le> mm_currentLevel mc'"
  shows "let (d, mc1) = apply_throttle cam now mc; (d', mc2) = apply_throttle cam now mc'
    in (case d of None \<Rightarrow> mm_currentLevel mc = MemoryNormal \<and> mc1 = mc
        | Some x \<Rightarrow> (case d' of None \<Rightarrow> False | Some y \<Rightarrow> x \<le> y)
            \<and> mm_throttleMap mc1 cam = Some \<lparr>t2_CameraID = cam, t2_DelayMs = x div millisecond, t2_LastThrottle = now\<rparr>)"
  using assms
  by (cases "mm_currentLevel mc"; cases "mm_currentLevel mc'")
    (simp_all add: apply_throttle_def should_throttle2_def less_eq_memory_level_def level_value_def)

theorem throttle_monotone_witness:
  "let mc = new_memory_controller demo_config2 0
   in the (fst (apply_throttle ''cam1'' 5 (mc\<lparr>mm_currentLevel := MemoryWarning\<rparr>)))
    \<le> the (fst (apply_throttle ''cam1'' 5 (mc\<lparr>mm_currentLevel := MemoryEmergency\<rparr>)))"
  using throttle_monotone [of "(new_memory_controller demo_config2 0)\<lparr>mm_currentLevel := MemoryWarning\<rparr>"
      "(new_memory_controller demo_config2 0)\<lparr>mm_currentLevel := MemoryEmergency\<rparr>" "''cam1''" 5]
  by (simp add: apply_throttle_def should_throttle2_def)

end
