(* ===== verification/JpegScan.thy ===== *)
theory JpegScan
  imports Prelude "HOL-Library.Sublist"
begin

section \<open>Cutting a byte stream into JPEG images\<close>

text \<open>
  The readers of \<open>v2/src/camera_stream.go\<close> and \<open>pkg/camera/persistent_capture.go\<close> cut the output of
  FFmpeg in the same way: they append each byte to a buffer, and when the last two bytes of the
  buffer are the end-of-image marker \<open>FF D9\<close> the buffer is a candidate image and is emptied.  What
  they do with a candidate differs and is modelled with each reader.
\<close>

type_synonym byte = "8 word"

definition jpegSOI :: "byte list" where "jpegSOI = [0xFF, 0xD8]"
definition jpegEOI :: "byte list" where "jpegEOI = [0xFF, 0xD9]"

text \<open>One byte: the candidate it completes, if any, and the buffer after it.\<close>

definition scan_byte :: "byte \<Rightarrow> byte list \<Rightarrow> byte list option \<times> byte list" where
  "scan_byte b frameBuffer =
     (let fb = frameBuffer @ [b] in
      if 2 \<le> length fb \<and> drop (length fb - 2) fb = jpegEOI then (Some fb, []) else (None, fb))"

fun scan :: "byte list \<Rightarrow> byte list \<Rightarrow> byte list list \<times> byte list" where
  "scan fb [] = ([], fb)"
| "scan fb (b # bs) = (case scan_byte b fb of
     (None, fb') \<Rightarrow> scan fb' bs
   | (Some f, fb') \<Rightarrow> let (fs, r) = scan fb' bs in (f # fs, r))"

text \<open>
  A segment ends with the marker and has no other occurrence of it; two markers cannot overlap, so
  a segment has none in its proper prefixes.
\<close>

definition ends_eoi :: "byte list \<Rightarrow> bool" where
  "ends_eoi s \<longleftrightarrow> suffix jpegEOI s"

fun has_eoi :: "byte list \<Rightarrow> bool" where
  "has_eoi (x # y # zs) \<longleftrightarrow> [x, y] = jpegEOI \<or> has_eoi (y # zs)"
| "has_eoi _ = False"

definition is_segment :: "byte list \<Rightarrow> bool" where
  "is_segment s \<longleftrightarrow> ends_eoi s \<and> \<not> has_eoi (butlast s)"

lemma ends_eoi_drop: "ends_eoi s \<longleftrightarrow> 2 \<le> length s \<and> drop (length s - 2) s = jpegEOI"
proof
  assume "ends_eoi s"
  then show "2 \<le> length s \<and> drop (length s - 2) s = jpegEOI"
    by (auto simp: ends_eoi_def suffix_def jpegEOI_def)
next
  assume r: "2 \<le> length s \<and> drop (length s - 2) s = jpegEOI"
  then have "s = take (length s - 2) s @ jpegEOI" by (metis append_take_drop_id)
  then show "ends_eoi s" unfolding ends_eoi_def by (metis suffixI)
qed

lemma scan_byte_eq: "scan_byte b fb = (if ends_eoi (fb @ [b]) then (Some (fb @ [b]), []) else (None, fb @ [b]))"
  by (simp add: scan_byte_def ends_eoi_drop Let_def)

lemma has_eoi_snoc: "has_eoi (xs @ [b]) \<longleftrightarrow> has_eoi xs \<or> ends_eoi (xs @ [b])"
proof (induction xs rule: has_eoi.induct)
  case (1 x y zs)
  have "ends_eoi (x # y # zs @ [b]) \<longleftrightarrow> ends_eoi (y # zs @ [b])"
    by (auto simp: ends_eoi_def suffix_def jpegEOI_def Cons_eq_append_conv)
  then show ?case using 1 by (cases zs) (auto simp: ends_eoi_def jpegEOI_def suffix_def)
qed (auto simp: ends_eoi_def jpegEOI_def suffix_def)

lemma segment_not_Nil: "is_segment s \<Longrightarrow> s \<noteq> []"
  by (auto simp: is_segment_def ends_eoi_def jpegEOI_def)

text \<open>Nothing is lost or invented: the candidates and the rest of the buffer are the input.\<close>

lemma scan_lossless: "scan fb bs = (fs, r) \<Longrightarrow> concat fs @ r = fb @ bs"
  by (induction bs arbitrary: fb fs r)
    (auto simp: scan_byte_eq split: if_splits prod.splits option.splits)

lemma scan_segments:
  "\<not> has_eoi fb \<Longrightarrow> scan fb bs = (fs, r) \<Longrightarrow> (\<forall>f \<in> set fs. is_segment f) \<and> \<not> has_eoi r"
proof (induction bs arbitrary: fb fs r)
  case (Cons b bs)
  show ?case
  proof (cases "ends_eoi (fb @ [b])")
    case True
    obtain fs' r' where s: "scan [] bs = (fs', r')" by (cases "scan [] bs")
    then have "(\<forall>f \<in> set fs'. is_segment f) \<and> \<not> has_eoi r'" by (intro Cons.IH) simp_all
    moreover have "is_segment (fb @ [b])" using True Cons.prems(1) by (simp add: is_segment_def)
    ultimately show ?thesis using Cons.prems(2) True s by (auto simp: scan_byte_eq)
  next
    case False
    then have "\<not> has_eoi (fb @ [b])" using Cons.prems(1) by (simp add: has_eoi_snoc)
    then show ?thesis using Cons.IH Cons.prems(2) False by (simp add: scan_byte_eq)
  qed
qed simp

lemma scan_append:
  "scan fb (xs @ ys) = (let (fs, r) = scan fb xs; (gs, r') = scan r ys in (fs @ gs, r'))"
  by (induction xs arbitrary: fb) (auto simp: scan_byte_eq Let_def split: prod.splits)

lemma has_eoi_append_left: "has_eoi xs \<Longrightarrow> has_eoi (xs @ ys)"
  by (induction xs rule: has_eoi.induct) auto

lemma scan_prefix:
  "\<not> has_eoi (fb @ xs) \<Longrightarrow> scan fb xs = ([], fb @ xs)"
proof (induction xs arbitrary: fb)
  case (Cons b xs)
  then have "\<not> has_eoi (fb @ [b])" using has_eoi_append_left [of "fb @ [b]" xs] by auto
  then have "\<not> ends_eoi (fb @ [b])" by (simp add: has_eoi_snoc)
  then show ?case using Cons by (simp add: scan_byte_eq)
qed simp

lemma scan_segment: "is_segment s \<Longrightarrow> scan [] s = ([s], [])"
proof -
  assume s: "is_segment s"
  then have "s = butlast s @ [last s]" by (simp add: segment_not_Nil)
  moreover have "scan [] (butlast s) = ([], butlast s)"
    using s by (intro scan_prefix [of "[]", simplified]) (simp add: is_segment_def)
  ultimately have "scan [] s = (let (gs, r) = scan (butlast s) [last s] in (gs, r))"
    using scan_append [of "[]" "butlast s" "[last s]"] by simp
  then show ?thesis using s \<open>s = butlast s @ [last s]\<close>
    by (simp add: scan_byte_eq is_segment_def)
qed

text \<open>A concatenation of segments is cut back into exactly these segments.\<close>

lemma scan_concat:
  assumes "\<forall>f \<in> set fs. is_segment f"
  shows "scan [] (concat fs) = (fs, [])"
  using assms
proof (induction fs)
  case (Cons f fs)
  then show ?case by (simp add: scan_append scan_segment)
qed simp

end
