(* ===== verification/StreamV2.thy ===== *)
theory StreamV2
  imports BreakerV2 GoChan JpegScan GoText
begin

section \<open>The camera stream of v2\<close>

text \<open>
  \<open>v2/src/camera_stream.go\<close>: FFmpeg for each camera, a goroutine that reads its output and
  queues the images, a goroutine that publishes the newest image at the configured rate, and the
  reconnection with its circuit breaker.  The stream is a record; \<open>read_byte\<close> is a round of
  \<open>readFrames\<close>, \<open>publish_take\<close> the part of a round of \<open>publishLoop\<close> after its sleep, and
  \<open>retry_round\<close> a round of \<open>retryFFmpegWithBackoff\<close>.  The buffers of the local pool are never read or
  written, only measured, so a buffer is its length.  FFmpeg itself is outside: its output, its
  failures and the errors they give are inputs.
\<close>

record camera_stream =
  sm_ID :: string
  sm_URL :: string
  sm_FPS :: int
  sm_Quality :: int
  sm_circuitBreaker :: breaker2
  sm_cancelled :: bool
  sm_frameCount :: int
  sm_framesReceived :: int
  sm_framesDropped :: int
  sm_lastFrame :: time
  sm_lastFrameReceived :: time
  sm_running :: bool
  sm_retrying :: bool
  sm_bufferPool :: "int chan"
  sm_frameChan :: "byte list chan"

definition pool_buffer_len :: int where
  "pool_buffer_len = 2 * 1024 * 1024"

fun fill_pool :: "nat \<Rightarrow> int chan \<Rightarrow> int chan" where
  "fill_pool 0 c = c"
| "fill_pool (Suc n) c = (case chan_send pool_buffer_len c of Sent c' \<Rightarrow> fill_pool n c' | _ \<Rightarrow> c)"

definition new_camera_stream :: "string \<Rightarrow> string \<Rightarrow> int \<Rightarrow> int \<Rightarrow> cb_config \<Rightarrow> time \<Rightarrow> camera_stream" where
  "new_camera_stream cid url fps quality cbConfig now =
     \<lparr>sm_ID = cid, sm_URL = url, sm_FPS = fps, sm_Quality = quality,
      sm_circuitBreaker = new_circuit_breaker cid cbConfig now, sm_cancelled = False,
      sm_frameCount = 0, sm_framesReceived = 0, sm_framesDropped = 0, sm_lastFrame = zero_time,
      sm_lastFrameReceived = zero_time, sm_running = False, sm_retrying = False,
      sm_bufferPool = fill_pool 10 (make_chan 10), sm_frameChan = make_chan 5\<rparr>"

definition get_buffer :: "camera_stream \<Rightarrow> int \<times> camera_stream" where
  "get_buffer s = (case chan_recv (sm_bufferPool s) of
     Received buf p \<Rightarrow> (buf, s\<lparr>sm_bufferPool := p\<rparr>)
   | _ \<Rightarrow> (pool_buffer_len, s))"

definition put_buffer :: "int \<Rightarrow> camera_stream \<Rightarrow> camera_stream" where
  "put_buffer buf s = (case chan_send buf (sm_bufferPool s) of
     Sent p \<Rightarrow> s\<lparr>sm_bufferPool := p\<rparr>
   | _ \<Rightarrow> s)"

text \<open>\<open>Start\<close>: whether the two goroutines were started.\<close>

definition start_stream :: "camera_stream \<Rightarrow> bool \<times> camera_stream" where
  "start_stream s = (if sm_running s then (False, s) else (True, s\<lparr>sm_running := True\<rparr>))"

definition stop_stream :: "camera_stream \<Rightarrow> camera_stream" where
  "stop_stream s = s\<lparr>sm_cancelled := True\<rparr>"

text \<open>The command line of FFmpeg.  The prefixes that decide the protocol are ASCII.\<close>

definition lower :: "string \<Rightarrow> string" where
  "lower s = map (\<lambda>c. let n = of_char c :: nat in if 65 \<le> n \<and> n \<le> 90 then char_of (n + 32) else c) s"

definition ffmpeg_args :: "camera_stream \<Rightarrow> string list" where
  "ffmpeg_args s =
     (let url = lower (sm_URL s);
          isRTMP = (prefix ''rtmp://'' url \<or> prefix ''rtmps://'' url);
          isRTSP = (prefix ''rtsp://'' url \<or> prefix ''rtsps://'' url)
      in [''ffmpeg'']
         @ (if isRTSP then [''-rtsp_transport'', ''tcp'', ''-timeout'', ''5000000'']
            else if isRTMP then [''-rw_timeout'', ''5000000'', ''-listen'', ''0''] else [])
         @ [''-fflags'', ''nobuffer+fastseek+flush_packets+discardcorrupt'', ''-flags'', ''low_delay'',
            ''-max_delay'', ''0'', ''-probesize'', ''32'', ''-analyzeduration'', ''0'',
            ''-err_detect'', ''ignore_err'', ''-i'', sm_URL s, ''-vf'', ''fps='' @ fmt_d (sm_FPS s),
            ''-f'', ''image2pipe'', ''-vcodec'', ''mjpeg'', ''-q:v'', fmt_d (sm_Quality s),
            ''-pkt_size'', ''2097152'', ''-max_muxing_queue_size'', ''1024'', ''-threads'', ''1'', ''-''])"

text \<open>What the reader does with a candidate image, and one byte of its input.\<close>

definition take_candidate :: "time \<Rightarrow> byte list \<Rightarrow> camera_stream \<Rightarrow> camera_stream" where
  "take_candidate now frameBuffer s0 =
     (let (buf, s1) = get_buffer s0; frameSize = int (length frameBuffer); s2 = put_buffer buf s1 in
      if buf < frameSize then s2
      else if prefix jpegSOI frameBuffer \<and> suffix jpegEOI frameBuffer then
        let s3 = s2\<lparr>sm_framesReceived := u64 (sm_framesReceived s2 + 1), sm_lastFrameReceived := now\<rparr> in
        case chan_send frameBuffer (sm_frameChan s3) of
          Sent c \<Rightarrow> s3\<lparr>sm_frameChan := c\<rparr>
        | _ \<Rightarrow> s3\<lparr>sm_framesDropped := u64 (sm_framesDropped s3 + 1)\<rparr>
      else s2)"

definition read_byte :: "time \<Rightarrow> byte \<Rightarrow> byte list \<times> camera_stream \<Rightarrow> byte list \<times> camera_stream" where
  "read_byte now b st = (case st of (frameBuffer, s) \<Rightarrow> case scan_byte b frameBuffer of
     (None, fb) \<Rightarrow> (fb, s)
   | (Some f, fb) \<Rightarrow> (fb, take_candidate now f s))"

text \<open>The publisher: the interval (\<open>None\<close> when the division panics), the sleep, the image it takes.\<close>

definition publish_interval :: "camera_stream \<Rightarrow> duration option" where
  "publish_interval s = (if sm_FPS s = 0 then None else Some (second sdiv sm_FPS s))"

definition publish_sleep :: "duration \<Rightarrow> time \<Rightarrow> time \<Rightarrow> duration" where
  "publish_sleep interval now lastPublish =
     (let elapsed = since now lastPublish in if elapsed < interval then i64 (interval - elapsed) else 0)"

definition publish_take ::
    "time \<Rightarrow> camera_stream \<Rightarrow> (byte list \<times> int \<times> time) option \<times> camera_stream" where
  "publish_take start s = (case poll (sm_frameChan s) of
     None \<Rightarrow> (None, s)
   | Some (frame, c) \<Rightarrow>
       let (flushed, newest, c') = drain_latest frame c;
           frameNum = u64 (sm_frameCount s + 1)
       in (Some (newest, frameNum, start),
           s\<lparr>sm_frameChan := c', sm_frameCount := frameNum, sm_lastFrame := start\<rparr>))"

definition detailed_stats :: "camera_stream \<Rightarrow> int \<times> int \<times> int \<times> time \<times> time" where
  "detailed_stats s = (sm_frameCount s, sm_framesReceived s, sm_framesDropped s, sm_lastFrame s,
     sm_lastFrameReceived s)"

datatype retry_action = RetryReturn | RetryAgain duration | RetryStart

definition retry_round :: "time \<Rightarrow> camera_stream \<Rightarrow> retry_action" where
  "retry_round now s =
     (if sm_cancelled s then RetryReturn
      else let stats = stats2 now (sm_circuitBreaker s) in
        if st_State stats = StateOpen
        then RetryAgain (if 0 < st_TimeUntilRetry stats then st_TimeUntilRetry stats else 0)
        else RetryStart)"

text \<open>Recording the failure of FFmpeg: \<open>Execute\<close> of a function that returns its error.\<close>

definition record_stream_failure ::
    "(duration \<Rightarrow> string) \<Rightarrow> time \<times> time \<Rightarrow> time \<times> time \<Rightarrow> goerr \<Rightarrow> camera_stream \<Rightarrow> camera_stream" where
  "record_stream_failure sd ta tr err s = s\<lparr>sm_circuitBreaker :=
     fst (snd (execute sd ta tr (\<lambda>u. (Some err, u)) (sm_circuitBreaker s) ()))\<rparr>"

subsection \<open>The pool of buffers\<close>

definition pool_ok :: "int chan \<Rightarrow> bool" where
  "pool_ok p \<longleftrightarrow> (\<forall>b \<in> set (ch_buf p). b = pool_buffer_len) \<and> \<not> ch_closed p"

definition stream_ok :: "camera_stream \<Rightarrow> bool" where
  "stream_ok s \<longleftrightarrow> pool_ok (sm_bufferPool s) \<and> \<not> ch_closed (sm_frameChan s) \<and> chan_ok (sm_frameChan s) \<and> 0 < ch_cap (sm_frameChan s)"

lemma fill_pool_ok: "pool_ok c \<Longrightarrow> pool_ok (fill_pool n c)"
proof (induction n arbitrary: c)
  case (Suc n)
  have "pool_ok c'" if "chan_send pool_buffer_len c = Sent c'" for c'
    using that Suc.prems by (auto simp: chan_iffs pool_ok_def)
  then show ?case using Suc by (simp split: send.splits)
qed simp

lemma stream_ok_new: "stream_ok (new_camera_stream cid url fps q cfg now)"
  using fill_pool_ok [of "make_chan 10" 10]
  by (simp add: stream_ok_def pool_ok_def [of "make_chan 10"] new_camera_stream_def chan_ok_def)

lemma buffer_round_trip:
  assumes "stream_ok s" and "get_buffer s = (buf, s1)"
  shows "buf = pool_buffer_len" and "stream_ok (put_buffer buf s1)"
    and "\<exists>p. put_buffer buf s1 = s\<lparr>sm_bufferPool := p\<rparr>"
proof -
  show b: "buf = pool_buffer_len"
    using assms by (auto simp: get_buffer_def stream_ok_def pool_ok_def chan_recv_def split: list.splits if_splits)
  show "stream_ok (put_buffer buf s1)"
    using assms b by (auto simp: get_buffer_def put_buffer_def stream_ok_def pool_ok_def chan_recv_def chan_send_def
        split: list.splits if_splits)
  show "\<exists>p. put_buffer buf s1 = s\<lparr>sm_bufferPool := p\<rparr>"
    using assms(2) by (auto simp: get_buffer_def put_buffer_def split: recv.splits send.splits)
      (metis camera_stream.surjective camera_stream.update_convs(14))+
qed

subsection \<open>From bytes to published images\<close>

definition valid_image :: "byte list \<Rightarrow> bool" where
  "valid_image f \<longleftrightarrow> int (length f) \<le> pool_buffer_len \<and> prefix jpegSOI f \<and> suffix jpegEOI f"

lemma take_candidate_cases:
  assumes "stream_ok s"
  obtains (invalid) p where "\<not> valid_image f" "take_candidate now f s = s\<lparr>sm_bufferPool := p\<rparr>"
      "stream_ok (s\<lparr>sm_bufferPool := p\<rparr>)"
  | (queued) p where "valid_image f" "length (ch_buf (sm_frameChan s)) < ch_cap (sm_frameChan s)"
      "take_candidate now f s = s\<lparr>sm_bufferPool := p, sm_framesReceived := u64 (sm_framesReceived s + 1),
         sm_lastFrameReceived := now,
         sm_frameChan := (sm_frameChan s)\<lparr>ch_buf := ch_buf (sm_frameChan s) @ [f]\<rparr>\<rparr>"
      "stream_ok (s\<lparr>sm_bufferPool := p\<rparr>)"
  | (dropped) p where "valid_image f" "ch_cap (sm_frameChan s) \<le> length (ch_buf (sm_frameChan s))"
      "take_candidate now f s = s\<lparr>sm_bufferPool := p, sm_framesReceived := u64 (sm_framesReceived s + 1),
         sm_lastFrameReceived := now, sm_framesDropped := u64 (sm_framesDropped s + 1)\<rparr>"
      "stream_ok (s\<lparr>sm_bufferPool := p\<rparr>)"
proof -
  obtain buf s1 where g: "get_buffer s = (buf, s1)" by (cases "get_buffer s")
  note b = buffer_round_trip [OF assms g]
  obtain p where p: "put_buffer buf s1 = s\<lparr>sm_bufferPool := p\<rparr>" using b(3) by blast
  have ok: "stream_ok (s\<lparr>sm_bufferPool := p\<rparr>)" using b(2) p by simp
  have open_: "\<not> ch_closed (sm_frameChan s)" using assms by (simp add: stream_ok_def)
  consider "\<not> valid_image f" | "valid_image f" "length (ch_buf (sm_frameChan s)) < ch_cap (sm_frameChan s)"
    | "valid_image f" "ch_cap (sm_frameChan s) \<le> length (ch_buf (sm_frameChan s))" by linarith
  then show ?thesis
  proof cases
    case 1
    then show ?thesis using ok g b(1) p
      by (intro invalid [of p]) (auto simp: take_candidate_def valid_image_def Let_def)
  next
    case 2
    then show ?thesis using ok g b(1) p open_
      by (intro queued [of p]) (auto simp: take_candidate_def valid_image_def chan_send_def)
  next
    case 3
    then show ?thesis using ok g b(1) p open_
      by (intro dropped [of p]) (auto simp: take_candidate_def valid_image_def chan_send_def)
  qed
qed

datatype stream_op = ByteIn time byte | Publish time

text \<open>
  The reader and the publish loop: the images a step takes from the queue and hands to a publishing
  goroutine (which publishes them on its own, in no fixed order), and the state it leaves.
\<close>

fun stream_step :: "byte list \<times> camera_stream \<Rightarrow> stream_op \<Rightarrow> byte list list \<times> (byte list \<times> camera_stream)" where
  "stream_step (fb, s) (ByteIn now b) = ([], read_byte now b (fb, s))"
| "stream_step (fb, s) (Publish now) = (case publish_take now s of
     (None, s') \<Rightarrow> ([], (fb, s'))
   | (Some (f, n, t), s') \<Rightarrow> ([f], (fb, s')))"

fun bytes_in :: "stream_op list \<Rightarrow> byte list" where
  "bytes_in [] = []"
| "bytes_in (ByteIn now b # es) = b # bytes_in es"
| "bytes_in (Publish now # es) = bytes_in es"

abbreviation queued :: "camera_stream \<Rightarrow> byte list list" where
  "queued s \<equiv> ch_buf (sm_frameChan s)"

lemma publish_take_eq:
  "publish_take now s = (if queued s = [] then (None, s)
     else (Some (last (queued s), u64 (sm_frameCount s + 1), now),
           s\<lparr>sm_frameChan := (sm_frameChan s)\<lparr>ch_buf := []\<rparr>, sm_frameCount := u64 (sm_frameCount s + 1),
             sm_lastFrame := now\<rparr>))"
  by (cases "queued s") (simp_all add: publish_take_def drain_latest_eq Let_def)

lemma take_candidate_ok: "stream_ok s \<Longrightarrow> stream_ok (take_candidate now f s)"
  by (rule take_candidate_cases [of s f now]) (auto simp: stream_ok_def chan_ok_def)

lemma stream_step_ok:
  assumes "stream_ok (snd st)"
  shows "stream_ok (snd (snd (stream_step st e)))"
proof -
  obtain fb s where st: "st = (fb, s)" by (cases st)
  show ?thesis
  proof (cases e)
    case (ByteIn now b)
    then show ?thesis using assms st by (simp add: read_byte_def scan_byte_eq take_candidate_ok)
  next
    case (Publish now)
    then show ?thesis using assms st by (simp add: publish_take_eq stream_ok_def chan_ok_def)
  qed
qed

interpretation streams: preserved stream_step "\<lambda>st. stream_ok (snd st)"
  by unfold_locales (rule stream_step_ok)

lemma subseq_append_leftD: "subseq (xs @ ys) zs \<Longrightarrow> subseq xs zs"
  by (rule subseq_order.order_trans [OF prefix_imp_subseq [OF prefixI [OF refl]]])

lemma subseq_published:
  assumes "stream_ok s" and "final stream_step (fb, s) es = (fb', s')"
  shows "subseq (concat (trace stream_step (fb, s) es) @ queued s')
    (queued s @ filter valid_image (fst (scan fb (bytes_in es))))"
  using assms
proof (induction es arbitrary: fb s)
  case (Cons e es)
  let ?st = "snd (stream_step (fb, s) e)"
  have ok: "stream_ok (snd ?st)" using streams.inv_step [of "(fb, s)" e] Cons.prems(1) by simp
  have IH: "subseq (concat (trace stream_step ?st es) @ queued s')
      (queued (snd ?st) @ filter valid_image (fst (scan (fst ?st) (bytes_in es))))"
    using Cons.IH [of "snd ?st" "fst ?st"] ok Cons.prems(2) by simp
  show ?case
  proof (cases e)
    case (ByteIn now b)
    show ?thesis
    proof (cases "ends_eoi (fb @ [b])")
      case False
      then show ?thesis using IH ByteIn by (simp add: read_byte_def scan_byte_eq)
    next
      case True
      let ?R = "filter valid_image (fst (scan [] (bytes_in es)))"
      have st: "?st = ([], take_candidate now (fb @ [b]) s)" "fst (stream_step (fb, s) e) = []"
        using True ByteIn by (simp_all add: read_byte_def scan_byte_eq)
      have R: "filter valid_image (fst (scan fb (bytes_in (e # es)))) =
          (if valid_image (fb @ [b]) then [fb @ [b]] else []) @ ?R"
        using True ByteIn by (simp add: scan_byte_eq split_beta)
      have sub: "subseq (queued s @ ?R) (queued s @ (fb @ [b]) # ?R)"
        by (rule list_emb_append_mono [OF subseq_order.order_refl])
          (rule list_emb_Cons, rule subseq_order.order_refl)
      have 1: "subseq (queued (take_candidate now (fb @ [b]) s) @ ?R)
          (queued s @ (if valid_image (fb @ [b]) then [fb @ [b]] else []) @ ?R)"
        by (rule take_candidate_cases [OF Cons.prems(1), of "fb @ [b]" now])
          (simp_all add: sub)
      have 2: "concat (trace stream_step (fb, s) (e # es)) = concat (trace stream_step ?st es)"
        using st(2) by simp
      have 3: "subseq (concat (trace stream_step ?st es) @ queued s')
          (queued (take_candidate now (fb @ [b]) s) @ ?R)"
        using IH unfolding st(1) fst_conv snd_conv .
      show ?thesis unfolding R 2 by (rule subseq_order.order_trans [OF 3 1])
    qed
  next
    case (Publish now)
    show ?thesis
    proof (cases "queued s = []")
      case True
      then show ?thesis using IH Publish by (simp add: publish_take_eq)
    next
      case False
      have "subseq [last (queued s)] (queued s)" using False by (simp add: subseq_singleton_left)
      then show ?thesis using IH Publish False
        by (simp add: publish_take_eq list_emb_append_mono [of _ "[_]", simplified])
    qed
  qed
qed simp

text \<open>C1: The publish loop takes an in-order selection of the images FFmpeg wrote: whatever the
  interleaving of the bytes read and of the rounds of \<open>publishLoop\<close> that take an image, the images
  taken, followed by those still queued, form a subsequence of the valid images (start marker, end
  marker only at the end, at most 2 MB) into which the bytes read so far are cut; nothing is
  altered, repeated or reordered on the way to the publish loop.  Each image taken is then handed
  to a goroutine of its own, and those goroutines may publish in another order.\<close>

theorem published_subsequence:
  assumes "stream_ok s" and "queued s = []" and "final stream_step ([], s) es = (fb', s')"
  shows "subseq (concat (trace stream_step ([], s) es) @ queued s')
      (filter valid_image (fst (scan [] (bytes_in es))))
    \<and> (\<forall>f \<in> set (fst (scan [] (bytes_in es))). is_segment f)
    \<and> concat (fst (scan [] (bytes_in es))) @ snd (scan [] (bytes_in es)) = bytes_in es"
  using subseq_published [OF assms(1,3)] assms(2)
    scan_segments [of "[]" "bytes_in es" "fst (scan [] (bytes_in es))" "snd (scan [] (bytes_in es))"]
    scan_lossless [of "[]" "bytes_in es" "fst (scan [] (bytes_in es))" "snd (scan [] (bytes_in es))"]
  by simp

definition demo_stream :: camera_stream where
  "demo_stream = new_camera_stream ''cam1'' ''rtsp://camera/1'' 15 5 default_cb_config 0"

lemma demo_stream_facts [simp]:
  "stream_ok demo_stream" "sm_frameChan demo_stream = make_chan 5" "\<not> sm_cancelled demo_stream"
  "\<not> sm_retrying demo_stream"
  by (simp_all add: demo_stream_def stream_ok_new) (simp_all add: new_camera_stream_def)

definition tiny_image :: "byte list" where
  "tiny_image = [0xFF, 0xD8, 0x00, 0xFF, 0xD9]"

lemma tiny_image_valid: "is_segment tiny_image" "valid_image tiny_image"
  by (simp_all add: is_segment_def ends_eoi_def valid_image_def tiny_image_def jpegEOI_def jpegSOI_def
      suffix_def pool_buffer_len_def)

theorem published_subsequence_witness:
  "subseq (concat (trace stream_step ([], demo_stream) (map (ByteIn 1) (0x17 # tiny_image @ tiny_image) @ [Publish 2])))
     (filter valid_image (fst (scan [] (0x17 # tiny_image @ tiny_image))))"
proof -
  let ?es = "map (ByteIn 1) (0x17 # tiny_image @ tiny_image) @ [Publish 2]"
  have b: "bytes_in (map (ByteIn 1) xs @ [Publish 2]) = xs" for xs by (induction xs) simp_all
  obtain fb s where f: "final stream_step ([], demo_stream) ?es = (fb, s)" by (rule prod.exhaust)
  have "queued demo_stream = []" by simp
  from published_subsequence [OF demo_stream_facts(1) this f]
  have "subseq (concat (trace stream_step ([], demo_stream) ?es) @ queued s)
      (filter valid_image (fst (scan [] (0x17 # tiny_image @ tiny_image))))"
    unfolding b by (rule conjunct1)
  then show ?thesis by (rule subseq_append_leftD)
qed

text \<open>Reading one image into an empty queue and publishing it.\<close>

lemma run_bytes_segment:
  assumes "is_segment f"
  shows "trace stream_step ([], s) (map (ByteIn t) f) = map (\<lambda>_. []) f"
    and "final stream_step ([], s) (map (ByteIn t) f) = ([], take_candidate t f s)"
proof -
  have out: "trace stream_step st (map (ByteIn t) bs) = map (\<lambda>_. []) bs" for st bs
    by (induction bs arbitrary: st) (auto simp: stream_step.simps split: prod.splits)
  then show "trace stream_step ([], s) (map (ByteIn t) f) = map (\<lambda>_. []) f" .
  have part: "final stream_step (fb, s) (map (ByteIn t) bs) = (fb @ bs, s)" if "\<not> has_eoi (fb @ bs)" for fb bs
    using that
  proof (induction bs arbitrary: fb)
    case (Cons b bs)
    then have "\<not> has_eoi (fb @ [b])" using has_eoi_append_left [of "fb @ [b]" bs] by auto
    then have "\<not> ends_eoi (fb @ [b])" by (simp add: has_eoi_snoc)
    then show ?case using Cons by (simp add: read_byte_def scan_byte_eq)
  qed simp
  have f: "f = butlast f @ [last f]" using assms by (simp add: segment_not_Nil)
  have "final stream_step ([], s) (map (ByteIn t) (butlast f @ [last f])) =
      final stream_step (butlast f, s) [ByteIn t (last f)]"
    using part [of "[]" "butlast f"] assms by (simp add: is_segment_def)
  also have "\<dots> = ([], take_candidate t f s)"
    using assms f by (simp add: read_byte_def scan_byte_eq is_segment_def)
  finally show "final stream_step ([], s) (map (ByteIn t) f) = ([], take_candidate t f s)" using f by simp
qed

definition deliver :: "time \<Rightarrow> byte list list \<Rightarrow> stream_op list" where
  "deliver t fs = concat (map (\<lambda>f. map (ByteIn t) f @ [Publish t]) fs)"

lemma deliver_one:
  assumes "stream_ok s" and "queued s = []" and "is_segment f" and "valid_image f"
  shows "\<exists>s'. trace stream_step ([], s) (deliver t [f]) = map (\<lambda>_. []) f @ [[f]]
    \<and> final stream_step ([], s) (deliver t [f]) = ([], s')
    \<and> stream_ok s' \<and> queued s' = [] \<and> sm_framesReceived s' = u64 (sm_framesReceived s + 1)
    \<and> sm_framesDropped s' = sm_framesDropped s"
proof -
  have room: "length (ch_buf (sm_frameChan s)) < ch_cap (sm_frameChan s)"
    using assms(1,2) by (simp add: stream_ok_def)
  have "\<exists>p. take_candidate t f s = s\<lparr>sm_bufferPool := p, sm_framesReceived := u64 (sm_framesReceived s + 1),
         sm_lastFrameReceived := t, sm_frameChan := (sm_frameChan s)\<lparr>ch_buf := [f]\<rparr>\<rparr>"
  proof (cases rule: take_candidate_cases [OF assms(1), of f t, case_names invalid queued dropped])
    case invalid
    then show ?thesis using assms(4) by simp
  next
    case (queued p)
    then show ?thesis unfolding assms(2) by (intro exI [of _ p]) (simp only: append_Nil)
  next
    case dropped
    then show ?thesis using room by simp
  qed
  then obtain p where tc: "take_candidate t f s = s\<lparr>sm_bufferPool := p,
         sm_framesReceived := u64 (sm_framesReceived s + 1), sm_lastFrameReceived := t,
         sm_frameChan := (sm_frameChan s)\<lparr>ch_buf := [f]\<rparr>\<rparr>" ..
  define s2 where "s2 = snd (snd (stream_step ([], take_candidate t f s) (Publish t)))"
  have pub: "stream_step ([], take_candidate t f s) (Publish t) = ([f], ([], s2))"
    by (simp add: s2_def publish_take_eq tc)
  have "stream_ok (snd ([] :: byte list, take_candidate t f s))"
    unfolding snd_conv by (rule take_candidate_ok [OF assms(1)])
  then have "stream_ok s2" unfolding s2_def by (rule stream_step_ok)
  moreover have "queued s2 = []" "sm_framesReceived s2 = u64 (sm_framesReceived s + 1)"
    "sm_framesDropped s2 = sm_framesDropped s"
    by (simp_all add: s2_def publish_take_eq tc)
  moreover have "trace stream_step ([], s) (deliver t [f]) = map (\<lambda>_. []) f @ [[f]]"
    by (simp add: deliver_def trace_append run_bytes_segment [OF assms(3)] pub del: stream_step.simps)
  moreover have "final stream_step ([], s) (deliver t [f]) = ([], s2)"
    by (simp add: deliver_def run_bytes_segment [OF assms(3)] pub del: stream_step.simps)
  ultimately show ?thesis by blast
qed

lemma deliver_all:
  assumes "stream_ok s" and "queued s = []" and "\<forall>f \<in> set fs. is_segment f \<and> valid_image f"
    and "u64 (sm_framesReceived s) = sm_framesReceived s"
  shows "\<exists>s'. concat (trace stream_step ([], s) (deliver t fs)) = fs
    \<and> final stream_step ([], s) (deliver t fs) = ([], s')
    \<and> sm_framesReceived s' = u64 (sm_framesReceived s + int (length fs))
    \<and> sm_framesDropped s' = sm_framesDropped s"
  using assms
proof (induction fs arbitrary: s)
  case Nil
  then show ?case by (simp add: deliver_def)
next
  case (Cons f fs)
  have split: "deliver t (f # fs) = deliver t [f] @ deliver t fs" by (simp add: deliver_def)
  obtain s1 where one: "trace stream_step ([], s) (deliver t [f]) = map (\<lambda>_. []) f @ [[f]]"
    "final stream_step ([], s) (deliver t [f]) = ([], s1)" "stream_ok s1" "queued s1 = []"
    "sm_framesReceived s1 = u64 (sm_framesReceived s + 1)" "sm_framesDropped s1 = sm_framesDropped s"
    using deliver_one [OF Cons.prems(1,2), of f t] Cons.prems(3) by auto
  obtain s2 where rest: "concat (trace stream_step ([], s1) (deliver t fs)) = fs"
    "final stream_step ([], s1) (deliver t fs) = ([], s2)"
    "sm_framesReceived s2 = u64 (sm_framesReceived s1 + int (length fs))"
    "sm_framesDropped s2 = sm_framesDropped s1"
    using Cons.IH [OF one(3,4)] Cons.prems(3) one(5) by auto
  have "concat (map (\<lambda>_. []) f) = []" by (induction f) simp_all
  then show ?case using one rest unfolding split by (simp add: trace_append ac_simps)
qed

text \<open>C2: A publisher that keeps up loses nothing: when each image FFmpeg writes is published before
  the next one is complete, exactly the images are published, in order and byte for byte, all are
  counted as received and none as dropped.\<close>

theorem stream_delivers:
  assumes "stream_ok s" and "queued s = []" and "\<forall>f \<in> set fs. is_segment f \<and> valid_image f"
    and "sm_framesReceived s = 0"
  shows "\<exists>s'. concat (trace stream_step ([], s) (deliver t fs)) = fs
    \<and> final stream_step ([], s) (deliver t fs) = ([], s')
    \<and> sm_framesReceived s' = u64 (int (length fs)) \<and> sm_framesDropped s' = sm_framesDropped s"
  using deliver_all [OF assms(1-3), of t] assms(4) by simp

theorem stream_delivers_witness:
  "concat (trace stream_step ([], demo_stream) (deliver 3 [tiny_image, tiny_image])) = [tiny_image, tiny_image]"
  using stream_delivers [of demo_stream "[tiny_image, tiny_image]" 3] tiny_image_valid
  by (auto simp: demo_stream_def new_camera_stream_def stream_ok_new [unfolded new_camera_stream_def])

subsection \<open>Reconnecting\<close>

text \<open>
  The goroutines of a stream that take part in its reconnection, by the place where they stand: in
  \<open>startFFmpeg\<close> before the process runs, in \<open>readFrames\<close>, after the failure was recorded and before
  the lock that looks at \<open>retrying\<close>, in the loop of \<open>retryFFmpegWithBackoff\<close>, and before its
  deferred reset of \<open>retrying\<close>.  The processes themselves are not represented here: the code neither
  kills nor waits for the process of a reader that failed (\<open>CameraLineV2\<close> adds them).  A step is one of them doing its next atomic action, or the
  publisher or \<open>Stop\<close>; which failure happens when is free.
\<close>

datatype stream_pc = Starting | Reading | Failed | Retrying | RetryReturning

inductive stream_sys_step ::
    "(duration \<Rightarrow> string) \<Rightarrow> camera_stream \<times> stream_pc multiset \<Rightarrow> camera_stream \<times> stream_pc multiset \<Rightarrow> bool"
  for sd where
  pipe_error: "stream_sys_step sd (s, add_mset Starting P) (s, P)"
| start_error: "stream_sys_step sd (s, add_mset Starting P) (record_stream_failure sd ta tr err s, add_mset Failed P)"
| started: "stream_sys_step sd (s, add_mset Starting P) (s, add_mset Reading P)"
| reader_stops: "sm_cancelled s \<Longrightarrow> stream_sys_step sd (s, add_mset Reading P) (s, P)"
| image: "stream_sys_step sd (s, add_mset Reading P) (take_candidate now f s, add_mset Reading P)"
| read_error: "\<not> sm_cancelled s \<Longrightarrow>
    stream_sys_step sd (s, add_mset Reading P) (record_stream_failure sd ta tr err s, add_mset Failed P)"
| schedule: "\<not> sm_retrying s \<Longrightarrow>
    stream_sys_step sd (s, add_mset Failed P) (s\<lparr>sm_retrying := True\<rparr>, add_mset Retrying P)"
| already_retrying: "sm_retrying s \<Longrightarrow> stream_sys_step sd (s, add_mset Failed P) (s, P)"
| retry_cancelled: "retry_round now s = RetryReturn \<Longrightarrow>
    stream_sys_step sd (s, add_mset Retrying P) (s, add_mset RetryReturning P)"
| retry_again: "retry_round now s = RetryAgain d \<Longrightarrow>
    stream_sys_step sd (s, add_mset Retrying P) (s, add_mset Retrying P)"
| retry_start: "retry_round now s = RetryStart \<Longrightarrow>
    stream_sys_step sd (s, add_mset Retrying P) (s, add_mset Starting (add_mset RetryReturning P))"
| retry_done: "stream_sys_step sd (s, add_mset RetryReturning P) (s\<lparr>sm_retrying := False\<rparr>, P)"
| publish: "stream_sys_step sd (s, P) (snd (publish_take now s), P)"
| stop: "stream_sys_step sd (s, P) (stop_stream s, P)"

inductive stream_reach ::
    "(duration \<Rightarrow> string) \<Rightarrow> camera_stream \<times> stream_pc multiset \<Rightarrow> camera_stream \<times> stream_pc multiset \<Rightarrow> bool"
  for sd x where
  refl: "stream_reach sd x x"
| step: "stream_reach sd x y \<Longrightarrow> stream_sys_step sd y z \<Longrightarrow> stream_reach sd x z"

inductive_cases stream_sys_stepE: "stream_sys_step sd (s, P) (s', P')"

lemma buffer_side [simp]:
  "sm_retrying (snd (get_buffer s)) = sm_retrying s" "sm_retrying (put_buffer b s) = sm_retrying s"
  "sm_circuitBreaker (snd (get_buffer s)) = sm_circuitBreaker s"
  "sm_circuitBreaker (put_buffer b s) = sm_circuitBreaker s"
  "sm_cancelled (snd (get_buffer s)) = sm_cancelled s" "sm_cancelled (put_buffer b s) = sm_cancelled s"
  by (simp_all add: get_buffer_def put_buffer_def split: recv.splits send.splits)

lemma candidate_side [simp]:
  "sm_retrying (take_candidate now f s) = sm_retrying s"
  "sm_circuitBreaker (take_candidate now f s) = sm_circuitBreaker s"
  "sm_cancelled (take_candidate now f s) = sm_cancelled s"
  by (simp_all add: take_candidate_def split_beta Let_def split: send.splits)

lemma publish_side [simp]:
  "sm_retrying (snd (publish_take now s)) = sm_retrying s"
  "sm_circuitBreaker (snd (publish_take now s)) = sm_circuitBreaker s"
  "sm_cancelled (snd (publish_take now s)) = sm_cancelled s"
  "sm_framesReceived (snd (publish_take now s)) = sm_framesReceived s"
  by (simp_all add: publish_take_eq)

lemma record_side [simp]:
  "sm_retrying (record_stream_failure sd ta tr err s) = sm_retrying s"
  "sm_cancelled (record_stream_failure sd ta tr err s) = sm_cancelled s"
  by (simp_all add: record_stream_failure_def)

text \<open>The goroutines that start, read or have just lost an FFmpeg process.\<close>

definition ffmpeg_threads :: "stream_pc multiset \<Rightarrow> nat" where
  "ffmpeg_threads P = count P Starting + count P Reading + count P Failed"

definition threads_ok :: "camera_stream \<times> stream_pc multiset \<Rightarrow> bool" where
  "threads_ok x \<longleftrightarrow> count (snd x) Retrying + count (snd x) RetryReturning = (if sm_retrying (fst x) then 1 else 0)
     \<and> ffmpeg_threads (snd x) + count (snd x) Retrying \<le> 1"

lemma threads_ok_step:
  assumes "stream_sys_step sd x y" and "threads_ok x"
  shows "threads_ok y"
  using assms
  by (cases rule: stream_sys_step.cases)
    (simp_all add: threads_ok_def ffmpeg_threads_def stop_stream_def split: if_splits)

lemma threads_ok_reach:
  assumes "stream_reach sd x y" and "threads_ok x"
  shows "threads_ok y"
  using assms by (induction rule: stream_reach.induct) (auto intro: threads_ok_step)

text \<open>C21: A camera never has two goroutines at work on FFmpeg, nor two retry loops: in every reachable state
  at most one goroutine starts or reads an FFmpeg process, has just lost one, or waits to start the
  next, and the flag retrying is set exactly while a retry loop exists.  This is about goroutines:
  the process of a reader that failed is not killed, and may still run beside the next one.\<close>

theorem one_reader_one_retry:
  assumes "\<not> sm_retrying s" and "stream_reach sd (s, {#Starting#}) (s', P)"
  shows "count P Starting + count P Reading + count P Failed + count P Retrying \<le> 1
    \<and> count P Retrying + count P RetryReturning = (if sm_retrying s' then 1 else 0)"
  using threads_ok_reach [OF assms(2)] assms(1)
  by (simp add: threads_ok_def ffmpeg_threads_def)

lemma demo_reading: "stream_reach sd (demo_stream, {#Starting#}) (demo_stream, {#Reading#})"
  by (rule stream_reach.step [OF stream_reach.refl]) (rule stream_sys_step.started)

theorem one_reader_one_retry_witness:
  "count {#Reading#} Starting + count {#Reading#} Reading + count {#Reading#} Failed + count {#Reading#} Retrying \<le> 1"
  using one_reader_one_retry [OF demo_stream_facts(4) demo_reading] by blast

text \<open>
  The breaker of a stream only ever sees failures: \<open>Execute\<close> is called with functions that return
  the error that already happened, never around a success.
\<close>

definition failing_breaker :: "breaker2 \<Rightarrow> bool" where
  "failing_breaker b \<longleftrightarrow> cfg_Enabled (v2_config b) \<and> v2_state b \<noteq> StateHalfOpen
     \<and> 0 \<le> v2_failures b \<and> v2_failures b \<le> cfg_MaxFailures (v2_config b)
     \<and> v2_totalFailures b = v2_failures b
     \<and> (v2_state b = StateOpen \<longleftrightarrow> v2_failures b = cfg_MaxFailures (v2_config b))
     \<and> cfg_MaxFailures (v2_config b) \<le> max_i64"

lemma failing_breaker_failure:
  assumes "failing_breaker (sm_circuitBreaker s)" and "v2_state (sm_circuitBreaker s) = StateClosed"
  shows "failing_breaker (sm_circuitBreaker (record_stream_failure sd ta tr err s))"
    and "v2_config (sm_circuitBreaker (record_stream_failure sd ta tr err s)) = v2_config (sm_circuitBreaker s)"
  using assms
  by (auto simp: failing_breaker_def record_stream_failure_def execute_def allow_request_def
      on_failure_def transition_to_def increase_backoff_def Let_def)

definition gives_up :: "camera_stream \<times> stream_pc multiset \<Rightarrow> bool" where
  "gives_up x \<longleftrightarrow> failing_breaker (sm_circuitBreaker (fst x))
     \<and> (v2_state (sm_circuitBreaker (fst x)) = StateOpen \<longrightarrow> count (snd x) Starting = 0 \<and> count (snd x) Reading = 0)"

lemma failure_gives_up:
  assumes "gives_up (s, add_mset p P)" and "threads_ok (s, add_mset p P)" and "p = Starting \<or> p = Reading"
  shows "gives_up (record_stream_failure sd ta tr err s, add_mset Failed P)"
proof -
  have "v2_state (sm_circuitBreaker s) = StateClosed"
    using assms(1,3) by (cases "v2_state (sm_circuitBreaker s)") (auto simp: gives_up_def failing_breaker_def)
  moreover have "count P Starting = 0" "count P Reading = 0"
    using assms(2,3) by (auto simp: threads_ok_def ffmpeg_threads_def)
  ultimately show ?thesis
    using assms(1) failing_breaker_failure(1) by (simp add: gives_up_def)
qed

lemma gives_up_step:
  assumes "stream_sys_step sd x y" and "threads_ok x" and "gives_up x"
  shows "gives_up y"
  using assms
proof (cases rule: stream_sys_step.cases)
  case (start_error s P ta tr err)
  then show ?thesis using assms(2,3) failure_gives_up by simp
next
  case (read_error s P ta tr err)
  then show ?thesis using assms(2,3) failure_gives_up by simp
next
  case (retry_start now s P)
  then have "v2_state (sm_circuitBreaker s) \<noteq> StateOpen"
    by (auto simp: retry_round_def stats2_def Let_def split: if_splits)
  then show ?thesis using retry_start assms(3) by (simp add: gives_up_def)
qed (auto simp: gives_up_def stop_stream_def)

lemma gives_up_reach:
  assumes "stream_reach sd x y" and "threads_ok x" and "gives_up x"
  shows "gives_up y"
  using assms
  by (induction rule: stream_reach.induct) (auto intro: gives_up_step threads_ok_reach)

lemma stream_config_reach:
  assumes "stream_reach sd x y"
  shows "v2_config (sm_circuitBreaker (fst y)) = v2_config (sm_circuitBreaker (fst x))"
  using assms
proof (induction rule: stream_reach.induct)
  case (step y z)
  have rc: "v2_config (sm_circuitBreaker (record_stream_failure sd ta tr err s)) = v2_config (sm_circuitBreaker s)"
    for ta tr err s
    by (auto simp: record_stream_failure_def execute_def Let_def split: prod.splits)
      (metis allow_request_frame(1) snd_conv)+
  from step.hyps(2) show ?case using step.IH rc
    by (cases rule: stream_sys_step.cases) (auto simp: stop_stream_def)
qed simp


definition one_failure_stream :: camera_stream where
  "one_failure_stream = new_camera_stream ''cam1'' ''rtsp://camera/1'' 15 5
     (default_cb_config\<lparr>cfg_Enabled := True, cfg_MaxFailures := 1\<rparr>) 0"

lemma one_failure_stream_facts:
  "\<not> sm_retrying one_failure_stream" "v2_state (sm_circuitBreaker one_failure_stream) = StateClosed"
  "v2_failures (sm_circuitBreaker one_failure_stream) = 0"
  "v2_totalFailures (sm_circuitBreaker one_failure_stream) = 0"
  "cfg_Enabled (v2_config (sm_circuitBreaker one_failure_stream))"
  "cfg_MaxFailures (v2_config (sm_circuitBreaker one_failure_stream)) = 1"
  by (simp_all add: one_failure_stream_def new_camera_stream_def new_circuit_breaker_def fill_cb_config_def
      default_cb_config_def Let_def)


text \<open>
  While the circuit is open the retry loop sleeps for the time that remains, and once that is over
  it spins: every further round continues at once, for nothing but \<open>Execute\<close> would make the
  breaker half-open.
\<close>

lemma retry_spins:
  assumes "\<not> sm_cancelled s" and "is_open (sm_circuitBreaker s)" and "retry_due now (sm_circuitBreaker s)"
    and "0 \<le> v2_currentBackoff (sm_circuitBreaker s)" and "v2_currentBackoff (sm_circuitBreaker s) \<le> max_i64"
  shows "retry_round now s = RetryAgain 0"
proof -
  let ?b = "sm_circuitBreaker s"
  have "- max_i64 \<le> v2_currentBackoff ?b - since now (v2_lastFailureTime ?b)"
    "v2_currentBackoff ?b - since now (v2_lastFailureTime ?b) \<le> 0"
    using assms(3,4) since_range [of now "v2_lastFailureTime ?b"] by linarith+
  then have "time_until_retry now ?b = 0"
    using assms(2) by (simp add: time_until_retry_def is_open_def Let_def)
  then show ?thesis using assms(1,2) by (simp add: retry_round_def stats2_def is_open_def Let_def)
qed

text \<open>A reconnection can be lost: a run exists after which the stream is neither stopped nor kept
  back by its circuit breaker, yet no goroutine is left that would ever start FFmpeg again.  The
  retry loop starts the new process before its deferred reset of retrying; if the process fails to
  start in between, its failure finds the flag still set and schedules nothing.\<close>

theorem reconnection_can_be_lost:
  "\<exists>s. stream_reach sd (demo_stream, {#Starting#}) (s, {#})
     \<and> \<not> sm_cancelled s \<and> \<not> sm_retrying s \<and> \<not> is_open (sm_circuitBreaker s)"
proof -
  let ?r = "record_stream_failure sd (1, 1) (1, 1) (errorf ''exec'')"
  let ?s1 = "?r demo_stream"
  let ?s2 = "?s1\<lparr>sm_retrying := True\<rparr>"
  let ?s3 = "?r ?s2"
  let ?s4 = "?s3\<lparr>sm_retrying := False\<rparr>"
  have b: "sm_circuitBreaker (?r s) = sm_circuitBreaker demo_stream"
    if "sm_circuitBreaker s = sm_circuitBreaker demo_stream" for s
    using that by (simp add: record_stream_failure_def execute_def demo_stream_def new_camera_stream_def
        new_circuit_breaker_def fill_cb_config_def default_cb_config_def Let_def)
  have closed: "v2_state (sm_circuitBreaker demo_stream) = StateClosed"
    by (simp add: demo_stream_def new_camera_stream_def new_circuit_breaker_def Let_def)
  have bs: "sm_circuitBreaker ?s2 = sm_circuitBreaker demo_stream" "sm_circuitBreaker ?s4 = sm_circuitBreaker demo_stream"
    using b by simp_all
  have 1: "stream_reach sd (demo_stream, {#Starting#}) (?s1, {#Failed#})"
    by (rule stream_reach.step [OF stream_reach.refl]) (rule stream_sys_step.start_error)
  have "stream_sys_step sd (?s1, {#Failed#}) (?s2, {#Retrying#})"
    by (rule stream_sys_step.schedule) simp
  with 1 have 2: "stream_reach sd (demo_stream, {#Starting#}) (?s2, {#Retrying#})" by (rule stream_reach.step)
  have "retry_round 2 ?s2 = RetryStart"
    using closed bs(1) by (simp add: retry_round_def stats2_def Let_def)
  then have "stream_sys_step sd (?s2, {#Retrying#}) (?s2, add_mset Starting {#RetryReturning#})"
    by (rule stream_sys_step.retry_start)
  with 2 have 3: "stream_reach sd (demo_stream, {#Starting#}) (?s2, add_mset Starting {#RetryReturning#})"
    by (rule stream_reach.step)
  have "stream_sys_step sd (?s2, add_mset Starting {#RetryReturning#}) (?s3, add_mset Failed {#RetryReturning#})"
    by (rule stream_sys_step.start_error)
  with 3 have 4: "stream_reach sd (demo_stream, {#Starting#}) (?s3, add_mset Failed {#RetryReturning#})"
    by (rule stream_reach.step)
  have "stream_sys_step sd (?s3, add_mset Failed {#RetryReturning#}) (?s3, {#RetryReturning#})"
    by (rule stream_sys_step.already_retrying) simp
  with 4 have 5: "stream_reach sd (demo_stream, {#Starting#}) (?s3, {#RetryReturning#})"
    by (rule stream_reach.step)
  have "stream_sys_step sd (?s3, {#RetryReturning#}) (?s4, {#})" by (rule stream_sys_step.retry_done)
  with 5 have "stream_reach sd (demo_stream, {#Starting#}) (?s4, {#})" by (rule stream_reach.step)
  then show ?thesis using closed bs(2) by (intro exI [of _ ?s4]) (simp add: is_open_def)
qed

end
