(* ===== verification/RedisStore.thy ===== *)
theory RedisStore
  imports KeyGenerator JpegScan
begin

section \<open>The Redis store of internal/storage\<close>

text \<open>
  \<open>internal/storage/redis_store.go\<close>.  The client library and the server behind it are parameters: a
  state \<open>'w\<close> of the connection and the server, and functions for the commands the code issues (\<open>SET\<close>
  with an expiry, \<open>GET\<close>, a whole \<open>SCAN\<close>, and closing, dialling and pinging, which \<open>reconnect\<close> does together); each
  returns the error of the command and the state after it.  A client that is nil is \<open>None\<close>.
\<close>

record 'w redis_api =
  api_set :: "string \<Rightarrow> byte list \<Rightarrow> duration \<Rightarrow> 'w \<Rightarrow> goerr option \<times> 'w"
  api_get :: "string \<Rightarrow> 'w \<Rightarrow> (goerr + byte list) \<times> 'w"
  api_scan :: "string \<Rightarrow> 'w \<Rightarrow> (goerr + string list) \<times> 'w"
  api_redial :: "'w \<Rightarrow> goerr option \<times> 'w"

record 'w redis_store =
  rs_client :: "'w option"
  rs_ttl :: duration
  rs_enabled :: bool
  rs_keyGenerator :: key_generator

definition new_redis_store ::
    "'w \<Rightarrow> int \<Rightarrow> string \<Rightarrow> string \<Rightarrow> bool \<Rightarrow> 'w redis_store" where
  "new_redis_store client ttlSeconds pfx vhost enabled =
     (let kg = new_key_generator \<lparr>kc_Strategy = StrategySequence, kc_Prefix = pfx, kc_Vhost = vhost\<rparr> in
      if \<not> enabled then \<lparr>rs_client = None, rs_ttl = 0, rs_enabled = False, rs_keyGenerator = kg\<rparr>
      else \<lparr>rs_client = Some client, rs_ttl = i64 (ttlSeconds * second), rs_enabled = True,
            rs_keyGenerator = kg\<rparr>)"

definition contains :: "string \<Rightarrow> string \<Rightarrow> bool" where
  "contains s sub \<longleftrightarrow> sublist sub s"

definition should_retry :: "goerr option \<Rightarrow> bool" where
  "should_retry err = (case err of None \<Rightarrow> False | Some e \<Rightarrow>
     if errors_is e ContextDeadlineExceeded then True
     else if errors_is e NetErrClosed then True
     else if contains (err_msg e) ''broken pipe'' then True
     else if contains (err_msg e) ''connection reset by peer'' then True
     else if contains (err_msg e) ''use of closed network connection'' then True
     else False)"

definition get_client :: "'w redis_store \<Rightarrow> 'w option" where
  "get_client r = rs_client r"

definition reconnect :: "'w redis_api \<Rightarrow> 'w \<Rightarrow> 'w redis_store \<Rightarrow> goerr option \<times> 'w redis_store" where
  "reconnect api c r = (let (e, c') = api_redial api c in (e, r\<lparr>rs_client := Some c'\<rparr>))"

text \<open>The loop of at most two attempts; \<open>lastErr\<close> is the error of the attempt before.\<close>

fun save_attempts :: "'w redis_api \<Rightarrow> nat \<Rightarrow> string \<Rightarrow> byte list \<Rightarrow> goerr \<Rightarrow> 'w redis_store
    \<Rightarrow> (goerr + string) \<times> 'w redis_store" where
  "save_attempts api 0 key data lastErr r =
     (Inl (wrap_err ''failed to save frame to redis: '' lastErr), r)"
| "save_attempts api (Suc n) key data lastErr r = (case get_client r of
     None \<Rightarrow> (Inl (errorf ''failed to save frame to redis: client not initialized''), r)
   | Some c \<Rightarrow> let (e, c1) = api_set api key data (rs_ttl r) c; r1 = r\<lparr>rs_client := Some c1\<rparr> in case e of
       None \<Rightarrow> (Inr key, r1)
     | Some err \<Rightarrow>
         if \<not> should_retry (Some err)
         then (Inl (wrap_err ''failed to save frame to redis: '' err), r1)
         else let (re, r2) = reconnect api c1 r1 in case re of
             Some recErr \<Rightarrow> (Inl (wrap_err ''failed to save frame to redis: ''
               (err\<lparr>err_msg := err_msg err @ ''; reconnect failed: '' @ err_msg recErr\<rparr>)), r2)
           | None \<Rightarrow> save_attempts api n key data err r2)"

definition save_frame :: "'w redis_api \<Rightarrow> string \<Rightarrow> time \<Rightarrow> byte list \<Rightarrow> 'w redis_store
    \<Rightarrow> (goerr + string) \<times> 'w redis_store" where
  "save_frame api cameraID timestamp data r =
     (if \<not> rs_enabled r then (Inr [], r)
      else let (key, kg) = generate_key cameraID timestamp [] (rs_keyGenerator r)
           in save_attempts api 2 key data (errorf []) (r\<lparr>rs_keyGenerator := kg\<rparr>))"

definition redis_nil :: goerr where
  "redis_nil = \<lparr>err_msg = ''redis: nil'', err_chain = [RedisNil]\<rparr>"

text \<open>A read through a client that is nil panics, which is \<open>None\<close>; \<open>NewRedisStore\<close> never leaves one.\<close>

definition get_frame :: "'w redis_api \<Rightarrow> string \<Rightarrow> 'w redis_store
    \<Rightarrow> ((goerr + byte list) \<times> 'w redis_store) option" where
  "get_frame api key r =
     (if \<not> rs_enabled r then Some (Inl (errorf ''redis store is disabled''), r)
      else case rs_client r of
        None \<Rightarrow> None
      | Some c \<Rightarrow> let (res, c') = api_get api key c in
          Some (case res of
              Inr val \<Rightarrow> Inr val
            | Inl e \<Rightarrow> Inl (if e = redis_nil then errorf ''frame not found''
                            else wrap_err ''failed to get frame: '' e),
            r\<lparr>rs_client := Some c'\<rparr>))"

definition query_frames :: "'w redis_api \<Rightarrow> string \<Rightarrow> 'w redis_store
    \<Rightarrow> ((goerr + string list) \<times> 'w redis_store) option" where
  "query_frames api cameraID r =
     (if \<not> rs_enabled r then Some (Inl (errorf ''redis store is disabled''), r)
      else case rs_client r of
        None \<Rightarrow> None
      | Some c \<Rightarrow> let (res, c') = api_scan api (query_pattern cameraID [] (rs_keyGenerator r)) c in
          Some (case res of
              Inr ks \<Rightarrow> Inr ks
            | Inl e \<Rightarrow> Inl (wrap_err ''failed to scan keys: '' e),
            r\<lparr>rs_client := Some c'\<rparr>))"

definition get_vhost :: "'w redis_store \<Rightarrow> string" where
  "get_vhost r = (if \<not> rs_enabled r then [] else kc_Vhost (kg_config (rs_keyGenerator r)))"

subsection \<open>What one save does to the server\<close>

text \<open>
  The documented behaviour of the commands, for a function \<open>value\<close> that reads what the server holds
  under a key: a \<open>SET\<close> that reports success has stored the data, a \<open>SET\<close> that fails may or may not
  have, no other key is touched, and connecting anew changes no value.  The time to live is left out:
  the laws speak of keys that have not expired.
\<close>

definition redis_laws :: "'w redis_api \<Rightarrow> (string \<Rightarrow> 'w \<Rightarrow> byte list option) \<Rightarrow> bool" where
  "redis_laws api value \<longleftrightarrow>
     (\<forall>k d t w. fst (api_set api k d t w) = None \<longrightarrow> value k (snd (api_set api k d t w)) = Some d)
   \<and> (\<forall>k k' d t w. k' \<noteq> k \<longrightarrow> value k' (snd (api_set api k d t w)) = value k' w)
   \<and> (\<forall>k w. value k (snd (api_redial api w)) = value k w)"

definition ready :: "'w redis_store \<Rightarrow> bool" where
  "ready r \<longleftrightarrow> rs_enabled r \<and> rs_client r \<noteq> None
     \<and> kg_ok (kg_config (rs_keyGenerator r)) (rs_keyGenerator r)
     \<and> kc_Strategy (kg_config (rs_keyGenerator r)) = StrategySequence"

abbreviation stored :: "(string \<Rightarrow> 'w \<Rightarrow> byte list option) \<Rightarrow> string \<Rightarrow> 'w redis_store \<Rightarrow> byte list option" where
  "stored value k r \<equiv> value k (the (rs_client r))"

lemma save_attempts_effect:
  assumes "redis_laws api value" and "rs_client r \<noteq> None" and "save_attempts api n key data e r = (res, r')"
  shows "rs_client r' \<noteq> None \<and> rs_keyGenerator r' = rs_keyGenerator r \<and> rs_enabled r' = rs_enabled r
    \<and> (\<forall>k. k \<noteq> key \<longrightarrow> stored value k r' = stored value k r)
    \<and> (\<forall>k. res = Inr k \<longrightarrow> k = key \<and> stored value key r' = Some data)"
  using assms(2,3)
proof (induction n arbitrary: r e)
  case (Suc n)
  obtain c where c: "rs_client r = Some c" using Suc.prems(1) by blast
  obtain er c1 where s: "api_set api key data (rs_ttl r) c = (er, c1)" by (cases "api_set api key data (rs_ttl r) c")
  have other: "\<forall>k. k \<noteq> key \<longrightarrow> value k c1 = value k c"
    using assms(1) s unfolding redis_laws_def by (metis snd_conv)
  have own: "er = None \<longrightarrow> value key c1 = Some data"
    using assms(1) s unfolding redis_laws_def by (metis fst_conv snd_conv)
  obtain re c2 where d: "api_redial api c1 = (re, c2)" by (cases "api_redial api c1")
  have redial: "value k c2 = value k c1" for k
    using assms(1) d unfolding redis_laws_def by (metis snd_conv)
  show ?case
  proof (cases "\<exists>err. er = Some err \<and> should_retry er \<and> re = None")
    case False
    then show ?thesis using Suc.prems(2) c s other own d redial
      by (auto simp: get_client_def reconnect_def Let_def split: option.splits if_splits)
  next
    case True
    then obtain err where er: "er = Some err" "should_retry (Some err)" "re = None" by auto
    let ?r = "r\<lparr>rs_client := Some c2\<rparr>"
    have "save_attempts api n key data err ?r = (res, r')"
      using Suc.prems(2) c s d er by (simp add: get_client_def reconnect_def)
    from Suc.IH [OF _ this] show ?thesis using c other redial by auto
  qed
qed auto

lemma generate_ready:
  assumes "ready r"
  shows "generate_key cam ts [] (rs_keyGenerator r) = kg_step (rs_keyGenerator r) (cam, ts, [])"
    and "kg_ok (kg_config (rs_keyGenerator r)) (snd (kg_step (rs_keyGenerator r) (cam, ts, [])))"
    and "kg_config (snd (kg_step (rs_keyGenerator r) (cam, ts, []))) = kg_config (rs_keyGenerator r)"
proof -
  show "generate_key cam ts [] (rs_keyGenerator r) = kg_step (rs_keyGenerator r) (cam, ts, [])"
    by (simp add: kg_step_def)
  show *: "kg_ok (kg_config (rs_keyGenerator r)) (snd (kg_step (rs_keyGenerator r) (cam, ts, [])))"
    using assms kgr.inv_step by (auto simp: ready_def)
  then show "kg_config (snd (kg_step (rs_keyGenerator r) (cam, ts, []))) = kg_config (rs_keyGenerator r)"
    by (simp add: kg_ok_def)
qed

lemma save_frame_effect:
  assumes "redis_laws api value" and "ready r" and "save_frame api cam ts data r = (res, r')"
  defines "key \<equiv> fst (kg_step (rs_keyGenerator r) (cam, ts, []))"
  shows "ready r' \<and> rs_keyGenerator r' = snd (kg_step (rs_keyGenerator r) (cam, ts, []))
    \<and> (\<forall>k. k \<noteq> key \<longrightarrow> stored value k r' = stored value k r)
    \<and> (\<forall>k. res = Inr k \<longrightarrow> k = key \<and> stored value key r' = Some data)"
proof -
  let ?r = "r\<lparr>rs_keyGenerator := snd (kg_step (rs_keyGenerator r) (cam, ts, []))\<rparr>"
  have "save_attempts api 2 key data (errorf []) ?r = (res, r')"
    using assms(2,3) generate_ready(1) [OF assms(2), of cam ts]
    by (simp add: save_frame_def ready_def key_def split_beta)
  moreover have "rs_client ?r \<noteq> None" using assms(2) by (simp add: ready_def)
  ultimately show ?thesis
    using save_attempts_effect [OF assms(1), of ?r 2 key data "errorf []" res r']
      generate_ready(2,3) [OF assms(2), of cam ts] assms(2)
    by (auto simp: ready_def)
qed

subsection \<open>Runs of saves\<close>

fun save_all :: "'w redis_api \<Rightarrow> (string \<times> time \<times> byte list) list \<Rightarrow> 'w redis_store
    \<Rightarrow> (goerr + string) list \<times> 'w redis_store" where
  "save_all api [] r = ([], r)"
| "save_all api ((cam, ts, data) # fs) r =
     (let (res, r1) = save_frame api cam ts data r; (ress, r2) = save_all api fs r1 in (res # ress, r2))"

definition key_calls :: "(string \<times> time \<times> byte list) list \<Rightarrow> (string \<times> time \<times> string) list" where
  "key_calls fs = map (\<lambda>(cam, ts, d). (cam, ts, [])) fs"

text \<open>Key \<open>i\<close> of the run, and that a key outside the run's keys keeps its value.\<close>

lemma save_all_other:
  assumes "redis_laws api value" and "ready r" and "save_all api fs r = (ress, r')"
    and "k \<notin> set (trace kg_step (rs_keyGenerator r) (key_calls fs))"
  shows "stored value k r' = stored value k r"
  using assms(2-)
proof (induction fs arbitrary: r ress)
  case (Cons f fs)
  obtain cam ts d where f: "f = (cam, ts, d)" by (cases f)
  obtain res r1 where 1: "save_frame api cam ts d r = (res, r1)" by (cases "save_frame api cam ts d r")
  note e = save_frame_effect [OF assms(1) Cons.prems(1) 1]
  obtain ress1 where 2: "save_all api fs r1 = (ress1, r')"
    using Cons.prems(2) f 1 by (auto split: prod.splits)
  have "stored value k r' = stored value k r1"
    using Cons.prems e f by (intro Cons.IH [OF _ 2]) (auto simp: key_calls_def)
  then show ?case using e Cons.prems(3) f by (simp add: key_calls_def)
qed simp

lemma save_all_kept:
  assumes "redis_laws api value" and "ready r" and "save_all api fs r = (ress, r')"
    and "distinct (trace kg_step (rs_keyGenerator r) (key_calls fs))"
    and "i < length fs" and "ress ! i = Inr k"
  shows "k = trace kg_step (rs_keyGenerator r) (key_calls fs) ! i \<and> stored value k r' = Some (snd (snd (fs ! i)))"
  using assms(2-)
proof (induction fs arbitrary: r ress i)
  case (Cons f fs)
  obtain cam ts d where f: "f = (cam, ts, d)" by (cases f)
  obtain res r1 where 1: "save_frame api cam ts d r = (res, r1)" by (cases "save_frame api cam ts d r")
  obtain ress1 where 2: "save_all api fs r1 = (ress1, r')" and r: "ress = res # ress1"
    using Cons.prems(2) f 1 by (auto split: prod.splits)
  note e = save_frame_effect [OF assms(1) Cons.prems(1) 1]
  let ?k = "fst (kg_step (rs_keyGenerator r) (cam, ts, []))"
  have t: "trace kg_step (rs_keyGenerator r) (key_calls (f # fs)) =
      ?k # trace kg_step (rs_keyGenerator r1) (key_calls fs)"
    using e f by (simp add: key_calls_def)
  show ?case
  proof (cases i)
    case 0
    then have k: "k = ?k" "stored value k r1 = Some d" using Cons.prems(5) r e by auto
    have "stored value k r' = stored value k r1"
      using save_all_other [OF assms(1) _ 2] e t Cons.prems(3) k(1) by simp
    then show ?thesis using k t 0 f by simp
  next
    case (Suc j)
    have "ready r1" "distinct (trace kg_step (rs_keyGenerator r1) (key_calls fs))" "j < length fs"
      "ress1 ! j = Inr k"
      using e t Cons.prems(3-5) r Suc by simp_all
    from Cons.IH [OF this(1) 2 this(2-4)] show ?thesis unfolding t Suc nth_Cons_Suc .
  qed
qed simp

text \<open>C13: Frames are not lost by later saves: against a server that keeps what it acknowledged (and
  while nothing has expired), every
  frame of a run of at most 99999 SaveFrame calls whose save succeeded is still stored at the end
  of the run, under the key that was returned and with the bytes that were saved, whatever errors,
  retries and reconnections happened and whatever cameras and timestamps the frames have.\<close>

theorem saved_frames_stay:
  assumes "redis_laws api value" and "ready r" and "length fs \<le> 99999"
    and "save_all api fs r = (ress, r')" and "i < length fs" and "ress ! i = Inr k"
  shows "stored value k r' = Some (snd (snd (fs ! i)))"
proof -
  let ?c = "kg_config (rs_keyGenerator r)" and ?ks = "trace kg_step (rs_keyGenerator r) (key_calls fs)"
  have kg: "kg_ok ?c (rs_keyGenerator r)" "kc_Strategy ?c = StrategySequence"
    using assms(2) by (auto simp: ready_def)
  have "distinct ?ks" using assms(3) by (intro keys_distinct [OF kg]) (simp add: key_calls_def)
  from save_all_kept [OF assms(1,2,4) this assms(5,6)] show ?thesis by (rule conjunct2)
qed

text \<open>A server that stores everything, and one connection error.\<close>

definition memory_redis :: "(nat \<times> (string \<rightharpoonup> byte list)) redis_api" where
  "memory_redis = \<lparr>
     api_set = (\<lambda>k d t w. case w of (0, m) \<Rightarrow> (None, (0, m(k \<mapsto> d)))
       | (Suc n, m) \<Rightarrow> (Some (errorf ''write: broken pipe''), (n, m))),
     api_get = (\<lambda>k w. (case snd w k of None \<Rightarrow> Inl redis_nil | Some d \<Rightarrow> Inr d, w)),
     api_scan = (\<lambda>p w. (Inr [], w)),
     api_redial = (\<lambda>w. (None, w))\<rparr>"

lemma memory_redis_laws: "redis_laws memory_redis (\<lambda>k w. snd w k)"
  by (auto simp: redis_laws_def memory_redis_def split: prod.splits nat.splits)

lemma memory_store_ready: "ready (new_redis_store w ttl ''frames'' ''client'' True)"
  using kg_ok_new [of "\<lparr>kc_Strategy = StrategySequence, kc_Prefix = ''frames'', kc_Vhost = ''client''\<rparr>"]
  by (simp add: ready_def new_redis_store_def new_key_generator_def Let_def StrategySequence_def)

lemma broken_pipe_retried: "should_retry (Some (errorf ''write: broken pipe''))"
  by (simp add: should_retry_def contains_def sublist_Cons_right errorf_def)

lemma save_after_one_error:
  assumes "ready r" and "rs_client r = Some (1, m)"
  shows "\<exists>k r'. save_frame memory_redis cam ts d r = (Inr k, r')"
  using assms broken_pipe_retried
  by (simp add: save_frame_def ready_def numeral_2_eq_2 get_client_def reconnect_def memory_redis_def
      split_beta Let_def)

theorem saved_frames_stay_witness:
  "\<exists>k. fst (save_all memory_redis [(''cam1'', 7, [1]), (''cam1'', 7, [2])]
        (new_redis_store (1, Map.empty) 60 ''frames'' ''client'' True)) ! 0 = Inr k
    \<and> stored (\<lambda>k w. snd w k) k (snd (save_all memory_redis [(''cam1'', 7, [1]), (''cam1'', 7, [2])]
        (new_redis_store (1, Map.empty) 60 ''frames'' ''client'' True))) = Some [1]"
proof -
  let ?r = "new_redis_store (1, Map.empty) 60 ''frames'' ''client'' True :: (nat \<times> (string \<rightharpoonup> byte list)) redis_store"
  let ?fs = "[(''cam1'', 7, [1]), (''cam1'', 7, [2])] :: (string \<times> time \<times> byte list) list"
  have "rs_client ?r = Some (1, Map.empty)" by (simp add: new_redis_store_def Let_def)
  then obtain k r1 where k: "save_frame memory_redis ''cam1'' 7 [1] ?r = (Inr k, r1)"
    using save_after_one_error [OF memory_store_ready] by blast
  obtain ress r' where s: "save_all memory_redis ?fs ?r = (ress, r')" by (rule prod.exhaust)
  then have "ress ! 0 = Inr k" using k by (auto split: prod.splits)
  then show ?thesis
    using saved_frames_stay [OF memory_redis_laws memory_store_ready _ s, of 0 k]
    unfolding s by simp
qed

end
