(* ===== verification/WorkerPool.thy ===== *)
theory WorkerPool
  imports GoChan Float64
begin

section \<open>The worker pool of pkg/worker\<close>

text \<open>
  \<open>pkg/worker/pool.go\<close>.  The shared state is the record \<open>pool\<close>; each worker goroutine is at one of
  the places \<open>worker_pc\<close> between its atomic actions, and a step of the system is one such action of
  one worker, of a submitter or of \<open>Close\<close>.  What \<open>Process\<close> does is outside: it returns when it
  returns, with any error.  Two fields of the system only record its past for the theorems: the
  jobs \<open>Submit\<close> accepted and the jobs whose \<open>Process\<close> returned.
\<close>

record 'j pool =
  wp_jobs :: "'j chan"
  wp_results :: "goerr option chan"
  wp_workers :: int
  wp_cancelled :: bool
  wp_processing :: int
  wp_totalProcessed :: int
  wp_totalErrors :: int

definition new_pool :: "int \<Rightarrow> nat \<Rightarrow> 'j pool" where
  "new_pool workers bufferSize = \<lparr>wp_jobs = make_chan bufferSize, wp_results = make_chan bufferSize,
     wp_workers = workers, wp_cancelled = False, wp_processing = 0, wp_totalProcessed = 0,
     wp_totalErrors = 0\<rparr>"

text \<open>
  \<open>Submit\<close> chooses among the cases of its \<open>select\<close> that are ready: the result is the list of the
  possible outcomes; a send on the closed channel panics (\<open>None\<close>).
\<close>

definition submit :: "'j \<Rightarrow> 'j pool \<Rightarrow> (goerr option \<times> 'j pool) option list" where
  "submit j p =
     (let sends = (case chan_send j (wp_jobs p) of
            Sent c \<Rightarrow> [Some (None, p\<lparr>wp_jobs := c\<rparr>)] | SendPanics \<Rightarrow> [None] | SendBlocks \<Rightarrow> []);
          dones = (if wp_cancelled p then [Some (Some (errorf ''pool fechado''), p)] else [])
      in if sends @ dones = [] then [Some (Some (errorf ''buffer cheio''), p)] else sends @ dones)"

definition submit_non_blocking :: "'j \<Rightarrow> 'j pool \<Rightarrow> (bool \<times> 'j pool) option" where
  "submit_non_blocking j p = (case chan_send j (wp_jobs p) of
     Sent c \<Rightarrow> Some (True, p\<lparr>wp_jobs := c\<rparr>) | SendPanics \<Rightarrow> None | SendBlocks \<Rightarrow> Some (False, p))"

record pool_stats =
  ps_Workers :: int
  ps_QueueSize :: int
  ps_Processing :: int
  ps_Capacity :: int
  ps_TotalProcessed :: int
  ps_TotalErrors :: int

definition pool_stats_of :: "'j pool \<Rightarrow> pool_stats" where
  "pool_stats_of p = \<lparr>ps_Workers = wp_workers p, ps_QueueSize = int (length (ch_buf (wp_jobs p))),
     ps_Processing = wp_processing p, ps_Capacity = int (ch_cap (wp_jobs p)),
     ps_TotalProcessed = wp_totalProcessed p, ps_TotalErrors = wp_totalErrors p\<rparr>"

text \<open>The atomic actions of a worker that touch the shared state.\<close>

definition begin_processing :: "'j pool \<Rightarrow> 'j pool" where
  "begin_processing p = p\<lparr>wp_processing := i32 (wp_processing p + 1)\<rparr>"

definition end_processing :: "'j pool \<Rightarrow> 'j pool" where
  "end_processing p = p\<lparr>wp_processing := i32 (wp_processing p - 1)\<rparr>"

definition count_processed :: "'j pool \<Rightarrow> 'j pool" where
  "count_processed p = p\<lparr>wp_totalProcessed := i64 (wp_totalProcessed p + 1)\<rparr>"

definition count_error :: "goerr option \<Rightarrow> 'j pool \<Rightarrow> 'j pool" where
  "count_error err p = (if err = None then p else p\<lparr>wp_totalErrors := i64 (wp_totalErrors p + 1)\<rparr>)"

definition report_result :: "goerr option \<Rightarrow> 'j pool \<Rightarrow> 'j pool" where
  "report_result err p = (case chan_send err (wp_results p) of
     Sent c \<Rightarrow> p\<lparr>wp_results := c\<rparr> | _ \<Rightarrow> p)"

text \<open>A round of \<open>Close\<close>'s wait: it cancels the context once no worker is processing (or on timeout).\<close>

definition close_tick :: "bool \<Rightarrow> 'j pool \<Rightarrow> bool \<times> 'j pool" where
  "close_tick timed_out p =
     (if timed_out \<or> wp_processing p = 0 then (True, p\<lparr>wp_cancelled := True\<rparr>) else (False, p))"

datatype 'j worker_pc = WIdle | WGot 'j | WRunning 'j | WReturned "goerr option" | WLeft "goerr option"
  | WCounted "goerr option" | WReporting "goerr option" | WExited

record 'j pool_sys =
  py_pool :: "'j pool"
  py_pcs :: "'j worker_pc list"
  py_closing :: bool
  py_accepted :: "'j multiset"
  py_finished :: "'j multiset"

inductive pool_step :: "'j pool_sys \<Rightarrow> 'j pool_sys \<Rightarrow> bool" where
  submitted: "Some (None, p') \<in> set (submit j (py_pool y)) \<Longrightarrow>
    pool_step y (y\<lparr>py_pool := p', py_accepted := add_mset j (py_accepted y)\<rparr>)"
| take_job: "i < length (py_pcs y) \<Longrightarrow> py_pcs y ! i = WIdle \<Longrightarrow>
    chan_recv (wp_jobs (py_pool y)) = Received j c \<Longrightarrow>
    pool_step y (y\<lparr>py_pool := (py_pool y)\<lparr>wp_jobs := c\<rparr>, py_pcs := (py_pcs y)[i := WGot j]\<rparr>)"
| no_more: "i < length (py_pcs y) \<Longrightarrow> py_pcs y ! i = WIdle \<Longrightarrow>
    chan_recv (wp_jobs (py_pool y)) = RecvClosed \<or> wp_cancelled (py_pool y) \<Longrightarrow>
    pool_step y (y\<lparr>py_pcs := (py_pcs y)[i := WExited]\<rparr>)"
| start: "i < length (py_pcs y) \<Longrightarrow> py_pcs y ! i = WGot j \<Longrightarrow>
    pool_step y (y\<lparr>py_pool := begin_processing (py_pool y), py_pcs := (py_pcs y)[i := WRunning j]\<rparr>)"
| returned: "i < length (py_pcs y) \<Longrightarrow> py_pcs y ! i = WRunning j \<Longrightarrow>
    pool_step y (y\<lparr>py_pcs := (py_pcs y)[i := WReturned err], py_finished := add_mset j (py_finished y)\<rparr>)"
| leave: "i < length (py_pcs y) \<Longrightarrow> py_pcs y ! i = WReturned err \<Longrightarrow>
    pool_step y (y\<lparr>py_pool := end_processing (py_pool y), py_pcs := (py_pcs y)[i := WLeft err]\<rparr>)"
| count_one: "i < length (py_pcs y) \<Longrightarrow> py_pcs y ! i = WLeft err \<Longrightarrow>
    pool_step y (y\<lparr>py_pool := count_processed (py_pool y), py_pcs := (py_pcs y)[i := WCounted err]\<rparr>)"
| count_err: "i < length (py_pcs y) \<Longrightarrow> py_pcs y ! i = WCounted err \<Longrightarrow>
    pool_step y (y\<lparr>py_pool := count_error err (py_pool y), py_pcs := (py_pcs y)[i := WReporting err]\<rparr>)"
| report: "i < length (py_pcs y) \<Longrightarrow> py_pcs y ! i = WReporting err \<Longrightarrow>
    pool_step y (y\<lparr>py_pool := report_result err (py_pool y), py_pcs := (py_pcs y)[i := WIdle]\<rparr>)"
| report_done: "i < length (py_pcs y) \<Longrightarrow> py_pcs y ! i = WReporting err \<Longrightarrow> wp_cancelled (py_pool y) \<Longrightarrow>
    pool_step y (y\<lparr>py_pcs := (py_pcs y)[i := WExited]\<rparr>)"
| collect: "chan_recv (wp_results (py_pool y)) = Received e c \<Longrightarrow>
    pool_step y (y\<lparr>py_pool := (py_pool y)\<lparr>wp_results := c\<rparr>\<rparr>)"
| close_jobs: "chan_close (wp_jobs (py_pool y)) = Some c \<Longrightarrow>
    pool_step y (y\<lparr>py_pool := (py_pool y)\<lparr>wp_jobs := c\<rparr>, py_closing := True\<rparr>)"
| close_wait: "py_closing y \<Longrightarrow> close_tick timed_out (py_pool y) = (b, p') \<Longrightarrow>
    pool_step y (y\<lparr>py_pool := p'\<rparr>)"

inductive pool_reach :: "'j pool_sys \<Rightarrow> 'j pool_sys \<Rightarrow> bool" for x where
  refl: "pool_reach x x"
| step: "pool_reach x y \<Longrightarrow> pool_step y z \<Longrightarrow> pool_reach x z"

definition start_pool :: "nat \<Rightarrow> nat \<Rightarrow> 'j pool_sys" where
  "start_pool workers bufferSize = \<lparr>py_pool = new_pool (int workers) bufferSize,
     py_pcs = replicate workers WIdle, py_closing = False, py_accepted = {#}, py_finished = {#}\<rparr>"

subsection \<open>No job is lost and none is processed twice\<close>

text \<open>The jobs in the hands of a worker, and where the workers stand.\<close>

fun in_hand :: "'j worker_pc \<Rightarrow> 'j multiset" where
  "in_hand (WGot j) = {#j#}"
| "in_hand (WRunning j) = {#j#}"
| "in_hand _ = {#}"

fun in_process :: "'j worker_pc \<Rightarrow> nat" where
  "in_process (WRunning j) = 1"
| "in_process (WReturned e) = 1"
| "in_process _ = 0"

fun uncounted :: "'j worker_pc \<Rightarrow> nat" where
  "uncounted (WReturned e) = 1"
| "uncounted (WLeft e) = 1"
| "uncounted _ = 0"

fun counted_error :: "'j worker_pc \<Rightarrow> nat" where
  "counted_error (WCounted (Some e)) = 1"
| "counted_error _ = 0"

definition sum_over :: "('a \<Rightarrow> 'b :: comm_monoid_add) \<Rightarrow> 'a list \<Rightarrow> 'b" where
  "sum_over f xs = sum_list (map f xs)"

lemma sum_over_update:
  "i < length xs \<Longrightarrow> sum_over f (xs[i := x]) + f (xs ! i) = sum_over f xs + f x"
  unfolding sum_over_def
proof (induction xs arbitrary: i)
  case (Cons a xs)
  then show ?case by (cases i) (auto simp: ac_simps)
qed simp

lemma sum_over_replicate: "f x = 0 \<Longrightarrow> sum_over f (replicate n x) = 0"
  by (induction n) (simp_all add: sum_over_def)

lemma in_process_le: "sum_over in_process pcs \<le> length pcs"
proof (induction pcs)
  case (Cons p pcs)
  then show ?case by (cases p) (simp_all add: sum_over_def)
qed (simp add: sum_over_def)

definition jobs_ok :: "'j pool_sys \<Rightarrow> bool" where
  "jobs_ok y \<longleftrightarrow> py_accepted y
     = mset (ch_buf (wp_jobs (py_pool y))) + sum_over in_hand (py_pcs y) + py_finished y"

definition counters_ok :: "'j pool_sys \<Rightarrow> bool" where
  "counters_ok y \<longleftrightarrow> length (py_pcs y) \<le> 2147483647
     \<and> wp_processing (py_pool y) = int (sum_over in_process (py_pcs y))
     \<and> (int (size (py_finished y)) \<le> max_i64 \<longrightarrow>
          wp_totalProcessed (py_pool y) + int (sum_over uncounted (py_pcs y)) = int (size (py_finished y))
        \<and> 0 \<le> wp_totalErrors (py_pool y)
        \<and> wp_totalErrors (py_pool y) + int (sum_over counted_error (py_pcs y)) \<le> wp_totalProcessed (py_pool y))"

lemma submit_accepts:
  "Some (None, p') \<in> set (submit j p) \<Longrightarrow>
    \<not> ch_closed (wp_jobs p) \<and> length (ch_buf (wp_jobs p)) < ch_cap (wp_jobs p)
    \<and> p' = p\<lparr>wp_jobs := (wp_jobs p)\<lparr>ch_buf := ch_buf (wp_jobs p) @ [j]\<rparr>\<rparr>"
  by (auto simp: submit_def chan_send_def Let_def split: if_splits)

lemma jobs_ok_step:
  assumes "pool_step y z" and "jobs_ok y"
  shows "jobs_ok z"
  using assms
proof (cases rule: pool_step.cases)
  case (submitted p' j)
  then show ?thesis using assms(2) submit_accepts [OF submitted(2)] by (simp add: jobs_ok_def)
next
  case (take_job i j c)
  then show ?thesis using assms(2) sum_over_update [of i "py_pcs y" in_hand "WGot j"]
    by (auto simp: jobs_ok_def chan_iffs)
next
  case (no_more i)
  then show ?thesis using assms(2) sum_over_update [of i "py_pcs y" in_hand WExited] by (simp add: jobs_ok_def)
next
  case (start i j)
  then show ?thesis using assms(2) sum_over_update [of i "py_pcs y" in_hand "WRunning j"]
    by (simp add: jobs_ok_def begin_processing_def)
next
  case (returned i j err)
  then show ?thesis using assms(2) sum_over_update [of i "py_pcs y" in_hand "WReturned err"]
    by (simp add: jobs_ok_def)
next
  case (leave i err)
  then show ?thesis using assms(2) sum_over_update [of i "py_pcs y" in_hand "WLeft err"]
    by (simp add: jobs_ok_def end_processing_def)
next
  case (count_one i err)
  then show ?thesis using assms(2) sum_over_update [of i "py_pcs y" in_hand "WCounted err"]
    by (simp add: jobs_ok_def count_processed_def)
next
  case (count_err i err)
  then show ?thesis using assms(2) sum_over_update [of i "py_pcs y" in_hand "WReporting err"]
    by (simp add: jobs_ok_def count_error_def)
next
  case (report i err)
  then show ?thesis using assms(2) sum_over_update [of i "py_pcs y" in_hand WIdle]
    by (simp add: jobs_ok_def report_result_def split: send.splits)
next
  case (report_done i err)
  then show ?thesis using assms(2) sum_over_update [of i "py_pcs y" in_hand WExited] by (simp add: jobs_ok_def)
next
  case (close_jobs c)
  then show ?thesis using assms(2) by (auto simp: jobs_ok_def chan_close_def split: if_splits)
next
  case (close_wait timed_out b p')
  then show ?thesis using assms(2) by (auto simp: jobs_ok_def close_tick_def split: if_splits)
qed (use assms(2) in \<open>simp_all add: jobs_ok_def\<close>)

lemma counters_ok_step:
  assumes "pool_step y z" and "counters_ok y"
  shows "counters_ok z"
  using assms
proof (cases rule: pool_step.cases)
  case (submitted p' j)
  then show ?thesis using assms(2) submit_accepts [OF submitted(2)] by (simp add: counters_ok_def)
next
  case (take_job i j c)
  then show ?thesis using assms(2) sum_over_update [of i "py_pcs y" in_process "WGot j"]
      sum_over_update [of i "py_pcs y" uncounted "WGot j"] sum_over_update [of i "py_pcs y" counted_error "WGot j"]
    by (simp add: counters_ok_def)
next
  case (no_more i)
  then show ?thesis using assms(2) sum_over_update [of i "py_pcs y" in_process WExited]
      sum_over_update [of i "py_pcs y" uncounted WExited] sum_over_update [of i "py_pcs y" counted_error WExited]
    by (simp add: counters_ok_def)
next
  case (start i j)
  have "sum_over in_process ((py_pcs y)[i := WRunning j]) \<le> 2147483647"
    using assms(2) in_process_le [of "(py_pcs y)[i := WRunning j]"] by (simp add: counters_ok_def)
  then show ?thesis using assms(2) start sum_over_update [of i "py_pcs y" in_process "WRunning j"]
      sum_over_update [of i "py_pcs y" uncounted "WRunning j"] sum_over_update [of i "py_pcs y" counted_error "WRunning j"]
    by (simp add: counters_ok_def begin_processing_def)
next
  case (returned i j err)
  then show ?thesis using assms(2) sum_over_update [of i "py_pcs y" in_process "WReturned err"]
      sum_over_update [of i "py_pcs y" uncounted "WReturned err"] sum_over_update [of i "py_pcs y" counted_error "WReturned err"]
    by (auto simp: counters_ok_def)
next
  case (leave i err)
  have "sum_over in_process (py_pcs y) \<le> 2147483647"
    using assms(2) in_process_le [of "py_pcs y"] by (simp add: counters_ok_def)
  then show ?thesis using assms(2) leave sum_over_update [of i "py_pcs y" in_process "WLeft err"]
      sum_over_update [of i "py_pcs y" uncounted "WLeft err"] sum_over_update [of i "py_pcs y" counted_error "WLeft err"]
    by (auto simp: counters_ok_def end_processing_def)
next
  case (count_one i err)
  then show ?thesis using assms(2) sum_over_update [of i "py_pcs y" in_process "WCounted err"]
      sum_over_update [of i "py_pcs y" uncounted "WCounted err"] sum_over_update [of i "py_pcs y" counted_error "WCounted err"]
    by (cases err) (auto simp: counters_ok_def count_processed_def)
next
  case (count_err i err)
  then show ?thesis using assms(2) sum_over_update [of i "py_pcs y" in_process "WReporting err"]
      sum_over_update [of i "py_pcs y" uncounted "WReporting err"] sum_over_update [of i "py_pcs y" counted_error "WReporting err"]
    by (cases err) (auto simp: counters_ok_def count_error_def)
next
  case (report i err)
  then show ?thesis using assms(2) sum_over_update [of i "py_pcs y" in_process WIdle]
      sum_over_update [of i "py_pcs y" uncounted WIdle] sum_over_update [of i "py_pcs y" counted_error WIdle]
    by (simp add: counters_ok_def report_result_def split: send.splits)
next
  case (report_done i err)
  then show ?thesis using assms(2) sum_over_update [of i "py_pcs y" in_process WExited]
      sum_over_update [of i "py_pcs y" uncounted WExited] sum_over_update [of i "py_pcs y" counted_error WExited]
    by (simp add: counters_ok_def)
next
  case (close_jobs c)
  then show ?thesis using assms(2) by (simp add: counters_ok_def)
next
  case (close_wait timed_out b p')
  then show ?thesis using assms(2) by (auto simp: counters_ok_def close_tick_def split: if_splits)
qed (use assms(2) in \<open>simp_all add: counters_ok_def\<close>)

lemma pool_reach_ok:
  assumes "pool_reach x y" and "jobs_ok x" and "counters_ok x"
  shows "jobs_ok y \<and> counters_ok y"
  using assms by (induction rule: pool_reach.induct) (auto intro: jobs_ok_step counters_ok_step)

lemma start_pool_ok:
  assumes "w \<le> 2147483647"
  shows "jobs_ok (start_pool w n)" and "counters_ok (start_pool w n)"
  using assms
  by (simp_all add: jobs_ok_def counters_ok_def start_pool_def new_pool_def sum_over_replicate)

text \<open>C11: No job is lost, invented or processed twice: at every moment the jobs Submit accepted are
  exactly those still queued, those in the hands of a worker and those whose Process returned; the
  number reported as processing is the number of workers in Process; and no more errors are counted
  than jobs, no more jobs than were finished.\<close>

theorem pool_conserves_jobs:
  assumes "workers \<le> 2147483647" and "pool_reach (start_pool workers n) y"
  shows "py_accepted y = mset (ch_buf (wp_jobs (py_pool y))) + sum_over in_hand (py_pcs y) + py_finished y
    \<and> wp_processing (py_pool y) = int (sum_over in_process (py_pcs y))
    \<and> (int (size (py_finished y)) \<le> max_i64 \<longrightarrow>
        0 \<le> wp_totalErrors (py_pool y) \<and> wp_totalErrors (py_pool y) \<le> wp_totalProcessed (py_pool y)
        \<and> wp_totalProcessed (py_pool y) \<le> int (size (py_finished y)))"
proof -
  have "jobs_ok y" "counters_ok y" using pool_reach_ok [OF assms(2)] start_pool_ok [OF assms(1)] by blast+
  then show ?thesis by (auto simp: jobs_ok_def counters_ok_def)
qed

text \<open>
  A run in which \<open>Close\<close> is called while a job waits: no worker is processing at its first look, so it
  cancels the context, and the idle worker may see the cancellation before the job.
\<close>

definition queued_pool :: "'j \<Rightarrow> 'j pool" where
  "queued_pool j = (new_pool 1 1)\<lparr>wp_jobs := (make_chan 1)\<lparr>ch_buf := [j]\<rparr>\<rparr>"

lemma submit_reach:
  "pool_reach (start_pool 1 1) \<lparr>py_pool = queued_pool j, py_pcs = [WIdle], py_closing = False,
     py_accepted = {#j#}, py_finished = {#}\<rparr>"
proof -
  have "Some (None, queued_pool j) \<in> set (submit j (py_pool (start_pool 1 1)))"
    by (simp add: submit_def start_pool_def new_pool_def chan_send_def make_chan_def queued_pool_def Let_def)
  from pool_step.submitted [OF this]
  have "pool_step (start_pool 1 1) \<lparr>py_pool = queued_pool j, py_pcs = [WIdle], py_closing = False,
     py_accepted = {#j#}, py_finished = {#}\<rparr>"
    by (simp add: start_pool_def)
  with pool_reach.refl show ?thesis by (rule pool_reach.step)
qed

theorem pool_conserves_jobs_witness:
  "{#''cam1''#} = mset (ch_buf (wp_jobs (queued_pool ''cam1''))) + sum_over in_hand [WIdle] + {#}"
  using pool_conserves_jobs [OF _ submit_reach [of "''cam1''"]] by simp

text \<open>Closing the pool may abandon accepted jobs: Close waits until no worker is processing, not
  until the queue is empty, so there is a run without a timeout in which Close ends the pool, every
  worker has exited, and a job that Submit accepted was never processed.\<close>

theorem close_may_abandon_jobs:
  "\<exists>y. pool_reach (start_pool 1 1) y \<and> py_closing y \<and> wp_cancelled (py_pool y)
     \<and> set (py_pcs y) = {WExited} \<and> py_accepted y = {#j#} \<and> py_finished y = {#}"
proof -
  let ?y = "\<lambda>p cl w. \<lparr>py_pool = p, py_pcs = [w], py_closing = cl, py_accepted = {#j#}, py_finished = {#}\<rparr>"
  let ?c = "(make_chan 1)\<lparr>ch_buf := [j], ch_closed := True\<rparr>"
  let ?p = "(queued_pool j)\<lparr>wp_jobs := ?c\<rparr>"
  have "pool_step (?y (queued_pool j) False WIdle) (?y ?p True WIdle)"
    using pool_step.close_jobs [of "?y (queued_pool j) False WIdle" ?c]
    by (simp add: queued_pool_def chan_close_def)
  with submit_reach have 1: "pool_reach (start_pool 1 1) (?y ?p True WIdle)" by (rule pool_reach.step)
  have "pool_step (?y ?p True WIdle) (?y (?p\<lparr>wp_cancelled := True\<rparr>) True WIdle)"
    using pool_step.close_wait [of "?y ?p True WIdle" False True "?p\<lparr>wp_cancelled := True\<rparr>"]
    by (simp add: close_tick_def queued_pool_def new_pool_def)
  with 1 have 2: "pool_reach (start_pool 1 1) (?y (?p\<lparr>wp_cancelled := True\<rparr>) True WIdle)"
    by (rule pool_reach.step)
  have "pool_step (?y (?p\<lparr>wp_cancelled := True\<rparr>) True WIdle) (?y (?p\<lparr>wp_cancelled := True\<rparr>) True WExited)"
    using pool_step.no_more [of 0 "?y (?p\<lparr>wp_cancelled := True\<rparr>) True WIdle"] by simp
  with 2 have "pool_reach (start_pool 1 1) (?y (?p\<lparr>wp_cancelled := True\<rparr>) True WExited)"
    by (rule pool_reach.step)
  then show ?thesis by (intro exI) (rule conjI, assumption, simp)
qed

text \<open>After \<open>Close\<close> a submission panics, since it sends on the closed channel.\<close>

lemma submit_after_close_panics:
  "ch_closed (wp_jobs p) \<Longrightarrow> None \<in> set (submit j p) \<and> submit_non_blocking j p = None"
  by (simp add: submit_def submit_non_blocking_def chan_send_def Let_def)

subsection \<open>The collector's report\<close>

text \<open>
  What \<open>resultCollector\<close> logs: at a tick the counters and the rate of errors, each counter read by a
  load of its own (\<open>p1\<close>, \<open>p2\<close> and \<open>p3\<close> are the pool at the loads), and at every hundredth error their
  number.
\<close>

definition collector_tick :: "'j pool \<Rightarrow> 'j pool \<Rightarrow> 'j pool \<Rightarrow> (int \<times> int \<times> f64 \<times> int) option" where
  "collector_tick p1 p2 p3 =
     (let processed = wp_totalProcessed p1; errors = wp_totalErrors p2 in
      if 0 < processed then Some (processed, errors, percent errors processed, wp_processing p3) else None)"

definition collector_result :: "goerr option \<Rightarrow> 'j pool \<Rightarrow> int option" where
  "collector_result err p =
     (if err \<noteq> None \<and> wp_totalErrors p mod 100 = 0 then Some (wp_totalErrors p) else None)"

lemma collector_rate_range:
  assumes "workers \<le> 2147483647" and "pool_reach (start_pool workers n) y" and "int (size (py_finished y)) \<le> max_i64"
    and "collector_tick (py_pool y) (py_pool y) p3 = Some (processed, errors, rate, busy)"
  shows "f_le (Fin 0) rate \<and> f_le rate (Fin 100)"
proof -
  have "counters_ok y" using pool_reach_ok [OF assms(2)] start_pool_ok [OF assms(1)] by blast
  then show ?thesis using assms(3,4) percent_at_most_100 [of errors processed]
    by (auto simp: counters_ok_def collector_tick_def Let_def split: if_splits)
qed

end
