(* ===== verification/AmqpPublisher.thy ===== *)
theory AmqpPublisher
  imports Prelude JpegScan
begin

section \<open>The AMQP publisher of pkg/mq\<close>

text \<open>
  \<open>pkg/mq/amqp.go\<close>.  The client library and the broker are parameters: a state \<open>'w\<close>, connections
  \<open>'c\<close>, channels \<open>'h\<close>, and the calls the code makes, each with its outcome and the state after it.
  The context of a publication and the readings of the clock are functions of the attempt.  The
  goroutine that waits for the closing of a channel is the operation \<open>handle_connection_close\<close>.
\<close>

record message =
  msg_exchange :: string
  msg_routingKey :: string
  msg_contentType :: string
  msg_body :: "byte list"
  msg_timestamp :: time

record ('c, 'h, 'w) amqp_api =
  amqp_dial :: "string \<Rightarrow> 'w \<Rightarrow> (goerr + 'c) \<times> 'w"
  amqp_channel :: "'c \<Rightarrow> 'w \<Rightarrow> (goerr + 'h) \<times> 'w"
  amqp_declare :: "'h \<Rightarrow> string \<Rightarrow> 'w \<Rightarrow> goerr option \<times> 'w"
  amqp_publish :: "'h \<Rightarrow> message \<Rightarrow> 'w \<Rightarrow> goerr option \<times> 'w"
  amqp_close_channel :: "'h \<Rightarrow> 'w \<Rightarrow> goerr option \<times> 'w"
  amqp_close_conn :: "'c \<Rightarrow> 'w \<Rightarrow> goerr option \<times> 'w"

record ('c, 'h) amqp_publisher =
  ap_conn :: "'c option"
  ap_channel :: "'h option"
  ap_exchange :: string
  ap_routingKeyPrefix :: string
  ap_amqpURL :: string
  ap_closed :: bool

type_synonym ('c, 'h, 'w) amqp_state = "('c, 'h) amqp_publisher \<times> 'w"

definition close_both :: "('c, 'h, 'w) amqp_api \<Rightarrow> 'h option \<Rightarrow> 'c option \<Rightarrow> 'w \<Rightarrow> goerr option \<times> 'w" where
  "close_both api ch conn w =
     (let (e1, w1) = (case ch of None \<Rightarrow> (None, w) | Some h \<Rightarrow> amqp_close_channel api h w) in
      case conn of
        None \<Rightarrow> (e1, w1)
      | Some c \<Rightarrow> let (e2, w2) = amqp_close_conn api c w1 in (if e1 = None then e2 else e1, w2))"

definition connect :: "('c, 'h, 'w) amqp_api \<Rightarrow> ('c, 'h, 'w) amqp_state \<Rightarrow> goerr option \<times> ('c, 'h, 'w) amqp_state" where
  "connect api st = (case st of (p, w) \<Rightarrow> case amqp_dial api (ap_amqpURL p) w of
     (Inl e, w1) \<Rightarrow> (Some (wrap_err ''failed to connect to RabbitMQ: '' e), (p, w1))
   | (Inr conn, w1) \<Rightarrow> case amqp_channel api conn w1 of
       (Inl e, w2) \<Rightarrow> (Some (wrap_err ''failed to open a channel: '' e), (p, snd (amqp_close_conn api conn w2)))
     | (Inr ch, w2) \<Rightarrow> case amqp_declare api ch (ap_exchange p) w2 of
         (Some e, w3) \<Rightarrow> (Some (wrap_err ''failed to declare an exchange: '' e),
                          (p, snd (close_both api (Some ch) (Some conn) w3)))
       | (None, w3) \<Rightarrow>
           if ap_closed p then (Some (errorf ''publisher closed''), (p, snd (close_both api (Some ch) (Some conn) w3)))
           else (None, (p\<lparr>ap_conn := Some conn, ap_channel := Some ch\<rparr>, w3)))"

text \<open>\<open>NewAMQPPublisher\<close>: ten attempts, five seconds apart; the sleeps are listed.\<close>

fun connect_attempts :: "('c, 'h, 'w) amqp_api \<Rightarrow> duration list \<Rightarrow> goerr option \<Rightarrow> ('c, 'h, 'w) amqp_state
    \<Rightarrow> goerr option \<times> duration list \<times> ('c, 'h, 'w) amqp_state" where
  "connect_attempts api [] err st = (err, [], st)"
| "connect_attempts api (wait # waits) err st = (case connect api st of
     (None, st1) \<Rightarrow> (None, [], st1)
   | (Some e, st1) \<Rightarrow> let (r, sleeps, st2) = connect_attempts api waits (Some e) st1 in (r, wait # sleeps, st2))"

definition new_amqp_publisher ::
    "('c, 'h, 'w) amqp_api \<Rightarrow> string \<Rightarrow> string \<Rightarrow> string \<Rightarrow> 'w
      \<Rightarrow> (goerr + ('c, 'h) amqp_publisher) \<times> duration list \<times> 'w" where
  "new_amqp_publisher api url exch pfx w =
     (let p = \<lparr>ap_conn = None, ap_channel = None, ap_exchange = exch, ap_routingKeyPrefix = pfx,
               ap_amqpURL = url, ap_closed = False\<rparr>
      in case connect_attempts api (replicate 10 (5 * second)) None (p, w) of
           (None, sleeps, (p', w')) \<Rightarrow> (Inr p', sleeps, w')
         | (Some e, sleeps, (p', w')) \<Rightarrow> (Inl (wrap_err (''falha ao conectar ao RabbitMQ ap''
             @ [CHR 0xC3, CHR 0xB3] @ ''s 10 tentativas: '') e), sleeps, w'))"

definition close_current :: "('c, 'h, 'w) amqp_api \<Rightarrow> ('c, 'h, 'w) amqp_state \<Rightarrow> ('c, 'h, 'w) amqp_state" where
  "close_current api st = (case st of (p, w) \<Rightarrow>
     (p\<lparr>ap_channel := None, ap_conn := None\<rparr>, snd (close_both api (ap_channel p) (ap_conn p) w)))"

definition reconnect_waits :: "duration list" where
  "reconnect_waits = [1 * second, 2 * second, 5 * second]"

definition amqp_reconnect :: "('c, 'h, 'w) amqp_api \<Rightarrow> ('c, 'h, 'w) amqp_state
    \<Rightarrow> goerr option \<times> duration list \<times> ('c, 'h, 'w) amqp_state" where
  "amqp_reconnect api st =
     (if ap_closed (fst st) then (Some (errorf ''publisher closed''), [], st)
      else connect_attempts api reconnect_waits None (close_current api st))"

definition contains_text :: "string \<Rightarrow> string \<Rightarrow> bool" where
  "contains_text s sub \<longleftrightarrow> sublist sub s"

definition should_reconnect :: "goerr option \<Rightarrow> bool" where
  "should_reconnect err = (case err of None \<Rightarrow> False | Some e \<Rightarrow>
     if errors_is e AmqpErrClosed then True
     else if contains_text (err_msg e) ''channel/connection is not open'' then True
     else if contains_text (err_msg e) ''connection closed'' then True
     else contains_text (err_msg e) ''EOF'')"

text \<open>
  The loop of \<open>Publish\<close>: \<open>n\<close> attempts are left; \<open>ctx n\<close> is the error of the context and \<open>now n\<close> the
  clock at the attempt that leaves \<open>n\<close>.
\<close>

definition publish_failed :: "goerr \<Rightarrow> goerr option" where
  "publish_failed e = Some (wrap_err ''failed to publish a message: '' e)"

definition ensure_channel :: "('c, 'h, 'w) amqp_api \<Rightarrow> ('c, 'h, 'w) amqp_state
    \<Rightarrow> goerr option \<times> ('c, 'h, 'w) amqp_state" where
  "ensure_channel api st = (case ap_channel (fst st) of
     Some h \<Rightarrow> (None, st)
   | None \<Rightarrow> let (r, sleeps, st') = amqp_reconnect api st in (r, st'))"

definition frame_message :: "('c, 'h) amqp_publisher \<Rightarrow> string \<Rightarrow> byte list \<Rightarrow> time \<Rightarrow> message" where
  "frame_message p key payload now = \<lparr>msg_exchange = ap_exchange p, msg_routingKey = key,
     msg_contentType = ''application/octet-stream'', msg_body = payload, msg_timestamp = now\<rparr>"

fun publish_attempts :: "('c, 'h, 'w) amqp_api \<Rightarrow> (nat \<Rightarrow> goerr option) \<Rightarrow> (nat \<Rightarrow> time) \<Rightarrow> nat \<Rightarrow> string
    \<Rightarrow> byte list \<Rightarrow> goerr \<Rightarrow> ('c, 'h, 'w) amqp_state \<Rightarrow> goerr option \<times> ('c, 'h, 'w) amqp_state" where
  "publish_attempts api ctx now 0 key payload lastErr st = (publish_failed lastErr, st)"
| "publish_attempts api ctx now (Suc n) key payload lastErr st = (case ensure_channel api st of
     (Some e, st1) \<Rightarrow> (publish_failed e, st1)
   | (None, st1) \<Rightarrow> case ap_channel (fst st1) of
       None \<Rightarrow> (publish_failed (errorf ''amqp channel unavailable after reconnect''), st1)
     | Some h \<Rightarrow> case ctx n of
         Some e \<Rightarrow> (publish_failed e, st1)
       | None \<Rightarrow> case amqp_publish api h (frame_message (fst st1) key payload (now n)) (snd st1) of
           (None, w2) \<Rightarrow> (None, (fst st1, w2))
         | (Some err, w2) \<Rightarrow>
             if \<not> should_reconnect (Some err) then (publish_failed err, (fst st1, w2))
             else case amqp_reconnect api (fst st1, w2) of
               (Some recErr, sleeps, st3) \<Rightarrow> (publish_failed (err\<lparr>err_msg :=
                  err_msg err @ ''; reconnect failed: '' @ err_msg recErr\<rparr>), st3)
             | (None, sleeps, st3) \<Rightarrow> publish_attempts api ctx now n key payload err st3)"

definition publish :: "('c, 'h, 'w) amqp_api \<Rightarrow> (nat \<Rightarrow> goerr option) \<Rightarrow> (nat \<Rightarrow> time) \<Rightarrow> string
    \<Rightarrow> byte list \<Rightarrow> ('c, 'h, 'w) amqp_state \<Rightarrow> goerr option \<times> ('c, 'h, 'w) amqp_state" where
  "publish api ctx now cameraID payload st =
     publish_attempts api ctx now 2 (ap_routingKeyPrefix (fst st) @ cameraID) payload (errorf []) st"

definition close_publisher :: "('c, 'h, 'w) amqp_api \<Rightarrow> ('c, 'h, 'w) amqp_state
    \<Rightarrow> goerr option \<times> ('c, 'h, 'w) amqp_state" where
  "close_publisher api st = (case st of (p, w) \<Rightarrow>
     let (e, w') = close_both api (ap_channel p) (ap_conn p) w
     in (e, (p\<lparr>ap_closed := True, ap_channel := None, ap_conn := None\<rparr>, w')))"

text \<open>\<open>notified\<close> is false when the notification channel was closed without a message.\<close>

definition handle_connection_close :: "('c, 'h, 'w) amqp_api \<Rightarrow> bool \<Rightarrow> ('c, 'h, 'w) amqp_state
    \<Rightarrow> ('c, 'h, 'w) amqp_state" where
  "handle_connection_close api notified st =
     (if \<not> notified \<or> ap_closed (fst st) then st else snd (snd (amqp_reconnect api st)))"

subsection \<open>Deliveries\<close>

text \<open>
  The documented behaviour of the library, for a function \<open>log\<close> that lists the messages written to
  the broker's connections: a publication that succeeds was written once, one that fails was
  written at most once, and no other call writes any.
\<close>

definition amqp_laws :: "('c, 'h, 'w) amqp_api \<Rightarrow> ('w \<Rightarrow> message list) \<Rightarrow> bool" where
  "amqp_laws api log \<longleftrightarrow>
     (\<forall>url w. log (snd (amqp_dial api url w)) = log w)
   \<and> (\<forall>c w. log (snd (amqp_channel api c w)) = log w)
   \<and> (\<forall>h x w. log (snd (amqp_declare api h x w)) = log w)
   \<and> (\<forall>h w. log (snd (amqp_close_channel api h w)) = log w)
   \<and> (\<forall>c w. log (snd (amqp_close_conn api c w)) = log w)
   \<and> (\<forall>h m w. fst (amqp_publish api h m w) = None \<longrightarrow> log (snd (amqp_publish api h m w)) = log w @ [m])
   \<and> (\<forall>h m w. log (snd (amqp_publish api h m w)) \<in> {log w, log w @ [m]})"

lemma amqp_lawsD:
  assumes "amqp_laws api log"
  shows "amqp_dial api url w = (r1, w1) \<Longrightarrow> log w1 = log w"
    and "amqp_channel api c w = (r2, w1) \<Longrightarrow> log w1 = log w"
    and "amqp_declare api h x w = (r3, w1) \<Longrightarrow> log w1 = log w"
    and "amqp_close_channel api h w = (r4, w1) \<Longrightarrow> log w1 = log w"
    and "amqp_close_conn api c w = (r4, w1) \<Longrightarrow> log w1 = log w"
    and "amqp_publish api h m w = (None, w1) \<Longrightarrow> log w1 = log w @ [m]"
    and "amqp_publish api h m w = (r4, w1) \<Longrightarrow> log w1 = log w \<or> log w1 = log w @ [m]"
  using assms unfolding amqp_laws_def by (metis insertE singletonD fst_conv snd_conv)+

lemma log_close_both:
  assumes "amqp_laws api log"
  shows "log (snd (close_both api ch conn w)) = log w"
proof -
  have "log (snd (amqp_close_channel api h w)) = log w" "log (snd (amqp_close_conn api c w)) = log w" for h c w
    using assms by (simp_all add: amqp_laws_def)
  then show ?thesis by (cases ch; cases conn) (simp_all add: close_both_def split_beta)
qed

definition same_target :: "('c, 'h) amqp_publisher \<Rightarrow> ('c, 'h) amqp_publisher \<Rightarrow> bool" where
  "same_target p p' \<longleftrightarrow> ap_exchange p' = ap_exchange p \<and> ap_routingKeyPrefix p' = ap_routingKeyPrefix p
     \<and> ap_closed p' = ap_closed p"

definition quiet :: "('w \<Rightarrow> message list) \<Rightarrow> ('c, 'h, 'w) amqp_state \<Rightarrow> ('c, 'h, 'w) amqp_state \<Rightarrow> bool" where
  "quiet log st st' \<longleftrightarrow> log (snd st') = log (snd st) \<and> same_target (fst st) (fst st')"

lemma quiet_refl [simp]: "quiet log st st"
  by (simp add: quiet_def same_target_def)

lemma quiet_trans: "quiet log a b \<Longrightarrow> quiet log b c \<Longrightarrow> quiet log a c"
  by (simp add: quiet_def same_target_def)

lemma quiet_connect:
  assumes "amqp_laws api log"
  shows "quiet log st (snd (connect api st))"
proof -
  obtain p w where st: "st = (p, w)" by (cases st)
  obtain r1 w1 where 1: "amqp_dial api (ap_amqpURL p) w = (r1, w1)" by (rule prod.exhaust)
  have l1: "log w1 = log w" by (rule amqp_lawsD(1) [OF assms 1])
  show ?thesis
  proof (cases r1)
    case (Inl e)
    then show ?thesis using l1 st 1 by (simp add: connect_def quiet_def same_target_def)
  next
    case (Inr conn)
    obtain r2 w2 where 2: "amqp_channel api conn w1 = (r2, w2)" by (rule prod.exhaust)
    have l2: "log w2 = log w" using amqp_lawsD(2) [OF assms 2] l1 by simp
    have lc: "log (snd (amqp_close_conn api conn w2)) = log w"
      using amqp_lawsD(5) [OF assms surjective_pairing, of conn w2] l2 by simp
    show ?thesis
    proof (cases r2)
      case (Inl e)
      then show ?thesis using lc st 1 2 Inr by (simp add: connect_def quiet_def same_target_def)
    next
      case r2: (Inr ch)
      obtain r3 w3 where 3: "amqp_declare api ch (ap_exchange p) w2 = (r3, w3)" by (rule prod.exhaust)
      have l3: "log w3 = log w" using amqp_lawsD(3) [OF assms 3] l2 by simp
      then show ?thesis using st 1 2 3 Inr r2 log_close_both [OF assms]
        by (cases r3) (simp_all add: connect_def quiet_def same_target_def)
    qed
  qed
qed

lemma quiet_attempts:
  assumes "amqp_laws api log"
  shows "quiet log st (snd (snd (connect_attempts api waits err st)))"
proof (induction waits arbitrary: err st)
  case (Cons wait waits)
  obtain r st1 where c: "connect api st = (r, st1)" by (rule prod.exhaust)
  have "quiet log st st1" using quiet_connect [OF assms, of st] c by simp
  then show ?case
    using quiet_trans [OF \<open>quiet log st st1\<close> Cons.IH [of st1 "r"]] c
    by (cases r) (simp_all add: split_beta)
qed simp

lemma quiet_close_current:
  assumes "amqp_laws api log"
  shows "quiet log st (close_current api st)"
  using log_close_both [OF assms] by (cases st) (simp add: close_current_def quiet_def same_target_def)

lemma quiet_reconnect:
  assumes "amqp_laws api log"
  shows "quiet log st (snd (snd (amqp_reconnect api st)))"
  using quiet_trans [OF quiet_close_current [OF assms] quiet_attempts [OF assms]]
  by (simp add: amqp_reconnect_def)

text \<open>A closed publisher connects no more.\<close>

lemma reconnect_closed: "ap_closed (fst st) \<Longrightarrow> amqp_reconnect api st = (Some (errorf ''publisher closed''), [], st)"
  by (simp add: amqp_reconnect_def)

text \<open>What the attempts of one publication deliver: copies of its message, none of them elsewhere.\<close>

definition copies :: "('c, 'h) amqp_publisher \<Rightarrow> string \<Rightarrow> byte list \<Rightarrow> message list \<Rightarrow> bool" where
  "copies p key payload ms \<longleftrightarrow> (\<forall>m \<in> set ms. msg_exchange m = ap_exchange p \<and> msg_routingKey m = key
     \<and> msg_body m = payload \<and> msg_contentType m = ''application/octet-stream'')"

lemma copies_cong: "same_target p p' \<Longrightarrow> copies p' key payload ms = copies p key payload ms"
  by (simp add: copies_def same_target_def)

lemma quiet_ensure:
  assumes "amqp_laws api log" and "ensure_channel api st = (r, st')"
  shows "quiet log st st'"
  using assms(2) quiet_reconnect [OF assms(1), of st]
  by (auto simp: ensure_channel_def split_beta split: option.splits)

definition delivers :: "('w \<Rightarrow> message list) \<Rightarrow> ('c, 'h, 'w) amqp_state \<Rightarrow> nat \<Rightarrow> string \<Rightarrow> byte list
    \<Rightarrow> goerr option \<Rightarrow> ('c, 'h, 'w) amqp_state \<Rightarrow> bool" where
  "delivers log st n key payload e st' \<longleftrightarrow> (\<exists>ms. log (snd st') = log (snd st) @ ms \<and> length ms \<le> n
     \<and> copies (fst st) key payload ms \<and> (e = None \<longrightarrow> ms \<noteq> []) \<and> same_target (fst st) (fst st'))"

lemma delivers_failed:
  "quiet log st st' \<Longrightarrow> delivers log st n key payload (publish_failed e) st'"
  unfolding delivers_def by (intro exI [of _ "[]"]) (simp add: quiet_def copies_def publish_failed_def)

lemma delivers_after_quiet:
  "quiet log a b \<Longrightarrow> delivers log b n key payload e c \<Longrightarrow> delivers log a n key payload e c"
  by (auto simp: delivers_def quiet_def copies_cong) (auto simp: same_target_def)

lemma delivers_then:
  assumes "log w = log (snd st) \<or> log w = log (snd st) @ [m]" and "copies (fst st) key payload [m]"
    and "delivers log (fst st, w) n key payload e st'"
  shows "delivers log st (Suc n) key payload e st'"
proof -
  obtain ms where ms: "log (snd st') = log w @ ms" "length ms \<le> n" "copies (fst st) key payload ms"
    "e = None \<longrightarrow> ms \<noteq> []" "same_target (fst st) (fst st')"
    using assms(3) by (auto simp: delivers_def)
  show ?thesis
  proof (cases "log w = log (snd st)")
    case True
    then show ?thesis using ms unfolding delivers_def by (intro exI [of _ ms]) simp
  next
    case False
    then show ?thesis using ms assms(1,2) unfolding delivers_def
      by (intro exI [of _ "m # ms"]) (simp add: copies_def)
  qed
qed

lemma publish_attempts_delivery:
  assumes "amqp_laws api log" and "publish_attempts api ctx now n key payload lastErr st = (e, st')"
  shows "delivers log st n key payload e st'"
  using assms(2)
proof (induction n arbitrary: lastErr st)
  case 0
  then show ?case by (auto intro: delivers_failed)
next
  case (Suc n)
  obtain r1 st1 where 1: "ensure_channel api st = (r1, st1)" by (rule prod.exhaust)
  have q1: "quiet log st st1" by (rule quiet_ensure [OF assms(1) 1])
  show ?case
  proof (cases "r1 = None \<and> ap_channel (fst st1) \<noteq> None \<and> ctx n = None")
    case False
    then have "\<exists>x. e = publish_failed x \<and> st' = st1"
      using Suc.prems 1 by (auto split: option.splits)
    then show ?thesis using delivers_failed [OF q1] by blast
  next
    case True
    then obtain h where h: "r1 = None" "ap_channel (fst st1) = Some h" "ctx n = None" by blast
    let ?m = "frame_message (fst st1) key payload (now n)"
    obtain r2 w2 where 2: "amqp_publish api h ?m (snd st1) = (r2, w2)" by (rule prod.exhaust)
    have m: "copies (fst st1) key payload [?m]" by (simp add: copies_def frame_message_def)
    have d1: "delivers log st1 (Suc n) key payload e st'"
    proof (cases r2)
      case None
      then have "log w2 = log (snd st1) @ [?m]" using amqp_lawsD(6) [OF assms(1)] 2 by blast
      moreover have "e = None" "st' = (fst st1, w2)" using Suc.prems 1 2 h None by simp_all
      ultimately show ?thesis using m unfolding delivers_def
        by (intro exI [of _ "[?m]"]) (simp add: same_target_def)
    next
      case (Some err)
      note lw = amqp_lawsD(7) [OF assms(1) 2]
      obtain r sl st3 where 3: "amqp_reconnect api (fst st1, w2) = (r, sl, st3)" by (rule prod_cases3)
      have q3: "quiet log (fst st1, w2) st3" using quiet_reconnect [OF assms(1), of "(fst st1, w2)"] 3 by simp
      have "delivers log (fst st1, w2) n key payload e st'"
      proof (cases "should_reconnect (Some err)")
        case False
        then have "e = publish_failed err" "st' = (fst st1, w2)" using Suc.prems 1 2 h Some by simp_all
        then show ?thesis by (simp add: delivers_failed)
      next
        case True
        show ?thesis
        proof (cases r)
          case None
          then have "publish_attempts api ctx now n key payload err st3 = (e, st')"
            using Suc.prems 1 2 3 h Some True by simp
          from delivers_after_quiet [OF q3 Suc.IH [OF this]] show ?thesis .
        next
          case (Some re)
          then show ?thesis using Suc.prems 1 2 3 h \<open>r2 = Some err\<close> True delivers_failed [OF q3] by auto
        qed
      qed
      then show ?thesis by (rule delivers_then [OF lw m])
    qed
    show ?thesis by (rule delivers_after_quiet [OF q1 d1])
  qed
qed

text \<open>C23: Publish delivers at least once and at most twice: when it returns no error the frame
  was written to the broker under the camera's routing key, with its bytes unchanged; a second copy
  can only come from the single retry; when it returns an error nothing but copies of this frame, at
  most two, may have been written; and a closed publisher without a channel delivers nothing.\<close>

theorem publish_at_least_once:
  assumes "amqp_laws api log" and "publish api ctx now cam payload st = (e, st')"
  shows "\<exists>ms. log (snd st') = log (snd st) @ ms \<and> length ms \<le> 2
    \<and> copies (fst st) (ap_routingKeyPrefix (fst st) @ cam) payload ms
    \<and> (e = None \<longrightarrow> ms \<noteq> [])
    \<and> (ap_closed (fst st) \<and> ap_channel (fst st) = None \<longrightarrow> ms = [] \<and> e \<noteq> None)"
proof -
  obtain ms where ms: "log (snd st') = log (snd st) @ ms" "length ms \<le> 2"
    "copies (fst st) (ap_routingKeyPrefix (fst st) @ cam) payload ms" "e = None \<longrightarrow> ms \<noteq> []"
    using publish_attempts_delivery [OF assms(1)] assms(2) unfolding publish_def delivers_def by blast
  have "st' = st \<and> e \<noteq> None" if "ap_closed (fst st)" "ap_channel (fst st) = None"
    using assms(2) that
    by (auto simp: publish_def numeral_2_eq_2 ensure_channel_def reconnect_closed publish_failed_def)
  then show ?thesis using ms by auto
qed

text \<open>A broker that takes everything, after a number of lost connections.\<close>

definition memory_broker :: "(unit, unit, nat \<times> message list) amqp_api" where
  "memory_broker = \<lparr>amqp_dial = (\<lambda>u w. (Inr (), w)), amqp_channel = (\<lambda>c w. (Inr (), w)),
     amqp_declare = (\<lambda>h x w. (None, w)),
     amqp_publish = (\<lambda>h m w. case w of (0, ms) \<Rightarrow> (None, (0, ms @ [m])) | (Suc n, ms) \<Rightarrow> (Some (errorf ''EOF''), (n, ms))),
     amqp_close_channel = (\<lambda>h w. (None, w)), amqp_close_conn = (\<lambda>c w. (None, w))\<rparr>"

lemma memory_broker_laws: "amqp_laws memory_broker snd"
  by (auto simp: amqp_laws_def memory_broker_def split: prod.splits nat.splits)

definition demo_publisher :: "(unit, unit) amqp_publisher" where
  "demo_publisher = \<lparr>ap_conn = Some (), ap_channel = Some (), ap_exchange = ''cameras'',
     ap_routingKeyPrefix = ''camera.'', ap_amqpURL = ''amqp://broker/'', ap_closed = False\<rparr>"

lemma demo_publish_retried:
  "fst (publish memory_broker (\<lambda>_. None) (\<lambda>_. 0) ''cam1'' [1] (demo_publisher, (1, []))) = None"
  by (simp add: publish_def numeral_2_eq_2 ensure_channel_def demo_publisher_def memory_broker_def
      should_reconnect_def contains_text_def errorf_def errors_is_def amqp_reconnect_def close_current_def
      close_both_def reconnect_waits_def connect_def sublist_Cons_right)

theorem publish_at_least_once_witness:
  "snd (snd (snd (publish memory_broker (\<lambda>_. None) (\<lambda>_. 0) ''cam1'' [1] (demo_publisher, (1, []))))) \<noteq> []"
proof -
  let ?st = "(demo_publisher, (1, []) :: nat \<times> message list)"
  obtain e st' where p: "publish memory_broker (\<lambda>_. None) (\<lambda>_. 0) ''cam1'' [1] ?st = (e, st')"
    by (rule prod.exhaust)
  then have "e = None" using demo_publish_retried by simp
  then show ?thesis using publish_at_least_once [OF memory_broker_laws p] p by auto
qed

end
