(* ===== verification/PublisherV2.thy ===== *)
theory PublisherV2
  imports Prelude GoText JpegScan "HOL-Library.Multiset" "HOL-Library.Sublist"
begin

section \<open>The publisher of v2\<close>

text \<open>
  \<open>v2/src/publisher.go\<close>.  The client library and the broker are parameters, as in
  \<open>AmqpPublisher\<close>: a state \<open>'w\<close>, connections \<open>'c\<close>, channels \<open>'h\<close> and the calls the code makes.  The
  operations come first; the goroutines of a publisher (the callers of \<open>Publish\<close>, which
  \<open>publishMu\<close> lets in one at a time, the monitor of the connection, the reconnections, the reader of
  the confirmations and \<open>Close\<close>) are then interleaved action by action.  A round of \<open>reconnect\<close>,
  from the test of \<open>done\<close> to the outcome of \<open>connect\<close>, is one action.
\<close>

record message2 =
  m2_exchange :: string
  m2_routingKey :: string
  m2_contentType :: string
  m2_body :: "byte list"
  m2_timestamp :: time
  m2_persistent :: bool
  m2_camera_id :: string

record ('c, 'h, 'w) amqp2_api =
  a2_dial :: "string \<Rightarrow> 'w \<Rightarrow> (goerr + 'c) \<times> 'w"
  a2_channel :: "'c \<Rightarrow> 'w \<Rightarrow> (goerr + 'h) \<times> 'w"
  a2_declare :: "'h \<Rightarrow> string \<Rightarrow> 'w \<Rightarrow> goerr option \<times> 'w"
  a2_qos :: "'h \<Rightarrow> int \<Rightarrow> 'w \<Rightarrow> goerr option \<times> 'w"
  a2_confirm :: "'h \<Rightarrow> 'w \<Rightarrow> goerr option \<times> 'w"
  a2_publish :: "'h \<Rightarrow> message2 \<Rightarrow> 'w \<Rightarrow> goerr option \<times> 'w"
  a2_close_channel :: "'h \<Rightarrow> 'w \<Rightarrow> goerr option \<times> 'w"
  a2_close_conn :: "'c \<Rightarrow> 'w \<Rightarrow> goerr option \<times> 'w"

text \<open>
  \<open>confirmsChan\<close> and \<open>notifyClose\<close> belong to the channel and the connection of the record; \<open>done\<close> is
  whether the channel of that name was closed.
\<close>

record ('c, 'h) publisher2 =
  p2_amqpURL :: string
  p2_conn :: "'c option"
  p2_channel :: "'h option"
  p2_exchange :: string
  p2_routingKey :: string
  p2_prefetchCount :: int
  p2_publishCount :: int
  p2_publishErrors :: int
  p2_reconnecting :: bool
  p2_connected :: bool
  p2_confirmsCount :: int
  p2_nacksCount :: int
  p2_done :: bool

subsection \<open>Connecting\<close>

definition close_pair :: "('c, 'h, 'w) amqp2_api \<Rightarrow> 'h \<Rightarrow> 'c \<Rightarrow> 'w \<Rightarrow> 'w" where
  "close_pair api h c w = snd (a2_close_conn api c (snd (a2_close_channel api h w)))"

definition connect2 :: "('c, 'h, 'w) amqp2_api \<Rightarrow> ('c, 'h) publisher2 \<Rightarrow> 'w
    \<Rightarrow> goerr option \<times> ('c, 'h) publisher2 \<times> 'w" where
  "connect2 api p w = (case a2_dial api (p2_amqpURL p) w of
     (Inl e, w1) \<Rightarrow> (Some (wrap_err ''falha ao conectar: '' e), p\<lparr>p2_conn := None\<rparr>, w1)
   | (Inr c, w1) \<Rightarrow>
       let p1 = p\<lparr>p2_conn := Some c\<rparr> in case a2_channel api c w1 of
         (Inl e, w2) \<Rightarrow> (Some (wrap_err ''falha ao criar canal: '' e), p1\<lparr>p2_channel := None\<rparr>,
                         snd (a2_close_conn api c w2))
       | (Inr h, w2) \<Rightarrow>
           let p2 = p1\<lparr>p2_channel := Some h\<rparr> in case a2_declare api h (p2_exchange p) w2 of
             (Some e, w3) \<Rightarrow> (Some (wrap_err ''falha ao declarar exchange: '' e), p2, close_pair api h c w3)
           | (None, w3) \<Rightarrow> case a2_qos api h (p2_prefetchCount p) w3 of
               (Some e, w4) \<Rightarrow> (Some (wrap_err ''falha ao configurar QoS: '' e), p2, close_pair api h c w4)
             | (None, w4) \<Rightarrow> case a2_confirm api h w4 of
                 (Some e, w5) \<Rightarrow> (Some (wrap_err ''falha ao habilitar publisher confirms: '' e), p2,
                                  close_pair api h c w5)
               | (None, w5) \<Rightarrow> (None, p2, w5))"

definition next_connect_delay :: "duration \<Rightarrow> duration" where
  "next_connect_delay delay = (if 30 * second < i64 (delay * 2) then 30 * second else i64 (delay * 2))"

text \<open>The loop of \<open>connectWithRetry\<close>; the sleeps it takes are listed.\<close>

fun connect_rounds :: "('c, 'h, 'w) amqp2_api \<Rightarrow> nat \<Rightarrow> duration \<Rightarrow> ('c, 'h) publisher2 \<Rightarrow> 'w
    \<Rightarrow> bool \<times> duration list \<times> ('c, 'h) publisher2 \<times> 'w" where
  "connect_rounds api 0 delay p w = (False, [], p, w)"
| "connect_rounds api (Suc n) delay p w = (case connect2 api p w of
     (None, p1, w1) \<Rightarrow> (True, [], p1\<lparr>p2_connected := True\<rparr>, w1)
   | (Some e, p1, w1) \<Rightarrow>
       let (ok, sleeps, p2, w2) = connect_rounds api n (next_connect_delay delay) p1 w1
       in (ok, delay # sleeps, p2, w2))"

definition connect_with_retry :: "('c, 'h, 'w) amqp2_api \<Rightarrow> int \<Rightarrow> duration \<Rightarrow> ('c, 'h) publisher2 \<Rightarrow> 'w
    \<Rightarrow> goerr option \<times> duration list \<times> ('c, 'h) publisher2 \<times> 'w" where
  "connect_with_retry api maxRetries initialDelay p w =
     (case connect_rounds api (nat maxRetries) initialDelay p w of
        (True, sleeps, p', w') \<Rightarrow> (None, sleeps, p', w')
      | (False, sleeps, p', w') \<Rightarrow> (Some (errorf (''falha ap'' @ [CHR 0xC3, CHR 0xB3] @ ''s ''
          @ fmt_d maxRetries @ '' tentativas'')), sleeps, p', w'))"

definition new_publisher2 :: "('c, 'h, 'w) amqp2_api \<Rightarrow> string \<Rightarrow> string \<Rightarrow> string \<Rightarrow> int \<Rightarrow> 'w
    \<Rightarrow> (goerr + ('c, 'h) publisher2) \<times> duration list \<times> 'w" where
  "new_publisher2 api url exch rkey prefetch w =
     (let p = \<lparr>p2_amqpURL = url, p2_conn = None, p2_channel = None, p2_exchange = exch,
               p2_routingKey = rkey, p2_prefetchCount = prefetch, p2_publishCount = 0,
               p2_publishErrors = 0, p2_reconnecting = False, p2_connected = False,
               p2_confirmsCount = 0, p2_nacksCount = 0, p2_done = False\<rparr>
      in case connect_with_retry api 10 (5 * second) p w of
           (None, sleeps, p', w') \<Rightarrow> (Inr p', sleeps, w')
         | (Some e, sleeps, p', w') \<Rightarrow> (Inl e, sleeps, w'))"

text \<open>One round of \<open>reconnect\<close>: close what is left of the old connection and connect again.\<close>

definition reconnect_round2 :: "('c, 'h, 'w) amqp2_api \<Rightarrow> ('c, 'h) publisher2 \<Rightarrow> 'w
    \<Rightarrow> goerr option \<times> ('c, 'h) publisher2 \<times> 'w" where
  "reconnect_round2 api p w =
     (let w1 = (case p2_channel p of Some h \<Rightarrow> snd (a2_close_channel api h w) | None \<Rightarrow> w);
          w2 = (case p2_conn p of Some c \<Rightarrow> snd (a2_close_conn api c w1) | None \<Rightarrow> w1)
      in connect2 api p w2)"

definition next_reconnect_delay :: "duration \<Rightarrow> duration" where
  "next_reconnect_delay delay =
     (if delay < 2 * second then 2 * second else if delay < 5 * second then 5 * second else 10 * second)"

subsection \<open>Publishing, confirmations, closing\<close>

definition not_connected_error :: goerr where
  "not_connected_error = errorf (''n'' @ [CHR 0xC3, CHR 0xA3] @ ''o conectado ao RabbitMQ'')"

text \<open>
  \<open>Publish\<close> up to the release of the lock (the channel it took and the message it will send, or the
  error it returns), and from the outcome of the library's call on; the flag says whether it starts
  a reconnection.
\<close>

definition publish_begin :: "string \<Rightarrow> byte list \<Rightarrow> time \<Rightarrow> ('c, 'h) publisher2
    \<Rightarrow> (goerr + 'h option \<times> message2) \<times> ('c, 'h) publisher2" where
  "publish_begin cameraID frameData timestamp p =
     (if \<not> p2_connected p
      then (Inl not_connected_error, p\<lparr>p2_publishErrors := u64 (p2_publishErrors p + 1)\<rparr>)
      else (Inr (p2_channel p, \<lparr>m2_exchange = p2_exchange p, m2_routingKey = p2_routingKey p,
              m2_contentType = ''application/octet-stream'', m2_body = frameData,
              m2_timestamp = timestamp, m2_persistent = False, m2_camera_id = cameraID\<rparr>), p))"

definition publish_end :: "goerr option \<Rightarrow> ('c, 'h) publisher2
    \<Rightarrow> goerr option \<times> bool \<times> ('c, 'h) publisher2" where
  "publish_end err p = (case err of
     Some e \<Rightarrow> (Some (wrap_err ''falha ao publicar: '' e), True,
        p\<lparr>p2_publishErrors := u64 (p2_publishErrors p + 1), p2_connected := False\<rparr>)
   | None \<Rightarrow> (None, False, p\<lparr>p2_publishCount := u64 (p2_publishCount p + 1)\<rparr>))"

definition handle_confirm :: "bool \<Rightarrow> ('c, 'h) publisher2 \<Rightarrow> ('c, 'h) publisher2" where
  "handle_confirm ack p =
     (if ack then p\<lparr>p2_confirmsCount := u64 (p2_confirmsCount p + 1)\<rparr>
      else p\<lparr>p2_nacksCount := u64 (p2_nacksCount p + 1)\<rparr>)"

text \<open>A second \<open>Close\<close> closes a closed channel and panics, which is the result \<open>None\<close>.\<close>

definition close2 :: "('c, 'h, 'w) amqp2_api \<Rightarrow> ('c, 'h) publisher2 \<Rightarrow> 'w
    \<Rightarrow> (goerr option \<times> ('c, 'h) publisher2 \<times> 'w) option" where
  "close2 api p w =
     (if p2_done p then None
      else let p' = p\<lparr>p2_done := True\<rparr>;
               w1 = (case p2_channel p of Some h \<Rightarrow> snd (a2_close_channel api h w) | None \<Rightarrow> w)
           in Some (case p2_conn p of
                Some c \<Rightarrow> let (e, w2) = a2_close_conn api c w1 in (e, p', w2)
              | None \<Rightarrow> (None, p', w1)))"

definition publisher_stats2 :: "('c, 'h) publisher2 \<Rightarrow> int \<times> int" where
  "publisher_stats2 p = (p2_publishCount p, p2_publishErrors p)"

definition confirm_stats2 :: "('c, 'h) publisher2 \<Rightarrow> int \<times> int" where
  "confirm_stats2 p = (p2_confirmsCount p, p2_nacksCount p)"

subsection \<open>The goroutines of a publisher\<close>

text \<open>
  \<open>PubSending\<close> holds \<open>publishMu\<close> with the channel it took; publishing on the nil channel panics.  A
  reconnection runs in the monitor's own goroutine (\<open>True\<close>) or in one of its own (\<open>False\<close>): before
  the test of \<open>reconnecting\<close>, in its loop with the next delay, after \<open>connect\<close> has succeeded, and
  before its deferred reset of \<open>reconnecting\<close>.
\<close>

datatype 'h pub_slot = PubIdle | PubSending 'h message2 | PubSent "goerr option" | PubPanic

datatype re_pc = MonWaiting | MonLost | ReEnter bool | ReLoop bool duration | ReSet bool | ReDone bool

fun in_reconnect :: "re_pc \<Rightarrow> bool" where
  "in_reconnect (ReLoop m d) \<longleftrightarrow> True"
| "in_reconnect (ReSet m) \<longleftrightarrow> True"
| "in_reconnect (ReDone m) \<longleftrightarrow> True"
| "in_reconnect _ \<longleftrightarrow> False"

fun of_monitor :: "re_pc \<Rightarrow> bool" where
  "of_monitor MonWaiting \<longleftrightarrow> True"
| "of_monitor MonLost \<longleftrightarrow> True"
| "of_monitor (ReEnter m) \<longleftrightarrow> m"
| "of_monitor (ReLoop m d) \<longleftrightarrow> m"
| "of_monitor (ReSet m) \<longleftrightarrow> m"
| "of_monitor (ReDone m) \<longleftrightarrow> m"

definition resume :: "bool \<Rightarrow> re_pc multiset \<Rightarrow> re_pc multiset" where
  "resume m T = (if m then add_mset MonWaiting T else T)"

text \<open>
  The state of all of them; \<open>ps_sent\<close> lists the messages given to the library with whether the call
  succeeded, \<open>ps_returned\<close> what the calls of \<open>Publish\<close> have returned.
\<close>

record ('c, 'h, 'w) pub_sys =
  ps_pub :: "('c, 'h) publisher2"
  ps_world :: 'w
  ps_slot :: "'h pub_slot"
  ps_threads :: "re_pc multiset"
  ps_sent :: "(message2 \<times> bool) list"
  ps_returned :: "goerr option list"

text \<open>\<open>notify\<close> says whether the library may report the loss of a connection.\<close>

inductive pub_action ::
    "('c, 'h, 'w) amqp2_api \<Rightarrow> bool \<Rightarrow> ('c, 'h, 'w) pub_sys \<Rightarrow> ('c, 'h, 'w) pub_sys \<Rightarrow> bool"
  for api notify where
  rejected: "ps_slot s = PubIdle \<Longrightarrow> publish_begin cam frame now (ps_pub s) = (Inl e, p) \<Longrightarrow>
    pub_action api notify s (s\<lparr>ps_pub := p, ps_returned := ps_returned s @ [Some e]\<rparr>)"
| begun: "ps_slot s = PubIdle \<Longrightarrow> publish_begin cam frame now (ps_pub s) = (Inr (Some h, m), p) \<Longrightarrow>
    pub_action api notify s (s\<lparr>ps_pub := p, ps_slot := PubSending h m\<rparr>)"
| no_channel: "ps_slot s = PubIdle \<Longrightarrow> publish_begin cam frame now (ps_pub s) = (Inr (None, m), p) \<Longrightarrow>
    pub_action api notify s (s\<lparr>ps_pub := p, ps_slot := PubPanic\<rparr>)"
| send: "ps_slot s = PubSending h m \<Longrightarrow> a2_publish api h m (ps_world s) = (r, w) \<Longrightarrow>
    pub_action api notify s (s\<lparr>ps_world := w, ps_slot := PubSent r, ps_sent := ps_sent s @ [(m, r = None)]\<rparr>)"
| finish: "ps_slot s = PubSent r \<Longrightarrow> publish_end r (ps_pub s) = (res, spawn, p) \<Longrightarrow>
    pub_action api notify s (s\<lparr>ps_pub := p, ps_slot := PubIdle, ps_returned := ps_returned s @ [res],
      ps_threads := (if spawn then add_mset (ReEnter False) (ps_threads s) else ps_threads s)\<rparr>)"
| lost: "notify \<Longrightarrow> ps_threads s = add_mset MonWaiting T \<Longrightarrow>
    pub_action api notify s (s\<lparr>ps_threads := add_mset MonLost T\<rparr>)"
| mark: "ps_threads s = add_mset MonLost T \<Longrightarrow>
    pub_action api notify s (s\<lparr>ps_pub := (ps_pub s)\<lparr>p2_connected := False\<rparr>, ps_threads := add_mset (ReEnter True) T\<rparr>)"
| busy: "ps_threads s = add_mset (ReEnter m) T \<Longrightarrow> p2_reconnecting (ps_pub s) \<Longrightarrow>
    pub_action api notify s (s\<lparr>ps_threads := resume m T\<rparr>)"
| enter: "ps_threads s = add_mset (ReEnter m) T \<Longrightarrow> \<not> p2_reconnecting (ps_pub s) \<Longrightarrow>
    pub_action api notify s (s\<lparr>ps_pub := (ps_pub s)\<lparr>p2_reconnecting := True\<rparr>,
      ps_threads := add_mset (ReLoop m (1 * second)) T\<rparr>)"
| give_up: "ps_threads s = add_mset (ReLoop m d) T \<Longrightarrow> p2_done (ps_pub s) \<Longrightarrow>
    pub_action api notify s (s\<lparr>ps_threads := add_mset (ReDone m) T\<rparr>)"
| retry: "ps_threads s = add_mset (ReLoop m d) T \<Longrightarrow> \<not> p2_done (ps_pub s) \<Longrightarrow>
    reconnect_round2 api (ps_pub s) (ps_world s) = (Some e, p, w) \<Longrightarrow>
    pub_action api notify s (s\<lparr>ps_pub := p, ps_world := w, ps_threads := add_mset (ReLoop m (next_reconnect_delay d)) T\<rparr>)"
| connected: "ps_threads s = add_mset (ReLoop m d) T \<Longrightarrow> \<not> p2_done (ps_pub s) \<Longrightarrow>
    reconnect_round2 api (ps_pub s) (ps_world s) = (None, p, w) \<Longrightarrow>
    pub_action api notify s (s\<lparr>ps_pub := p, ps_world := w, ps_threads := add_mset (ReSet m) T\<rparr>)"
| set: "ps_threads s = add_mset (ReSet m) T \<Longrightarrow>
    pub_action api notify s (s\<lparr>ps_pub := (ps_pub s)\<lparr>p2_connected := True\<rparr>, ps_threads := add_mset (ReDone m) T\<rparr>)"
| leave: "ps_threads s = add_mset (ReDone m) T \<Longrightarrow>
    pub_action api notify s (s\<lparr>ps_pub := (ps_pub s)\<lparr>p2_reconnecting := False\<rparr>, ps_threads := resume m T\<rparr>)"
| confirmed: "pub_action api notify s (s\<lparr>ps_pub := handle_confirm ack (ps_pub s)\<rparr>)"
| close: "close2 api (ps_pub s) (ps_world s) = Some (e, p, w) \<Longrightarrow>
    pub_action api notify s (s\<lparr>ps_pub := p, ps_world := w\<rparr>)"
| monitor_stops: "ps_threads s = add_mset MonWaiting T \<Longrightarrow> p2_done (ps_pub s) \<Longrightarrow>
    pub_action api notify s (s\<lparr>ps_threads := T\<rparr>)"

text \<open>A panic ends the process.\<close>

inductive pub_reach ::
    "('c, 'h, 'w) amqp2_api \<Rightarrow> bool \<Rightarrow> ('c, 'h, 'w) pub_sys \<Rightarrow> ('c, 'h, 'w) pub_sys \<Rightarrow> bool"
  for api notify s0 where
  here: "pub_reach api notify s0 s0"
| step: "pub_reach api notify s0 s \<Longrightarrow> ps_slot s \<noteq> PubPanic \<Longrightarrow> pub_action api notify s s' \<Longrightarrow>
    pub_reach api notify s0 s'"

definition pub_start :: "('c, 'h) publisher2 \<Rightarrow> 'w \<Rightarrow> ('c, 'h, 'w) pub_sys" where
  "pub_start p w = \<lparr>ps_pub = p, ps_world = w, ps_slot = PubIdle, ps_threads = {#MonWaiting#},
     ps_sent = [], ps_returned = []\<rparr>"

subsection \<open>What connecting changes\<close>

definition close_old :: "('c, 'h, 'w) amqp2_api \<Rightarrow> ('c, 'h) publisher2 \<Rightarrow> 'w \<Rightarrow> 'w" where
  "close_old api p w = (let w1 = (case p2_channel p of Some h \<Rightarrow> snd (a2_close_channel api h w) | None \<Rightarrow> w)
     in (case p2_conn p of Some c \<Rightarrow> snd (a2_close_conn api c w1) | None \<Rightarrow> w1))"

lemma reconnect_round2_eq: "reconnect_round2 api p w = connect2 api p (close_old api p w)"
  by (simp add: reconnect_round2_def close_old_def Let_def)

lemma close2_eq:
  "close2 api p w = Some (e, p', w') \<Longrightarrow> p' = p\<lparr>p2_done := True\<rparr> \<and> w' = close_old api p w \<and> \<not> p2_done p"
  by (auto simp: close2_def close_old_def Let_def split_beta split: if_splits option.splits)

text \<open>
  The ways a call of \<open>connect\<close> can end, with the calls of the library it has made: \<open>dialled\<close> gives
  the state after the connection was opened, and every failure after that closes it again.
\<close>

lemma connect2_cases [case_names refused no_channel closed connected]:
  assumes "connect2 api p w = (r, p', w')"
  obtains e w1 where "a2_dial api (p2_amqpURL p) w = (Inl e, w1)" "r \<noteq> None" "p' = p\<lparr>p2_conn := None\<rparr>" "w' = w1"
  | c w1 e w2 where "a2_dial api (p2_amqpURL p) w = (Inr c, w1)" "a2_channel api c w1 = (Inl e, w2)" "r \<noteq> None"
      "p' = p\<lparr>p2_conn := Some c, p2_channel := None\<rparr>" "w' = snd (a2_close_conn api c w2)"
  | c w1 h w2 w3 where "a2_dial api (p2_amqpURL p) w = (Inr c, w1)" "a2_channel api c w1 = (Inr h, w2)" "r \<noteq> None"
      "p' = p\<lparr>p2_conn := Some c, p2_channel := Some h\<rparr>" "w' = close_pair api h c w3"
      "w3 \<in> {snd (a2_declare api h (p2_exchange p) w2),
             snd (a2_qos api h (p2_prefetchCount p) (snd (a2_declare api h (p2_exchange p) w2))),
             snd (a2_confirm api h (snd (a2_qos api h (p2_prefetchCount p) (snd (a2_declare api h (p2_exchange p) w2)))))}"
  | c w1 h w2 where "a2_dial api (p2_amqpURL p) w = (Inr c, w1)" "a2_channel api c w1 = (Inr h, w2)" "r = None"
      "p' = p\<lparr>p2_conn := Some c, p2_channel := Some h\<rparr>"
      "w' = snd (a2_confirm api h (snd (a2_qos api h (p2_prefetchCount p) (snd (a2_declare api h (p2_exchange p) w2)))))"
proof -
  obtain rd w1 where d: "a2_dial api (p2_amqpURL p) w = (rd, w1)" by (rule prod.exhaust)
  show thesis
  proof (cases rd)
    case (Inl e)
    then show ?thesis using assms d that(1) by (auto simp: connect2_def)
  next
    case (Inr c)
    obtain rc w2 where o: "a2_channel api c w1 = (rc, w2)" by (rule prod.exhaust)
    show ?thesis
    proof (cases rc)
      case (Inl e)
      then show ?thesis using assms d o \<open>rd = Inr c\<close> that(2) by (auto simp: connect2_def)
    next
      case rc: (Inr h)
      obtain r3 w3 where 3: "a2_declare api h (p2_exchange p) w2 = (r3, w3)" by (rule prod.exhaust)
      obtain r4 w4 where 4: "a2_qos api h (p2_prefetchCount p) w3 = (r4, w4)" by (rule prod.exhaust)
      obtain r5 w5 where 5: "a2_confirm api h w4 = (r5, w5)" by (rule prod.exhaust)
      have "(r, p', w') = (case r3 of Some e \<Rightarrow> (Some (wrap_err ''falha ao declarar exchange: '' e),
            p\<lparr>p2_conn := Some c, p2_channel := Some h\<rparr>, close_pair api h c w3)
        | None \<Rightarrow> case r4 of Some e \<Rightarrow> (Some (wrap_err ''falha ao configurar QoS: '' e),
            p\<lparr>p2_conn := Some c, p2_channel := Some h\<rparr>, close_pair api h c w4)
        | None \<Rightarrow> case r5 of Some e \<Rightarrow> (Some (wrap_err ''falha ao habilitar publisher confirms: '' e),
            p\<lparr>p2_conn := Some c, p2_channel := Some h\<rparr>, close_pair api h c w5)
        | None \<Rightarrow> (None, p\<lparr>p2_conn := Some c, p2_channel := Some h\<rparr>, w5))"
        unfolding assms [symmetric] by (simp add: connect2_def d Inr o rc 3 4 5 split: option.splits)
      then have "r \<noteq> None \<and> p' = p\<lparr>p2_conn := Some c, p2_channel := Some h\<rparr>
          \<and> (w' = close_pair api h c w3 \<or> w' = close_pair api h c w4 \<or> w' = close_pair api h c w5)
        \<or> r = None \<and> p' = p\<lparr>p2_conn := Some c, p2_channel := Some h\<rparr> \<and> w' = w5"
        by (simp split: option.splits)
      moreover have "w3 = snd (a2_declare api h (p2_exchange p) w2)"
        "w4 = snd (a2_qos api h (p2_prefetchCount p) w3)" "w5 = snd (a2_confirm api h w4)"
        by (simp_all add: 3 4 5)
      ultimately show ?thesis using that(3) [of c w1 h w2] that(4) [of c w1 h w2] d o Inr rc by blast
    qed
  qed
qed

lemma connect2_frame:
  assumes "connect2 api p w = (r, p', w')"
  shows "p' = p\<lparr>p2_conn := p2_conn p', p2_channel := p2_channel p'\<rparr>"
  by (rule connect2_cases [OF assms]) simp_all

lemma handle_confirm_frame [simp]:
  "p2_reconnecting (handle_confirm a p) = p2_reconnecting p" "p2_connected (handle_confirm a p) = p2_connected p"
  "p2_done (handle_confirm a p) = p2_done p" "p2_channel (handle_confirm a p) = p2_channel p"
  "p2_conn (handle_confirm a p) = p2_conn p" "p2_publishCount (handle_confirm a p) = p2_publishCount p"
  "p2_publishErrors (handle_confirm a p) = p2_publishErrors p" "p2_exchange (handle_confirm a p) = p2_exchange p"
  "p2_routingKey (handle_confirm a p) = p2_routingKey p"
  by (simp_all add: handle_confirm_def)

lemma reconnect_round2_frame:
  assumes "reconnect_round2 api p w = (r, p', w')"
  shows "p2_reconnecting p' = p2_reconnecting p" "p2_connected p' = p2_connected p" "p2_done p' = p2_done p"
    "p2_publishCount p' = p2_publishCount p" "p2_publishErrors p' = p2_publishErrors p"
    "p2_exchange p' = p2_exchange p" "p2_routingKey p' = p2_routingKey p"
proof -
  obtain c h where "p' = p\<lparr>p2_conn := c, p2_channel := h\<rparr>"
    using connect2_frame [OF assms [unfolded reconnect_round2_eq]] by blast
  then show "p2_reconnecting p' = p2_reconnecting p" "p2_connected p' = p2_connected p" "p2_done p' = p2_done p"
    "p2_publishCount p' = p2_publishCount p" "p2_publishErrors p' = p2_publishErrors p"
    "p2_exchange p' = p2_exchange p" "p2_routingKey p' = p2_routingKey p"
    by simp_all
qed

lemmas publish_sides = publish_begin_def publish_end_def

subsection \<open>At most one reconnection\<close>

definition one_reconnection :: "('c, 'h, 'w) pub_sys \<Rightarrow> bool" where
  "one_reconnection s \<longleftrightarrow>
     size (filter_mset in_reconnect (ps_threads s)) = (if p2_reconnecting (ps_pub s) then 1 else 0)
   \<and> size (filter_mset of_monitor (ps_threads s)) \<le> 1"

lemma filter_resume [simp]:
  "filter_mset in_reconnect (resume m T) = filter_mset in_reconnect T"
  "filter_mset of_monitor (resume m T) = (if m then add_mset MonWaiting else id) (filter_mset of_monitor T)"
  by (simp_all add: resume_def)

lemma one_reconnection_step:
  assumes "pub_action api notify s s'" and "one_reconnection s"
  shows "one_reconnection s'"
  using assms(1)
proof cases
  case (retry m d T e p w)
  then show ?thesis using assms(2) reconnect_round2_frame(1) [OF retry(4)]
    by (simp add: one_reconnection_def split: if_splits)
next
  case (connected m d T p w)
  then show ?thesis using assms(2) reconnect_round2_frame(1) [OF connected(4)]
    by (simp add: one_reconnection_def split: if_splits)
next
  case (close e p w)
  then show ?thesis using assms(2) close2_eq [OF close(2)] by (simp add: one_reconnection_def)
next
  case (monitor_stops T)
  then have "size (filter_mset of_monitor T) \<le> size (filter_mset of_monitor (ps_threads s))"
    "filter_mset in_reconnect T = filter_mset in_reconnect (ps_threads s)" by simp_all
  then show ?thesis using assms(2) monitor_stops(1) unfolding one_reconnection_def by simp
qed (use assms(2) in \<open>auto simp: one_reconnection_def publish_sides split: if_splits option.splits\<close>)

subsection \<open>At most one connection\<close>

text \<open>
  The documented behaviour of the library, for a function \<open>live\<close> that gives the connections which are
  open: dialling opens the connection it returns, closing one closes it, and nothing else opens any.
\<close>

definition amqp2_live_laws :: "('c, 'h, 'w) amqp2_api \<Rightarrow> ('w \<Rightarrow> 'c set) \<Rightarrow> bool" where
  "amqp2_live_laws api live \<longleftrightarrow>
     (\<forall>url w c. fst (a2_dial api url w) = Inr c \<longrightarrow> live (snd (a2_dial api url w)) \<subseteq> insert c (live w))
   \<and> (\<forall>url w e. fst (a2_dial api url w) = Inl e \<longrightarrow> live (snd (a2_dial api url w)) \<subseteq> live w)
   \<and> (\<forall>c w. live (snd (a2_close_conn api c w)) \<subseteq> live w - {c})
   \<and> (\<forall>c w. live (snd (a2_channel api c w)) \<subseteq> live w) \<and> (\<forall>h x w. live (snd (a2_declare api h x w)) \<subseteq> live w)
   \<and> (\<forall>h n w. live (snd (a2_qos api h n w)) \<subseteq> live w) \<and> (\<forall>h w. live (snd (a2_confirm api h w)) \<subseteq> live w)
   \<and> (\<forall>h m w. live (snd (a2_publish api h m w)) \<subseteq> live w) \<and> (\<forall>h w. live (snd (a2_close_channel api h w)) \<subseteq> live w)"

lemma live_lawsD:
  assumes "amqp2_live_laws api live"
  shows "a2_dial api url w = (Inr c, w1) \<Longrightarrow> live w1 \<subseteq> insert c (live w)"
    and "a2_dial api url w = (Inl e, w1) \<Longrightarrow> live w1 \<subseteq> live w"
    and "live (snd (a2_close_conn api c w)) \<subseteq> live w - {c}"
    and "live (snd (a2_channel api c w)) \<subseteq> live w" and "live (snd (a2_declare api h x w)) \<subseteq> live w"
    and "live (snd (a2_qos api h n w)) \<subseteq> live w" and "live (snd (a2_confirm api h w)) \<subseteq> live w"
    and "live (snd (a2_publish api h m w)) \<subseteq> live w" and "live (snd (a2_close_channel api h w)) \<subseteq> live w"
  using assms unfolding amqp2_live_laws_def by (metis fst_conv snd_conv)+

lemma live_close_old:
  assumes "amqp2_live_laws api live"
  shows "live (close_old api p w) \<subseteq> live w - set_option (p2_conn p)"
  using live_lawsD(3) [OF assms] live_lawsD(9) [OF assms]
  by (cases "p2_channel p"; cases "p2_conn p") (fastforce simp: close_old_def)+

lemma live_close_pair:
  assumes "amqp2_live_laws api live"
  shows "live (close_pair api h c w) \<subseteq> live w - {c}"
  using live_lawsD(3) [OF assms] live_lawsD(9) [OF assms] unfolding close_pair_def by blast

text \<open>A failed connect leaves nothing open that was not open before.\<close>

lemma live_connect2:
  assumes "amqp2_live_laws api live" and "connect2 api p w = (r, p', w')"
  shows "live w' \<subseteq> live w \<union> (if r = None then set_option (p2_conn p') else {})"
  using assms(2)
proof (cases rule: connect2_cases)
  case (refused e w1)
  then show ?thesis using live_lawsD(2) [OF assms(1)] by auto
next
  case (no_channel c w1 e w2)
  have "live w1 \<subseteq> insert c (live w)" "live w2 \<subseteq> live w1" "live w' \<subseteq> live w2 - {c}"
    using live_lawsD(1) [OF assms(1) no_channel(1)] live_lawsD(4) [OF assms(1), of c w1]
      live_lawsD(3) [OF assms(1), of c w2] no_channel by simp_all
  then show ?thesis by auto
next
  case (closed c w1 h w2 w3)
  have "live w1 \<subseteq> insert c (live w)" "live w2 \<subseteq> live w1" "live w3 \<subseteq> live w2"
    using live_lawsD(1) [OF assms(1) closed(1)] live_lawsD(4) [OF assms(1), of c w1]
      live_lawsD(5-7) [OF assms(1)] closed(2,6) by (auto, blast+)
  then show ?thesis using live_close_pair [OF assms(1), of h c w3] closed(5) by auto
next
  case (connected c w1 h w2)
  have "live w1 \<subseteq> insert c (live w)" "live w2 \<subseteq> live w1" "live w' \<subseteq> live w2"
    using live_lawsD(1) [OF assms(1) connected(1)] live_lawsD(4) [OF assms(1), of c w1]
      live_lawsD(5-7) [OF assms(1)] connected(2,5) by (auto, blast+)
  then show ?thesis using connected(3,4) by auto
qed

definition single_connection :: "('w \<Rightarrow> 'c set) \<Rightarrow> ('c, 'h) publisher2 \<Rightarrow> 'w \<Rightarrow> bool" where
  "single_connection live p w \<longleftrightarrow> live w \<subseteq> set_option (p2_conn p)"

lemma single_reconnect:
  assumes "amqp2_live_laws api live" and "single_connection live p w"
    and "reconnect_round2 api p w = (r, p', w')"
  shows "single_connection live p' w'" and "r \<noteq> None \<Longrightarrow> live w' = {}"
  using live_connect2 [OF assms(1) assms(3) [unfolded reconnect_round2_eq]]
    live_close_old [OF assms(1), of p w] assms(2)
  by (auto simp: single_connection_def split: if_splits)

lemma single_connect_rounds:
  assumes "amqp2_live_laws api live" and "connect_rounds api n d p w = (ok, sleeps, p', w')" and "live w = {}"
  shows "live w' \<subseteq> (if ok then set_option (p2_conn p') else {})"
  using assms(2,3)
proof (induction n arbitrary: d p w sleeps)
  case (Suc n)
  obtain r p1 w1 where c: "connect2 api p w = (r, p1, w1)" by (rule prod_cases3)
  note l = live_connect2 [OF assms(1) c]
  show ?case
  proof (cases r)
    case None
    then show ?thesis using l c Suc.prems by auto
  next
    case (Some e)
    obtain sl where "connect_rounds api n (next_connect_delay d) p1 w1 = (ok, sl, p', w')"
      using Suc.prems(1) c Some by (auto split: prod.splits)
    then show ?thesis using Suc.IH l Some Suc.prems(2) by simp
  qed
qed simp

lemma connect_rounds_frame:
  "connect_rounds api n d p w = (ok, sleeps, p', w') \<Longrightarrow>
    p' = p\<lparr>p2_conn := p2_conn p', p2_channel := p2_channel p', p2_connected := ok \<or> p2_connected p\<rparr>"
proof (induction n arbitrary: d p w sleeps)
  case (Suc n)
  obtain r p1 w1 where c: "connect2 api p w = (r, p1, w1)" by (rule prod_cases3)
  obtain u h where p1: "p1 = p\<lparr>p2_conn := u, p2_channel := h\<rparr>" using connect2_frame [OF c] by blast
  show ?case
  proof (cases r)
    case None
    then show ?thesis using c p1 Suc.prems by auto
  next
    case (Some e)
    obtain sl where "connect_rounds api n (next_connect_delay d) p1 w1 = (ok, sl, p', w')"
      using Suc.prems c Some by (auto split: prod.splits)
    from Suc.IH [OF this] show ?thesis by (simp add: p1)
  qed
qed simp

lemma new_publisher2_rounds:
  fixes api :: "('a, 'b, 'w) amqp2_api"
  assumes "new_publisher2 api url x k n w = (Inr p, sleeps, w')"
  shows "\<exists>p0. connect_rounds api 10 (5 * second) p0 w = (True, sleeps, p, w')
    \<and> p = p0\<lparr>p2_conn := p2_conn p, p2_channel := p2_channel p, p2_connected := True\<rparr>
    \<and> p2_publishCount p0 = 0 \<and> p2_publishErrors p0 = 0 \<and> \<not> p2_reconnecting p0 \<and> \<not> p2_done p0
    \<and> p2_exchange p0 = x \<and> p2_routingKey p0 = k"
proof -
  define p0 :: "('a, 'b) publisher2" where "p0 = \<lparr>p2_amqpURL = url, p2_conn = None, p2_channel = None,
    p2_exchange = x, p2_routingKey = k, p2_prefetchCount = n, p2_publishCount = 0, p2_publishErrors = 0,
    p2_reconnecting = False, p2_connected = False, p2_confirmsCount = 0, p2_nacksCount = 0, p2_done = False\<rparr>"
  obtain ok sl p1 w1 where c: "connect_rounds api (nat 10) (5 * second) p0 w = (ok, sl, p1, w1)"
    by (rule prod_cases4)
  have "new_publisher2 api url x k n w = (if ok then (Inr p1, sl, w1) else
      (fst (new_publisher2 api url x k n w), sl, w1)) \<and> (\<not> ok \<longrightarrow> isl (fst (new_publisher2 api url x k n w)))"
    unfolding new_publisher2_def connect_with_retry_def Let_def p0_def [symmetric] c by (cases ok) simp_all
  then have eq: "ok" "p = p1" "w' = w1" "sleeps = sl" using assms by (auto split: if_splits)
  from connect_rounds_frame [OF c] c show ?thesis unfolding eq(2-4) using eq(1)
    by (intro exI [of _ p0]) (simp add: p0_def)
qed

lemma new_publisher2_state:
  assumes "new_publisher2 api url x k n w = (Inr p, sleeps, w')"
  shows "p2_connected p" "\<not> p2_reconnecting p" "\<not> p2_done p" "p2_publishCount p = 0" "p2_publishErrors p = 0"
    "p2_exchange p = x" "p2_routingKey p = k"
proof -
  obtain p0 where "p = p0\<lparr>p2_conn := p2_conn p, p2_channel := p2_channel p, p2_connected := True\<rparr>"
    "p2_publishCount p0 = 0" "p2_publishErrors p0 = 0" "\<not> p2_reconnecting p0" "\<not> p2_done p0"
    "p2_exchange p0 = x" "p2_routingKey p0 = k" using new_publisher2_rounds [OF assms] by blast
  then obtain c h where p: "p = p0\<lparr>p2_conn := c, p2_channel := h, p2_connected := True\<rparr>" and p0:
    "p2_publishCount p0 = 0" "p2_publishErrors p0 = 0" "\<not> p2_reconnecting p0" "\<not> p2_done p0"
    "p2_exchange p0 = x" "p2_routingKey p0 = k" by blast
  then show "p2_connected p" "\<not> p2_reconnecting p" "\<not> p2_done p" "p2_publishCount p = 0" "p2_publishErrors p = 0"
    "p2_exchange p = x" "p2_routingKey p = k" unfolding p by simp_all
qed

lemma single_new:
  assumes "amqp2_live_laws api live" and "new_publisher2 api url x k n w = (Inr p, sleeps, w')" and "live w = {}"
  shows "single_connection live p w'"
proof -
  obtain p0 where "connect_rounds api 10 (5 * second) p0 w = (True, sleeps, p, w')"
    using new_publisher2_rounds [OF assms(2)] by blast
  then show ?thesis using single_connect_rounds [OF assms(1) _ assms(3)] by (fastforce simp: single_connection_def)
qed

lemma single_connection_step:
  assumes "amqp2_live_laws api live" and "pub_action api notify s s'"
    and "single_connection live (ps_pub s) (ps_world s)"
  shows "single_connection live (ps_pub s') (ps_world s')"
  using assms(2)
proof cases
  case (retry m d T e p w)
  then show ?thesis using single_reconnect(1) [OF assms(1,3) retry(4)] by simp
next
  case (connected m d T p w)
  then show ?thesis using single_reconnect(1) [OF assms(1,3) connected(4)] by simp
next
  case (close e p w)
  have "live (close_old api (ps_pub s) (ps_world s)) \<subseteq> live (ps_world s)"
    using live_close_old [OF assms(1)] by blast
  then show ?thesis using assms(3) close2_eq [OF close(2)] close(1) by (auto simp: single_connection_def)
next
  case (send h m r w)
  then show ?thesis using assms(3) live_lawsD(8) [OF assms(1), of h m "ps_world s"]
    by (auto simp: single_connection_def)
qed (use assms(3) in \<open>auto simp: single_connection_def publish_sides split: if_splits option.splits\<close>)

lemma pub_reach_inv:
  assumes "pub_reach api notify s0 s" and "P s0"
    and "\<And>s s'. pub_action api notify s s' \<Longrightarrow> P s \<Longrightarrow> P s'"
  shows "P s"
  using assms by induction auto

lemma pub_start_simps [simp]:
  "ps_pub (pub_start p w) = p" "ps_world (pub_start p w) = w" "ps_slot (pub_start p w) = PubIdle"
  "ps_threads (pub_start p w) = {#MonWaiting#}" "ps_sent (pub_start p w) = []" "ps_returned (pub_start p w) = []"
  by (simp_all add: pub_start_def)

text \<open>C14: A publisher never holds more than one connection: from its construction on, whatever calls of
  Publish, losses of the connection, failures and closings are interleaved, the connections that
  are open are at most the one it refers to, and at most one goroutine is in the reconnection loop,
  exactly when the flag reconnecting is set.\<close>

theorem one_open_connection:
  assumes "amqp2_live_laws api live" and "new_publisher2 api url x k n w = (Inr p, sleeps, w')" and "live w = {}"
    and "pub_reach api notify (pub_start p w') s"
  shows "live (ps_world s) \<subseteq> set_option (p2_conn (ps_pub s))
    \<and> size (filter_mset in_reconnect (ps_threads s)) = (if p2_reconnecting (ps_pub s) then 1 else 0)"
proof -
  have "single_connection live (ps_pub s) (ps_world s)"
    using pub_reach_inv [OF assms(4), of "\<lambda>s. single_connection live (ps_pub s) (ps_world s)"]
      single_connection_step [OF assms(1)] single_new [OF assms(1-3)] by simp
  moreover have "one_reconnection (pub_start p w')"
    using new_publisher2_state(2) [OF assms(2)] by (simp add: one_reconnection_def)
  then have "one_reconnection s"
    by (rule pub_reach_inv [OF assms(4)]) (rule one_reconnection_step)
  ultimately show ?thesis by (simp add: single_connection_def one_reconnection_def)
qed

subsection \<open>Deliveries and counters\<close>

text \<open>
  For a function \<open>log\<close> that lists the messages written to the broker's connections: a publication
  that succeeds was written once, one that fails at most once, and no other call writes any.
\<close>

definition amqp2_log_laws :: "('c, 'h, 'w) amqp2_api \<Rightarrow> ('w \<Rightarrow> message2 list) \<Rightarrow> bool" where
  "amqp2_log_laws api log \<longleftrightarrow>
     (\<forall>url w. log (snd (a2_dial api url w)) = log w) \<and> (\<forall>c w. log (snd (a2_channel api c w)) = log w)
   \<and> (\<forall>h x w. log (snd (a2_declare api h x w)) = log w) \<and> (\<forall>h n w. log (snd (a2_qos api h n w)) = log w)
   \<and> (\<forall>h w. log (snd (a2_confirm api h w)) = log w) \<and> (\<forall>h w. log (snd (a2_close_channel api h w)) = log w)
   \<and> (\<forall>c w. log (snd (a2_close_conn api c w)) = log w)
   \<and> (\<forall>h m w. fst (a2_publish api h m w) = None \<longrightarrow> log (snd (a2_publish api h m w)) = log w @ [m])
   \<and> (\<forall>h m w. log (snd (a2_publish api h m w)) \<in> {log w, log w @ [m]})"

lemma log_close_old:
  assumes "amqp2_log_laws api log"
  shows "log (close_old api p w) = log w"
  using assms by (cases "p2_channel p"; cases "p2_conn p") (simp_all add: amqp2_log_laws_def close_old_def)

lemma log_reconnect:
  assumes "amqp2_log_laws api log" and "reconnect_round2 api p w = (r, p', w')"
  shows "log w' = log w"
proof -
  have l: "log (snd (a2_channel api c v)) = log v" "log (snd (a2_declare api h x v)) = log v"
    "log (snd (a2_qos api h n v)) = log v" "log (snd (a2_confirm api h v)) = log v"
    "log (close_pair api h c v) = log v" "log (snd (a2_close_conn api c v)) = log v"
    "log (snd (a2_dial api url v)) = log v" for c h x n v url
    using assms(1) by (auto simp: amqp2_log_laws_def close_pair_def)
  have d: "a2_dial api url v = (r1, v1) \<Longrightarrow> log v1 = log v" "a2_channel api c v = (r2, v1) \<Longrightarrow> log v1 = log v"
    for url c v r1 r2 v1 using l(1,7) by (metis snd_conv)+
  from assms(2) have "connect2 api p (close_old api p w) = (r, p', w')" by (simp add: reconnect_round2_eq)
  then have "log w' = log (close_old api p w)"
    by (rule connect2_cases) (auto simp: l dest!: d)
  then show ?thesis by (simp add: log_close_old [OF assms(1)])
qed

definition frame_message2 :: "('c, 'h) publisher2 \<Rightarrow> message2 \<Rightarrow> bool" where
  "frame_message2 p m \<longleftrightarrow> m2_exchange m = p2_exchange p \<and> m2_routingKey m = p2_routingKey p
     \<and> m2_contentType m = ''application/octet-stream'' \<and> \<not> m2_persistent m"

text \<open>
  What is kept of the messages, from the log \<open>base\<close> at the start on, and of the counters; \<open>x\<close> and \<open>k\<close>
  are the target.
\<close>

definition logged :: "('w \<Rightarrow> message2 list) \<Rightarrow> message2 list \<Rightarrow> ('c, 'h, 'w) pub_sys \<Rightarrow> bool" where
  "logged log base s \<longleftrightarrow> (\<exists>L. log (ps_world s) = base @ L
     \<and> subseq (map fst (filter snd (ps_sent s))) L \<and> subseq L (map fst (ps_sent s)))"

definition oks :: "goerr option list \<Rightarrow> nat" where
  "oks rs = length (filter (\<lambda>r. r = None) rs)"

definition counted :: "string \<Rightarrow> string \<Rightarrow> ('c, 'h, 'w) pub_sys \<Rightarrow> bool" where
  "counted x k s \<longleftrightarrow>
     length (filter snd (ps_sent s)) = oks (ps_returned s) + (if ps_slot s = PubSent None then 1 else 0)
   \<and> p2_publishCount (ps_pub s) = u64 (int (oks (ps_returned s)))
   \<and> p2_publishErrors (ps_pub s) = u64 (int (length (ps_returned s)) - int (oks (ps_returned s)))
   \<and> p2_exchange (ps_pub s) = x \<and> p2_routingKey (ps_pub s) = k
   \<and> (\<forall>m \<in> fst ` set (ps_sent s). frame_message2 (ps_pub s) m)
   \<and> (\<forall>h m. ps_slot s = PubSending h m \<longrightarrow> frame_message2 (ps_pub s) m)"

lemma oks_simps [simp]: "oks [] = 0" "oks (rs @ [r]) = oks rs + (if r = None then 1 else 0)"
  by (simp_all add: oks_def)

lemma counted_cong:
  assumes "counted x k s"
    and "ps_sent s' = ps_sent s" "ps_returned s' = ps_returned s" "ps_slot s' = ps_slot s"
    and "p2_publishCount (ps_pub s') = p2_publishCount (ps_pub s)"
    and "p2_publishErrors (ps_pub s') = p2_publishErrors (ps_pub s)"
    and "p2_exchange (ps_pub s') = p2_exchange (ps_pub s)" "p2_routingKey (ps_pub s') = p2_routingKey (ps_pub s)"
  shows "counted x k s'"
  using assms by (simp add: counted_def frame_message2_def)

lemma logged_send:
  assumes "amqp2_log_laws api log" and "a2_publish api h m (ps_world s) = (r, w)" and "logged log base s"
    and "ps_world s' = w" "ps_sent s' = ps_sent s @ [(m, r = None)]"
  shows "logged log base s'"
proof -
  obtain L where L: "log (ps_world s) = base @ L" "subseq (map fst (filter snd (ps_sent s))) L"
    "subseq L (map fst (ps_sent s))" using assms(3) by (auto simp: logged_def)
  have w: "log w \<in> {log (ps_world s), log (ps_world s) @ [m]}" "r = None \<longrightarrow> log w = log (ps_world s) @ [m]"
    using assms(1,2) unfolding amqp2_log_laws_def by (metis fst_conv snd_conv)+
  let ?L = "if log w = log (ps_world s) then L else L @ [m]"
  have "log w = base @ ?L" using w(1) L(1) by auto
  moreover have "subseq (map fst (filter snd (ps_sent s @ [(m, r = None)]))) ?L"
    using w L by (auto intro: list_emb_append_mono subseq_rev_drop_many)
  moreover have "subseq ?L (map fst (ps_sent s @ [(m, r = None)]))"
    using L(3) by (auto intro: list_emb_append_mono list_emb_append2)
  ultimately show ?thesis unfolding logged_def assms(4,5) by blast
qed

lemma logged_step:
  assumes "amqp2_log_laws api log" and "pub_action api notify s s'" and "logged log base s"
  shows "logged log base s'"
  using assms(2)
proof cases
  case (send h m r w)
  show ?thesis by (rule logged_send [OF assms(1) send(3) assms(3)]) (simp_all add: send(1))
next
  case (retry m d T e p w)
  then show ?thesis using assms(3) log_reconnect [OF assms(1) retry(4)] by (simp add: logged_def)
next
  case (connected m d T p w)
  then show ?thesis using assms(3) log_reconnect [OF assms(1) connected(4)] by (simp add: logged_def)
next
  case (close e p w)
  then show ?thesis using assms(3) close2_eq [OF close(2)] log_close_old [OF assms(1)] by (simp add: logged_def)
qed (use assms(3) in \<open>simp_all add: logged_def\<close>)

lemma counted_step:
  assumes "pub_action api notify s s'" and "counted x k s"
  shows "counted x k s'"
  using assms(1)
proof cases
  case (send h m r w)
  then show ?thesis using assms(2) by (auto simp: counted_def frame_message2_def)
next
  case (finish r res spawn p)
  then show ?thesis using assms(2)
    by (cases r) (auto simp: counted_def publish_end_def frame_message2_def algebra_simps)
next
  case (rejected cam frame now e p)
  then show ?thesis using assms(2)
    by (auto simp: counted_def publish_begin_def frame_message2_def algebra_simps split: if_splits)
next
  case (begun cam frame now h m p)
  then show ?thesis using assms(2)
    by (auto simp: counted_def publish_begin_def frame_message2_def split: if_splits)
next
  case (no_channel cam frame now m p)
  then show ?thesis using assms(2) by (simp add: counted_def publish_begin_def frame_message2_def split: if_splits)
next
  case (retry m d T e p w)
  then show ?thesis using reconnect_round2_frame [OF retry(4)] by (intro counted_cong [OF assms(2)]) simp_all
next
  case (connected m d T p w)
  then show ?thesis using reconnect_round2_frame [OF connected(4)] by (intro counted_cong [OF assms(2)]) simp_all
next
  case (close e p w)
  then show ?thesis using close2_eq [OF close(2)] by (intro counted_cong [OF assms(2)]) simp_all
qed (intro counted_cong [OF assms(2)]; simp)+

text \<open>C26: What is sent to the broker and what the callers are told agree: in every reachable state the
  messages written since the start are, in order, among those given to the library and include all
  whose call succeeded; as many calls of Publish have returned no error as publications succeeded
  (but for one that is about to return), the two counters count both outcomes modulo 2^64, and
  every message carries the publisher's exchange and routing key and is transient.\<close>

theorem publisher_accounts:
  assumes "amqp2_log_laws api log" and "new_publisher2 api url x k n w = (Inr p, sleeps, w')"
    and "pub_reach api notify (pub_start p w') s"
  shows "(\<exists>L. log (ps_world s) = log w' @ L
      \<and> subseq (map fst (filter snd (ps_sent s))) L \<and> subseq L (map fst (ps_sent s)))
    \<and> length (filter snd (ps_sent s)) = oks (ps_returned s) + (if ps_slot s = PubSent None then 1 else 0)
    \<and> publisher_stats2 (ps_pub s) = (u64 (int (oks (ps_returned s))),
        u64 (int (length (ps_returned s)) - int (oks (ps_returned s))))
    \<and> (\<forall>m \<in> fst ` set (ps_sent s). m2_exchange m = x \<and> m2_routingKey m = k \<and> \<not> m2_persistent m)"
proof -
  have "logged log (log w') (pub_start p w')" by (simp add: logged_def)
  then have "logged log (log w') s"
    by (rule pub_reach_inv [OF assms(3)]) (rule logged_step [OF assms(1)])
  moreover have "counted x k (pub_start p w')"
    using new_publisher2_state [OF assms(2)] by (simp add: counted_def)
  then have "counted x k s" by (rule pub_reach_inv [OF assms(3)]) (rule counted_step)
  ultimately show ?thesis by (auto simp: logged_def counted_def publisher_stats2_def frame_message2_def)
qed

subsection \<open>A lost reconnection\<close>

text \<open>No connection as far as the flag says, and nobody who would change that.\<close>

definition stranded :: "goerr option list \<Rightarrow> ('c, 'h, 'w) pub_sys \<Rightarrow> bool" where
  "stranded rs s \<longleftrightarrow> \<not> p2_connected (ps_pub s) \<and> ps_slot s = PubIdle \<and> ps_threads s \<in> {{#}, {#MonWaiting#}}
     \<and> (\<exists>n. ps_returned s = rs @ replicate n (Some not_connected_error))"

lemma stranded_thread: "stranded rs s \<Longrightarrow> ps_threads s = add_mset t T \<Longrightarrow> t = MonWaiting \<and> T = {#}"
  by (auto simp: stranded_def)

lemma stranded_step:
  assumes "pub_action api False s s'" and "stranded rs s"
  shows "stranded rs s'"
  using assms(1)
proof cases
  case (rejected cam frame now e p)
  then have "e = not_connected_error" "\<not> p2_connected p"
    using assms(2) by (auto simp: stranded_def publish_begin_def split: if_splits)
  moreover have "\<exists>n'. (rs @ replicate n (Some e)) @ [Some e] = rs @ replicate n' (Some e)" for n
    by (rule exI [of _ "Suc n"]) (simp add: replicate_append_same)
  ultimately show ?thesis using assms(2) rejected(1) by (auto simp: stranded_def)
next
  case (close e p w)
  then show ?thesis using assms(2) close2_eq [OF close(2)] by (simp add: stranded_def)
next
  case (monitor_stops T)
  then show ?thesis using assms(2) stranded_thread [OF assms(2) monitor_stops(2)] by (simp add: stranded_def)
next
  case (confirmed ack)
  then show ?thesis using assms(2) by (simp add: stranded_def)
qed (use assms(2) stranded_thread [OF assms(2)] in \<open>(force simp: stranded_def publish_begin_def split: if_splits)+\<close>)

lemma pub_go:
  "pub_reach api notify s0 s \<Longrightarrow> ps_slot s \<noteq> PubPanic \<Longrightarrow> pub_action api notify s s' \<Longrightarrow> s' = t \<Longrightarrow>
    pub_reach api notify s0 t"
  by (blast intro: step)

text \<open>A reconnection can be lost: a failed publication starts a reconnection, which succeeds; before it
  clears reconnecting the monitor reports the loss of the old connection, marks the publisher as
  disconnected and finds a reconnection under way.  From there on, until the library reports
  another loss, nothing ever connects again: every further call of Publish fails although the new
  connection is open.\<close>

theorem publisher_can_be_stranded:
  assumes "p2_connected p" "p2_channel p = Some h" "\<not> p2_reconnecting p" "\<not> p2_done p"
    and "publish_begin cam frame now p = (Inr (Some h, m), p)" and "a2_publish api h m w = (Some e, w1)"
    and "\<And>p w. fst (reconnect_round2 api p w) = None"
  shows "\<exists>s. pub_reach api True (pub_start p w) s \<and> \<not> p2_done (ps_pub s)
    \<and> (\<exists>p1 w1. reconnect_round2 api p1 w1 = (None, (ps_pub s)\<lparr>p2_reconnecting := True\<rparr>, ps_world s))
    \<and> (\<forall>s'. pub_reach api False s s' \<longrightarrow> \<not> p2_connected (ps_pub s')
         \<and> (\<exists>n. ps_returned s' = ps_returned s @ replicate n (Some not_connected_error)))"
proof -
  obtain r q where r: "publish_end (Some e) p = (r, True, q)" and q: "\<not> p2_connected q"
      "\<not> p2_reconnecting q" "\<not> p2_done q" using assms(1-4) by (auto simp: publish_end_def)
  obtain q1 w2 where q1: "reconnect_round2 api (q\<lparr>p2_reconnecting := True\<rparr>) w1 = (None, q1, w2)"
    using assms(7) [of "q\<lparr>p2_reconnecting := True\<rparr>" w1] by (metis prod.collapse)
  note f = reconnect_round2_frame [OF q1]
  let ?S = "\<lambda>q v sl T sn rt. \<lparr>ps_pub = q, ps_world = v, ps_slot = sl, ps_threads = T, ps_sent = sn, ps_returned = rt\<rparr>"
  let ?q4 = "q\<lparr>p2_reconnecting := True\<rparr>" and ?q6 = "q1\<lparr>p2_connected := True\<rparr>"
    and ?q8 = "q1\<lparr>p2_connected := False\<rparr>" and ?q10 = "q1\<lparr>p2_connected := False, p2_reconnecting := False\<rparr>"
    and ?M = "{#MonWaiting#}" and ?ms = "[(m, False)]"
  have 0: "pub_reach api True (pub_start p w) (?S p w PubIdle ?M [] [])"
    unfolding pub_start_def by (rule here)
  have 1: "pub_reach api True (pub_start p w) (?S p w (PubSending h m) ?M [] [])"
    by (rule pub_go [OF 0 _ begun [of _ cam frame now h m p]]) (simp_all add: assms(5))
  have 2: "pub_reach api True (pub_start p w) (?S p w1 (PubSent (Some e)) ?M ?ms [])"
    by (rule pub_go [OF 1 _ send [of _ h m _ "Some e" w1]]) (simp_all add: assms(6))
  have 3: "pub_reach api True (pub_start p w) (?S q w1 PubIdle (add_mset (ReEnter False) ?M) ?ms [r])"
    by (rule pub_go [OF 2 _ finish [of _ "Some e" r True q]]) (simp_all add: r)
  have 4: "pub_reach api True (pub_start p w) (?S ?q4 w1 PubIdle (add_mset (ReLoop False (1 * second)) ?M) ?ms [r])"
    by (rule pub_go [OF 3 _ enter [of _ False ?M]]) (simp_all add: q)
  have 5: "pub_reach api True (pub_start p w) (?S q1 w2 PubIdle (add_mset (ReSet False) ?M) ?ms [r])"
    by (rule pub_go [OF 4 _ pub_action.connected [of _ False "1 * second" ?M _ q1 w2]]) (simp_all add: q q1)
  have 6: "pub_reach api True (pub_start p w) (?S ?q6 w2 PubIdle (add_mset (ReDone False) ?M) ?ms [r])"
    by (rule pub_go [OF 5 _ pub_action.set [of _ False ?M]]) simp_all
  have 7: "pub_reach api True (pub_start p w) (?S ?q6 w2 PubIdle {#MonLost, ReDone False#} ?ms [r])"
    by (rule pub_go [OF 6 _ lost [of _ _ "{#ReDone False#}"]]) (simp_all add: add_mset_commute)
  have 8: "pub_reach api True (pub_start p w) (?S ?q8 w2 PubIdle {#ReEnter True, ReDone False#} ?ms [r])"
    by (rule pub_go [OF 7 _ mark [of _ "{#ReDone False#}"]]) simp_all
  have 9: "pub_reach api True (pub_start p w) (?S ?q8 w2 PubIdle (add_mset (ReDone False) ?M) ?ms [r])"
    by (rule pub_go [OF 8 _ busy [of _ True "{#ReDone False#}"]]) (simp_all add: f resume_def add_mset_commute)
  have 10: "pub_reach api True (pub_start p w) (?S ?q10 w2 PubIdle ?M ?ms [r])"
    by (rule pub_go [OF 9 _ leave [of _ False ?M]]) (simp_all add: resume_def)
  let ?s = "?S ?q10 w2 PubIdle ?M ?ms [r]"
  have "?q10\<lparr>p2_reconnecting := True\<rparr> = q1" using f(1,2) q by (cases q1) simp
  then have "reconnect_round2 api ?q4 w1 = (None, (ps_pub ?s)\<lparr>p2_reconnecting := True\<rparr>, ps_world ?s)"
    using q1 by simp
  moreover have "stranded [r] ?s" by (auto simp: stranded_def intro: exI [of _ 0])
  then have "stranded [r] s'" if "pub_reach api False ?s s'" for s'
    by (rule pub_reach_inv [OF that]) (rule stranded_step)
  ultimately show ?thesis using 10 f(3) q(3) by (intro exI [of _ ?s]) (auto simp: stranded_def)
qed

subsection \<open>The waits\<close>

lemma connect_rounds_sleeps:
  "connect_rounds api n d p w = (ok, sleeps, p', w') \<Longrightarrow>
    sleeps = map (\<lambda>i. (next_connect_delay ^^ i) d) [0..<length sleeps] \<and> (if ok then length sleeps < n else length sleeps = n)"
proof (induction n arbitrary: d p w sleeps)
  case (Suc n)
  obtain r p1 w1 where c: "connect2 api p w = (r, p1, w1)" by (rule prod_cases3)
  show ?case
  proof (cases r)
    case None
    then show ?thesis using c Suc.prems by auto
  next
    case (Some e)
    obtain sl where sl: "connect_rounds api n (next_connect_delay d) p1 w1 = (ok, sl, p', w')" "sleeps = d # sl"
      using Suc.prems c Some by (auto split: prod.splits)
    have "map (\<lambda>i. (next_connect_delay ^^ i) d) [0..<Suc (length sl)] =
        d # map (\<lambda>i. (next_connect_delay ^^ i) (next_connect_delay d)) [0..<length sl]"
      by (simp only: upt_conv_Cons [of 0] zero_less_Suc list.map map_Suc_upt [symmetric] map_map o_def
          funpow_Suc_right funpow_0 comp_apply)
    then show ?thesis using Suc.IH [OF sl(1)] sl(2) by (auto split: if_splits)
  qed
qed simp

lemma connect_delays:
  "map (\<lambda>i. (next_connect_delay ^^ i) (5 * second)) [0..<10] =
    [5 * second, 10 * second, 20 * second] @ replicate 7 (30 * second)"
  by (simp add: upt_rec eval_nat_numeral next_connect_delay_def)

text \<open>C27: The construction of a publisher returns: it makes at most ten attempts to connect, waits 5, 10,
  20 and then 30 seconds after each that fails (also after the tenth, before it returns the
  error), and so at most 245 seconds in all.\<close>

theorem new_publisher2_waits:
  assumes "new_publisher2 api url x k n w = (r, sleeps, w')"
  shows "sleeps = take (length sleeps) ([5 * second, 10 * second, 20 * second] @ replicate 7 (30 * second))
    \<and> (if isl r then length sleeps = 10 else length sleeps < 10) \<and> sum_list sleeps \<le> 245 * second"
proof -
  obtain ok p0 p1 where c: "connect_rounds api 10 (5 * second) p0 w = (ok, sleeps, p1, w')" "isl r = (\<not> ok)"
    using assms unfolding new_publisher2_def connect_with_retry_def Let_def
    by (simp split: prod.splits bool.splits option.splits) auto
  let ?D = "[5 * second, 10 * second, 20 * second] @ replicate 7 (30 * second)"
  have len: "if ok then length sleeps < 10 else length sleeps = 10"
    and sl: "sleeps = map (\<lambda>i. (next_connect_delay ^^ i) (5 * second)) [0..<length sleeps]"
    using connect_rounds_sleeps [OF c(1)] by auto
  have le: "length sleeps \<le> 10" using len by (auto split: if_splits)
  have "take (length sleeps) [0..<10] = [0..<length sleeps]" using le by (simp add: take_upt)
  then have t: "sleeps = take (length sleeps) ?D"
    using sl connect_delays by (metis take_map)
  have "sum_list ?D = sum_list (take (length sleeps) ?D) + sum_list (drop (length sleeps) ?D)"
    by (metis append_take_drop_id sum_list_append)
  moreover have "0 \<le> sum_list (drop (length sleeps) ?D)"
    by (rule sum_list_nonneg) (auto dest!: in_set_dropD)
  ultimately have "sum_list sleeps \<le> sum_list ?D" using t by simp
  then show ?thesis using t len c(2) by (auto simp: sum_list_replicate)
qed

subsection \<open>A broker in memory\<close>

text \<open>It numbers its connections, loses the first publications (as many as it is told) and takes the rest.\<close>

definition memory_broker2 :: "(nat, unit, nat \<times> nat set \<times> nat \<times> message2 list) amqp2_api" where
  "memory_broker2 = \<lparr>
     a2_dial = (\<lambda>u (n, L, f, ms). (Inr n, (Suc n, insert n L, f, ms))), a2_channel = (\<lambda>c w. (Inr (), w)),
     a2_declare = (\<lambda>h x w. (None, w)), a2_qos = (\<lambda>h n w. (None, w)), a2_confirm = (\<lambda>h w. (None, w)),
     a2_publish = (\<lambda>h m (n, L, f, ms). if f = 0 then (None, (n, L, 0, ms @ [m]))
       else (Some (errorf ''EOF''), (n, L, f - 1, ms))),
     a2_close_channel = (\<lambda>h w. (None, w)), a2_close_conn = (\<lambda>c (n, L, f, ms). (None, (n, L - {c}, f, ms)))\<rparr>"

definition broker2_live :: "nat \<times> nat set \<times> nat \<times> message2 list \<Rightarrow> nat set" where
  "broker2_live w = fst (snd w)"

definition broker2_log :: "nat \<times> nat set \<times> nat \<times> message2 list \<Rightarrow> message2 list" where
  "broker2_log w = snd (snd (snd w))"

definition demo_publisher2 :: "(nat, unit) publisher2" where
  "demo_publisher2 = \<lparr>p2_amqpURL = ''amqp://broker/'', p2_conn = Some 0, p2_channel = Some (), p2_exchange = ''cameras'',
     p2_routingKey = ''camera.cam1'', p2_prefetchCount = 50, p2_publishCount = 0, p2_publishErrors = 0,
     p2_reconnecting = False, p2_connected = True, p2_confirmsCount = 0, p2_nacksCount = 0, p2_done = False\<rparr>"

lemma memory_broker2_laws:
  "amqp2_live_laws memory_broker2 broker2_live" "amqp2_log_laws memory_broker2 broker2_log"
  by (auto simp: amqp2_live_laws_def amqp2_log_laws_def memory_broker2_def broker2_live_def broker2_log_def)

lemma memory_connect2: "fst (connect2 memory_broker2 p w) = None"
  by (cases w) (simp add: connect2_def memory_broker2_def)

lemma demo_publisher2_new:
  "new_publisher2 memory_broker2 ''amqp://broker/'' ''cameras'' ''camera.cam1'' 50 (0, {}, f, []) =
    (Inr demo_publisher2, [], (1, {0}, f, []))"
  by (simp add: new_publisher2_def connect_with_retry_def eval_nat_numeral connect2_def memory_broker2_def
      demo_publisher2_def)

lemma demo_publish2:
  "\<exists>m. publish_begin ''cam1'' [1] 7 demo_publisher2 = (Inr (Some (), m), demo_publisher2) \<and> m2_body m = [1]"
  by (simp add: publish_begin_def demo_publisher2_def)

lemma demo_sent2:
  assumes "publish_begin ''cam1'' [1] 7 demo_publisher2 = (Inr (Some (), m), demo_publisher2)"
  shows "pub_reach memory_broker2 True (pub_start demo_publisher2 (1, {0}, 0, []))
    \<lparr>ps_pub = demo_publisher2, ps_world = (1, {0}, 0, [m]), ps_slot = PubSent None, ps_threads = {#MonWaiting#},
     ps_sent = [(m, True)], ps_returned = []\<rparr>"
proof -
  have 1: "pub_reach memory_broker2 True (pub_start demo_publisher2 (1, {0}, 0, []))
      ((pub_start demo_publisher2 (1, {0}, 0, []))\<lparr>ps_slot := PubSending () m\<rparr>)"
    by (rule pub_go [OF here _ begun [of _ "''cam1''" "[1]" 7 "()" m demo_publisher2]]) (simp_all add: assms pub_start_def)
  show ?thesis
    by (rule pub_go [OF 1 _ send [of _ "()" m _ None "(1, {0}, 0, [m])"]])
      (simp_all add: memory_broker2_def pub_start_def)
qed

theorem one_open_connection_witness: 
  "\<exists>s :: (nat, unit, nat \<times> nat set \<times> nat \<times> message2 list) pub_sys.
     ps_sent s \<noteq> [] \<and> broker2_live (ps_world s) \<subseteq> {0}"
proof -
  obtain m where m: "publish_begin ''cam1'' [1] 7 demo_publisher2 = (Inr (Some (), m), demo_publisher2)"
    using demo_publish2 by blast
  let ?s = "\<lparr>ps_pub = demo_publisher2, ps_world = (1, {0}, 0, [m]), ps_slot = PubSent None,
      ps_threads = {#MonWaiting#}, ps_sent = [(m, True)], ps_returned = []\<rparr>"
  have "broker2_live (ps_world ?s) \<subseteq> {0}"
    using one_open_connection [OF memory_broker2_laws(1) demo_publisher2_new _ demo_sent2 [OF m]]
    by (simp add: broker2_live_def demo_publisher2_def)
  then have "ps_sent ?s \<noteq> [] \<and> broker2_live (ps_world ?s) \<subseteq> {0}" by simp
  then show ?thesis by blast
qed

theorem publisher_accounts_witness: "\<exists>m w. m2_body m = [1] \<and> broker2_log w = [m]"
proof -
  obtain m where m: "publish_begin ''cam1'' [1] 7 demo_publisher2 = (Inr (Some (), m), demo_publisher2)" "m2_body m = [1]"
    using demo_publish2 by blast
  from publisher_accounts [OF memory_broker2_laws(2) demo_publisher2_new demo_sent2 [OF m(1)]]
  have "\<exists>L. broker2_log (1, {0}, 0, [m]) = L \<and> subseq [m] L \<and> subseq L [m]" by (simp add: broker2_log_def)
  then have "broker2_log (1, {0}, 0, [m]) = [m]" by (blast dest: subseq_order.antisym)
  then show ?thesis using m(2) by blast
qed

theorem publisher_can_be_stranded_witness:
  "\<exists>s. pub_reach memory_broker2 True (pub_start demo_publisher2 (1, {0}, 1, [])) s \<and> \<not> p2_connected (ps_pub s)"
proof -
  obtain m where m: "publish_begin ''cam1'' [1] 7 demo_publisher2 = (Inr (Some (), m), demo_publisher2)"
    using demo_publish2 by blast
  have "a2_publish memory_broker2 () m (1, {0}, 1, []) = (Some (errorf ''EOF''), (1, {0}, 0, []))"
    by (simp add: memory_broker2_def)
  moreover have "fst (reconnect_round2 memory_broker2 p w) = None" for p w
    by (simp add: reconnect_round2_eq memory_connect2)
  ultimately obtain s where "pub_reach memory_broker2 True (pub_start demo_publisher2 (1, {0}, 1, [])) s"
    "\<forall>s'. pub_reach memory_broker2 False s s' \<longrightarrow> \<not> p2_connected (ps_pub s')"
    using publisher_can_be_stranded [OF _ _ _ _ m, of memory_broker2 "(1, {0}, 1, [])" "errorf ''EOF''" "(1, {0}, 0, [])"]
    by (fastforce simp: demo_publisher2_def)
  then show ?thesis using here by blast
qed

theorem new_publisher2_waits_witness:
  "sum_list (fst (snd (new_publisher2 memory_broker2 ''amqp://broker/'' ''cameras'' ''camera.cam1'' 50 (0, {}, 0, []))))
    \<le> 245 * second"
  using new_publisher2_waits [OF demo_publisher2_new [of 0]] demo_publisher2_new [of 0] by simp

end
