(* ===== verification/CaptureModel.thy ===== *)
theory CaptureModel
  imports FrameBuffer JpegScan Breaker Monitor MemControl
begin

section \<open>The operations of the capture pipeline\<close>

text \<open>
  \<open>pkg/camera/camera.go\<close> and the reader of \<open>pkg/camera/persistent_capture.go\<close>: images come from the
  persistent FFmpeg process into a channel, a timer takes the newest of them into the frame buffer,
  the dispatcher turns frames into jobs, and the job publishes, stores and announces the frame and
  gives its bytes back to the pool.  A pooled buffer is a number, so that its way through the
  pipeline can be followed; an operation lists what it makes visible outside, in the order of the
  code.  The publisher, the store and the metadata publisher appear by their outcomes.
\<close>

datatype cap_event = EvDropped string int | EvReleased nat | EvFrameSize int | EvBufferSize int
  | EvMonFailure goerr | EvMonSuccess | EvLatency | EvProcessed | EvStorage bool
  | EvPublish "byte list" | EvSave "byte list" | EvAnnounce string int | EvPaused duration
  | EvThrottled duration | EvReconnectAttempt | EvConnected bool

subsection \<open>Rates and classification of errors\<close>

text \<open>The rate \<open>NewCapture\<close> gives the persistent capture; \<open>None\<close> is the panic of a division by zero.\<close>

definition persistent_fps :: "duration \<Rightarrow> int option" where
  "persistent_fps interval = (if interval = 0 then None
     else let fps = second sdiv interval in Some (if fps = 0 then 30 else fps))"

definition classify_error :: "string \<Rightarrow> goerr \<Rightarrow> string" where
  "classify_error cam err =
     (if errors_is err ContextCanceled \<or> errors_is err ContextDeadlineExceeded then ''context_error''
      else if err_msg err = ''circuit breaker '' @ cam @ '' aberto'' then ''circuit_breaker_open''
      else if err_msg err = ''frame vazio'' then ''empty_frame''
      else ''connection_failed'')"

definition ffmpeg_error_context :: "goerr \<Rightarrow> string \<Rightarrow> string" where
  "ffmpeg_error_context err stderr =
     (if errors_is err ContextCanceled then ''context_canceled''
      else if errors_is err ContextDeadlineExceeded then ''timeout''
      else if stderr \<noteq> [] then
        (if sublist ''Connection refused'' stderr then ''connection_refused''
         else if sublist ''Connection timed out'' stderr then ''connection_timeout''
         else if sublist ''401 Unauthorized'' stderr then ''auth_failed''
         else if sublist ''404 Not Found'' stderr then ''stream_not_found''
         else ''ffmpeg_error'')
      else ''unknown'')"

subsection \<open>Enqueueing a frame\<close>

text \<open>
  \<open>buf\<close> is the buffer that holds the data: the one it came in, or with \<open>copyData\<close> the one the pool
  gave for the copy.
\<close>

definition enqueue_frame :: "string \<Rightarrow> time \<Rightarrow> nat \<Rightarrow> byte list \<Rightarrow> frame_buffer
    \<Rightarrow> cap_event list \<times> frame_buffer" where
  "enqueue_frame cam now buf data fb =
     (if data = [] then ([], fb)
      else let f = \<lparr>fr_CameraID = cam, fr_Data = data, fr_Timestamp = now, fr_Release = Some buf\<rparr>;
               (r, rel, fb') = fb_push f fb
           in (map EvReleased rel
               @ (if r = PushNil then [] else [EvDropped ''frame_buffer_full'' 1])
               @ [EvBufferSize (fb_size fb')], fb'))"

text \<open>What \<open>doCapture\<close> does with FFmpeg's exit: an error, or the bytes it wrote.\<close>

definition do_capture :: "string \<Rightarrow> time \<Rightarrow> nat \<Rightarrow> goerr + byte list \<Rightarrow> cap_event list \<times> frame_buffer
    \<Rightarrow> goerr option \<times> cap_event list \<times> frame_buffer" where
  "do_capture cam now buf result st = (case st of (evs, fb) \<Rightarrow> case result of
     Inl err \<Rightarrow> (Some err, evs @ [EvReconnectAttempt], fb)
   | Inr data \<Rightarrow>
       if data = [] then (Some (errorf ''frame vazio''), evs, fb)
       else let (es, fb') = enqueue_frame cam now buf data fb
            in (None, evs @ [EvFrameSize (int (length data))] @ es, fb'))"

definition capture_and_publish :: "string \<Rightarrow> bool \<Rightarrow> time \<times> time \<Rightarrow> time \<times> time \<Rightarrow> time \<Rightarrow> nat
    \<Rightarrow> goerr + byte list \<Rightarrow> breaker \<Rightarrow> frame_buffer \<Rightarrow> cap_event list \<times> breaker \<times> frame_buffer" where
  "capture_and_publish cam has_monitor ta tr now buf result b fb =
     (let (e, b', evs, fb') = breaker_call ta tr (do_capture cam now buf result) b ([], fb) in
      case e of
        Some err \<Rightarrow> (evs @ [EvDropped (classify_error cam err) 1]
                      @ (if has_monitor then [EvMonFailure err] else []), b', fb')
      | None \<Rightarrow> (evs @ [EvLatency] @ (if has_monitor then [EvMonSuccess] else []), b', fb'))"

text \<open>
  A round of \<open>classicCaptureLoop\<close> before the capture: the events and sleeps the memory controller
  causes, the controller, and whether a capture follows.
\<close>

definition memory_gate :: "string \<Rightarrow> time \<Rightarrow> time \<Rightarrow> controller option
    \<Rightarrow> cap_event list \<times> controller option \<times> bool" where
  "memory_gate cam t t' mco = (case mco of
     None \<Rightarrow> ([], None, True)
   | Some mc \<Rightarrow>
       if should_pause mc then
         let (d, mc') = get_throttle_delay cam t t' mc in ([EvPaused d], Some mc', False)
       else if should_throttle mc then
         let (d, mc') = get_throttle_delay cam t t' mc in ([EvThrottled d], Some mc', True)
       else ([], Some mc, True))"

subsection \<open>The persistent capture: reader and timer\<close>

text \<open>An image the reader cut out: queued, or given back when the channel is full (\<open>None\<close>: panic).\<close>

definition reader_candidate :: "nat \<Rightarrow> byte list \<Rightarrow> (nat \<times> byte list) chan
    \<Rightarrow> (cap_event list \<times> (nat \<times> byte list) chan) option" where
  "reader_candidate buf data c =
     (if prefix jpegSOI data then
        (case chan_send (buf, data) c of
           Sent c' \<Rightarrow> Some ([], c')
         | SendBlocks \<Rightarrow> Some ([EvReleased buf], c)
         | SendPanics \<Rightarrow> None)
      else Some ([], c))"

definition persistent_tick :: "string \<Rightarrow> bool \<Rightarrow> time \<Rightarrow> int \<times> (nat \<times> byte list) chan \<times> frame_buffer
    \<Rightarrow> cap_event list \<times> (int \<times> (nat \<times> byte list) chan \<times> frame_buffer)" where
  "persistent_tick cam has_monitor now st = (case st of (failures, c, fb) \<Rightarrow> case poll c of
     None \<Rightarrow>
       let failures' = i64 (failures + 1) in
       ([EvDropped ''no_frame_available'' 1]
        @ (if 5 \<le> failures' \<and> has_monitor
           then [EvMonFailure (errorf (''sem frames dispon'' @ [CHR 0xC3, CHR 0xAD] @ ''veis''))] else []),
        (failures', c, fb))
   | Some (frame, c1) \<Rightarrow>
       let (old, newest, c2) = drain_latest frame c1;
           flushed = int (length old);
           (es, fb') = enqueue_frame cam now (fst newest) (snd newest) fb
       in (map (\<lambda>f. EvReleased (fst f)) old
           @ (if 0 < flushed then [EvDropped ''flushed_old_frames'' flushed] else [])
           @ [EvFrameSize (int (length (snd newest)))] @ es
           @ (if has_monitor then [EvMonSuccess] else []),
           (0, c2, fb')))"

subsection \<open>Processing a frame\<close>

record outcomes =
  ou_publish :: "goerr option"
  ou_redis_enabled :: bool
  ou_save :: "goerr + string"
  ou_meta_enabled :: bool
  ou_announce :: "goerr option"

text \<open>\<open>Process\<close>: the error it returns and its effects; the deferred release is the last of them.\<close>

definition process_steps :: "outcomes \<Rightarrow> frame \<Rightarrow> goerr option \<times> cap_event list" where
  "process_steps ou f =
     (let es1 = [EvPublish (fr_Data f)] in case ou_publish ou of
        Some e \<Rightarrow> (Some e, es1)
      | None \<Rightarrow>
          let es2 = es1 @ [EvLatency, EvProcessed] in
          if \<not> ou_redis_enabled ou then (None, es2)
          else let es3 = es2 @ [EvSave (fr_Data f)] in case ou_save ou of
              Inl e \<Rightarrow> (Some e, es3 @ [EvStorage False])
            | Inr key \<Rightarrow>
                let es4 = es3 @ [EvStorage True] in
                if ou_meta_enabled ou then (ou_announce ou, es4 @ [EvAnnounce key (int (length (fr_Data f)))])
                else (None, es4))"

definition process_job :: "outcomes \<Rightarrow> frame \<Rightarrow> goerr option \<times> cap_event list" where
  "process_job ou f = (let (e, es) = process_steps ou f in (e, es @ map EvReleased (released f)))"

end
