(* ===== verification/Capture.thy ===== *)
theory Capture
  imports CaptureModel
begin

section \<open>The capture pipeline of pkg/camera\<close>

text \<open>
  What holds of the operations of \<open>CaptureModel\<close>: the order of a job's effects, and the way of every
  pooled buffer from the reader through the frame buffer and the workers back to the pool.
\<close>

lemma process_job_eq:
  assumes "fr_Release f = Some buf"
  shows "process_job ou f = (case ou_publish ou of
     Some e \<Rightarrow> (Some e, [EvPublish (fr_Data f), EvReleased buf])
   | None \<Rightarrow>
       if \<not> ou_redis_enabled ou then (None, [EvPublish (fr_Data f), EvLatency, EvProcessed, EvReleased buf])
       else (case ou_save ou of
           Inl e \<Rightarrow> (Some e, [EvPublish (fr_Data f), EvLatency, EvProcessed, EvSave (fr_Data f),
                            EvStorage False, EvReleased buf])
         | Inr key \<Rightarrow>
             if ou_meta_enabled ou
             then (ou_announce ou, [EvPublish (fr_Data f), EvLatency, EvProcessed, EvSave (fr_Data f),
                     EvStorage True, EvAnnounce key (int (length (fr_Data f))), EvReleased buf])
             else (None, [EvPublish (fr_Data f), EvLatency, EvProcessed, EvSave (fr_Data f),
                     EvStorage True, EvReleased buf])))"
  using assms
  by (cases "ou_publish ou"; cases "ou_save ou") (simp_all add: process_job_def process_steps_def released_def Let_def)

text \<open>C24: A job announces only what it stored and stores only what it published: the metadata of a frame
  are announced only under the key that saving it returned, it is saved only after it was published
  without an error, it is published exactly once, and whatever fails, its buffer is released exactly
  once and last; the job fails exactly when one of its steps failed.\<close>

theorem job_order:
  assumes "fr_Release f = Some buf" and "process_job ou f = (e, es)"
  shows "(\<forall>key n. EvAnnounce key n \<in> set es \<longrightarrow> ou_save ou = Inr key \<and> EvSave (fr_Data f) \<in> set es)
    \<and> (\<forall>d. EvSave d \<in> set es \<longrightarrow> ou_publish ou = None \<and> d = fr_Data f)
    \<and> filter (\<lambda>x. \<exists>d. x = EvPublish d) es = [EvPublish (fr_Data f)] \<and> hd es = EvPublish (fr_Data f)
    \<and> filter (\<lambda>x. \<exists>b. x = EvReleased b) es = [EvReleased buf] \<and> last es = EvReleased buf
    \<and> (e \<noteq> None \<longleftrightarrow> ou_publish ou \<noteq> None
        \<or> ou_redis_enabled ou \<and> (isl (ou_save ou) \<or> ou_meta_enabled ou \<and> ou_announce ou \<noteq> None))"
  using assms
  using assms(2) process_job_eq [OF assms(1), of ou]
  by (auto split: option.splits sum.splits if_splits) metis+

theorem job_order_witness:
  "hd (snd (process_job \<lparr>ou_publish = None, ou_redis_enabled = True, ou_save = Inr ''key'', ou_meta_enabled = True,
       ou_announce = None\<rparr> (demo_frame 7))) = EvPublish (fr_Data (demo_frame 7))"
proof -
  let ?ou = "\<lparr>ou_publish = None, ou_redis_enabled = True, ou_save = Inr ''key'', ou_meta_enabled = True,
       ou_announce = None\<rparr>"
  obtain e es where p: "process_job ?ou (demo_frame 7) = (e, es)" by (rule prod.exhaust)
  have "fr_Release (demo_frame 7) = Some 7" by (simp add: demo_frame_def)
  from job_order [OF this p] show ?thesis unfolding p by simp
qed

subsection \<open>Every buffer comes back exactly once\<close>

text \<open>
  The pipeline of one camera in persistent mode: the images that wait in the channel, the frame
  buffer, and the jobs that were dispatched and not yet processed (in any order).
\<close>

record cap_sys =
  cy_failures :: int
  cy_chan :: "(nat \<times> byte list) chan"
  cy_fb :: frame_buffer
  cy_jobs :: "frame list"

datatype cap_op = Arrive nat "byte list" | TimerTick time | Dispatch | Finish nat outcomes

fun cap_step :: "string \<Rightarrow> cap_sys \<Rightarrow> cap_op \<Rightarrow> cap_event list \<times> cap_sys" where
  "cap_step cam y (Arrive buf data) = (case reader_candidate buf data (cy_chan y) of
     None \<Rightarrow> ([], y) | Some (es, c) \<Rightarrow> (es, y\<lparr>cy_chan := c\<rparr>))"
| "cap_step cam y (TimerTick now) =
     (let (es, (n, c, fb)) = persistent_tick cam True now (cy_failures y, cy_chan y, cy_fb y)
      in (es, y\<lparr>cy_failures := n, cy_chan := c, cy_fb := fb\<rparr>))"
| "cap_step cam y Dispatch = (case fb_pop (cy_fb y) of
     (None, fb) \<Rightarrow> ([], y\<lparr>cy_fb := fb\<rparr>)
   | (Some f, fb) \<Rightarrow> ([], y\<lparr>cy_fb := fb, cy_jobs := cy_jobs y @ [f]\<rparr>))"
| "cap_step cam y (Finish i ou) =
     (if i < length (cy_jobs y)
      then (snd (process_job ou (cy_jobs y ! i)), y\<lparr>cy_jobs := take i (cy_jobs y) @ drop (Suc i) (cy_jobs y)\<rparr>)
      else ([], y))"

definition event_buffers :: "cap_event list \<Rightarrow> nat multiset" where
  "event_buffers es = mset (concat (map (\<lambda>e. case e of EvReleased b \<Rightarrow> [b] | _ \<Rightarrow> []) es))"

definition frame_bufs :: "frame list \<Rightarrow> nat multiset" where
  "frame_bufs fs = mset (concat (map released fs))"

definition held :: "cap_sys \<Rightarrow> nat multiset" where
  "held y = mset (map fst (ch_buf (cy_chan y))) + frame_bufs (frames (cy_fb y)) + frame_bufs (cy_jobs y)"

text \<open>The pool buffers the reader takes (\<open>getFrameBuffer\<close>, one for every candidate), and those of them
  that nobody gives back: the buffers of candidates that do not begin with the start marker.\<close>

fun taken_buffers :: "cap_op \<Rightarrow> nat multiset" where
  "taken_buffers (Arrive buf data) = {#buf#}"
| "taken_buffers _ = {#}"

fun lost_buffers :: "cap_op \<Rightarrow> nat multiset" where
  "lost_buffers (Arrive buf data) = (if prefix jpegSOI data then {#} else {#buf#})"
| "lost_buffers _ = {#}"

definition cap_ok :: "cap_sys \<Rightarrow> bool" where
  "cap_ok y \<longleftrightarrow> fb_ok (cy_fb y) \<and> \<not> ch_closed (cy_chan y)
     \<and> (\<forall>(b, d) \<in> set (ch_buf (cy_chan y)). d \<noteq> [])"

lemma buffers_simps [simp]:
  "event_buffers [] = {#}" "event_buffers (es @ es') = event_buffers es + event_buffers es'"
  "event_buffers (EvReleased b # es) = add_mset b (event_buffers es)"
  "event_buffers (map EvReleased bs) = mset bs"
  "event_buffers (map (\<lambda>f. EvReleased (fst f)) ps) = mset (map fst ps)"
  "frame_bufs [] = {#}" "frame_bufs (fs @ fs') = frame_bufs fs + frame_bufs fs'"
  "frame_bufs (f # fs) = mset (released f) + frame_bufs fs"
  by (simp_all add: event_buffers_def frame_bufs_def comp_def flip: map_map) (simp_all add: comp_def)

lemma buffers_other [simp]:
  "event_buffers (EvDropped r n # es) = event_buffers es" "event_buffers (EvFrameSize n # es) = event_buffers es"
  "event_buffers (EvBufferSize n # es) = event_buffers es" "event_buffers (EvMonFailure e # es) = event_buffers es"
  "event_buffers (EvMonSuccess # es) = event_buffers es" "event_buffers (EvLatency # es) = event_buffers es"
  "event_buffers (EvProcessed # es) = event_buffers es" "event_buffers (EvStorage b # es) = event_buffers es"
  "event_buffers (EvPublish d # es) = event_buffers es" "event_buffers (EvSave d # es) = event_buffers es"
  "event_buffers (EvAnnounce k n # es) = event_buffers es"
  by (simp_all add: event_buffers_def)

lemma push_buffers:
  assumes "fb_ok fb" and "fb_push f fb = (r, rel, fb')"
  shows "fb_ok fb' \<and> frame_bufs (frames fb) + mset (released f) = frame_bufs (frames fb') + mset rel"
proof (cases "int (length (frames fb)) < fb_capacity fb")
  case True
  then show ?thesis using fb_push_room [OF assms(1) True, of f] fb_push_ok [OF assms(1), of f] assms(2) by auto
next
  case False
  then have "frames fb \<noteq> []" using assms(1) by (auto simp: fb_ok_def)
  then show ?thesis
    using fb_push_full [OF assms(1), of f] fb_push_ok [OF assms(1), of f] False assms(2)
    by (cases "frames fb") auto
qed

lemma enqueue_buffers:
  assumes "fb_ok fb" and "data \<noteq> []" and "enqueue_frame cam now buf data fb = (es, fb')"
  shows "fb_ok fb' \<and> add_mset buf (frame_bufs (frames fb)) = frame_bufs (frames fb') + event_buffers es"
proof -
  let ?f = "\<lparr>fr_CameraID = cam, fr_Data = data, fr_Timestamp = now, fr_Release = Some buf\<rparr>"
  obtain r rel fb1 where p: "fb_push ?f fb = (r, rel, fb1)" by (rule prod_cases3)
  then have "fb' = fb1" "event_buffers es = mset rel"
    using assms(2,3) by (auto simp: enqueue_frame_def)
  then show ?thesis using push_buffers [OF assms(1) p] by (simp add: released_def)
qed

lemma job_buffers: "event_buffers (snd (process_job ou f)) = mset (released f)"
  by (cases "ou_publish ou"; cases "ou_redis_enabled ou"; cases "ou_save ou"; cases "ou_meta_enabled ou")
    (simp_all add: process_job_def process_steps_def)

lemma tick_nonempty:
  assumes "ch_buf c = q" and "q \<noteq> []"
    and "enqueue_frame cam now (fst (last q)) (snd (last q)) fb = (es, fb')"
  shows "persistent_tick cam m now (n, c, fb) =
    (map (\<lambda>f. EvReleased (fst f)) (butlast q)
      @ (if 0 < int (length (butlast q)) then [EvDropped ''flushed_old_frames'' (int (length (butlast q)))] else [])
      @ [EvFrameSize (int (length (snd (last q))))] @ es @ (if m then [EvMonSuccess] else []),
     (0, c\<lparr>ch_buf := []\<rparr>, fb'))"
proof -
  obtain x xs where q: "q = x # xs" using assms(2) by (cases q) auto
  then have "poll c = Some (x, c\<lparr>ch_buf := xs\<rparr>)" using assms(1) by simp
  moreover have "drain_latest x (c\<lparr>ch_buf := xs\<rparr>) = (butlast q, last q, c\<lparr>ch_buf := []\<rparr>)"
    by (simp add: drain_latest_eq q)
  moreover have "0 < int (length (butlast q)) \<longleftrightarrow> butlast q \<noteq> []" by (simp del: length_butlast)
  ultimately show ?thesis using assms(3) by (simp add: persistent_tick_def Let_def del: length_butlast)
qed

lemma tick_buffers:
  assumes "cap_ok y" and "persistent_tick cam True now (cy_failures y, cy_chan y, cy_fb y) = (es, n, c, fb)"
  shows "cap_ok (y\<lparr>cy_failures := n, cy_chan := c, cy_fb := fb\<rparr>)
    \<and> mset (map fst (ch_buf (cy_chan y))) + frame_bufs (frames (cy_fb y))
      = mset (map fst (ch_buf c)) + frame_bufs (frames fb) + event_buffers es"
proof (cases "ch_buf (cy_chan y)")
  case Nil
  then show ?thesis using assms by (auto simp: persistent_tick_def Let_def cap_ok_def)
next
  case (Cons x xs)
  let ?q = "x # xs"
  have last: "snd (last ?q) \<noteq> []"
    using assms(1) Cons last_in_set [of ?q] by (auto simp: cap_ok_def split_beta)
  obtain es1 fb1 where e: "enqueue_frame cam now (fst (last ?q)) (snd (last ?q)) (cy_fb y) = (es1, fb1)"
    by (rule prod.exhaust)
  have b: "fb_ok fb1" "add_mset (fst (last ?q)) (frame_bufs (frames (cy_fb y)))
      = frame_bufs (frames fb1) + event_buffers es1"
    using enqueue_buffers [OF _ last e] assms(1) by (auto simp: cap_ok_def)
  have out: "fb = fb1" "ch_buf c = []" "ch_closed c = ch_closed (cy_chan y)"
    "event_buffers es = mset (map fst (butlast ?q)) + event_buffers es1"
    using assms(2) tick_nonempty [OF Cons _ e, of True "cy_failures y"] by auto
  have "mset (map fst ?q) = mset (map fst (butlast ?q)) + {#fst (last ?q)#}"
  proof -
    have "map fst ?q = map fst (butlast ?q) @ [fst (last ?q)]"
      by (metis append_butlast_last_id list.distinct(1) list.simps(8,9) map_append)
    then show ?thesis by (simp only: mset_append mset.simps)
  qed
  then show ?thesis using out b assms(1) Cons by (simp add: cap_ok_def ac_simps)
qed

lemma arrive_buffers:
  assumes "cap_ok y" and "cap_step cam y (Arrive buf data) = (es, y')"
  shows "cap_ok y' \<and> held y + taken_buffers (Arrive buf data) = held y' + event_buffers es + lost_buffers (Arrive buf data)"
proof (cases "prefix jpegSOI data")
  case True
  then have "data \<noteq> []" by (auto simp: jpegSOI_def)
  then show ?thesis using assms True
    by (cases "length (ch_buf (cy_chan y)) < ch_cap (cy_chan y)")
      (auto simp: reader_candidate_def chan_send_def cap_ok_def held_def)
next
  case False
  then show ?thesis using assms by (auto simp: reader_candidate_def held_def)
qed

lemma finish_buffers:
  assumes "cap_ok y" and "cap_step cam y (Finish i ou) = (es, y')"
  shows "cap_ok y' \<and> held y = held y' + event_buffers es"
proof (cases "i < length (cy_jobs y)")
  case True
  have "frame_bufs (cy_jobs y) = frame_bufs (take i (cy_jobs y)) + mset (released (cy_jobs y ! i))
      + frame_bufs (drop (Suc i) (cy_jobs y))"
    by (subst id_take_nth_drop [OF True]) simp
  then show ?thesis using assms True by (auto simp: cap_ok_def held_def job_buffers)
next
  case False
  then show ?thesis using assms by simp
qed

lemma dispatch_buffers:
  assumes "cap_ok y" and "cap_step cam y Dispatch = (es, y')"
  shows "cap_ok y' \<and> held y = held y' + event_buffers es"
proof (cases "frames (cy_fb y)")
  case Nil
  then show ?thesis using assms
    by (auto simp: fb_pop_def chan_recv_def cap_ok_def fb_ok_def)
next
  case (Cons f fs)
  then show ?thesis using assms
    by (auto simp: fb_pop_def chan_recv_def cap_ok_def fb_ok_def chan_ok_def held_def)
qed

lemma cap_step_buffers:
  assumes "cap_ok y" and "cap_step cam y e = (es, y')"
  shows "cap_ok y' \<and> held y + taken_buffers e = held y' + event_buffers es + lost_buffers e"
proof (cases e)
  case (Arrive buf data)
  then show ?thesis using arrive_buffers assms by blast
next
  case (TimerTick now)
  obtain n c fb where t: "persistent_tick cam True now (cy_failures y, cy_chan y, cy_fb y) = (es, n, c, fb)"
    and y': "y' = y\<lparr>cy_failures := n, cy_chan := c, cy_fb := fb\<rparr>"
    using assms(2) TimerTick by (auto split: prod.splits)
  then show ?thesis using tick_buffers [OF assms(1) t] TimerTick by (simp add: held_def ac_simps)
next
  case Dispatch
  then show ?thesis using dispatch_buffers assms by simp
next
  case (Finish i ou)
  then show ?thesis using finish_buffers assms by simp
qed

text \<open>C4: The pipeline gives back every frame buffer except those of images without a start marker:
  after any interleaving of candidates of the reader, timer ticks, dispatches and finished jobs (in
  any order, succeeding or failing), the pool buffers that were taken, one for every candidate, are
  exactly those still held in the channel, the frame buffer or a job, those released, and those of
  candidates that do not begin with the start marker, each as often as it was taken: none of the
  others is leaked and none is given back twice.\<close>

theorem pipeline_conserves_buffers:
  assumes "cap_ok y" and "final (cap_step cam) y es = y'"
  shows "held y + sum_list (map taken_buffers es)
    = held y' + event_buffers (concat (trace (cap_step cam) y es)) + sum_list (map lost_buffers es)"
  using assms
proof (induction es arbitrary: y)
  case (Cons e es)
  obtain evs y1 where 1: "cap_step cam y e = (evs, y1)" by (rule prod.exhaust)
  have "held y1 + sum_list (map taken_buffers es)
      = held y' + event_buffers (concat (trace (cap_step cam) y1 es)) + sum_list (map lost_buffers es)"
    using cap_step_buffers [OF Cons.prems(1) 1] Cons.prems(2) 1 by (intro Cons.IH) simp_all
  then show ?case using cap_step_buffers [OF Cons.prems(1) 1] 1
    by simp (metis add.assoc add.commute)
qed simp

definition demo_cap :: cap_sys where
  "demo_cap = \<lparr>cy_failures = 0, cy_chan = make_chan 2, cy_fb = demo_buffer, cy_jobs = []\<rparr>"

theorem pipeline_conserves_buffers_witness:
  "held demo_cap + {#4, 5, 6#}
    = held (final (cap_step ''cam1'') demo_cap [Arrive 4 jpegSOI, Arrive 5 jpegSOI, Arrive 6 [0], TimerTick 1])
      + event_buffers (concat (trace (cap_step ''cam1'') demo_cap
          [Arrive 4 jpegSOI, Arrive 5 jpegSOI, Arrive 6 [0], TimerTick 1]))
      + {#6#}"
proof -
  have "cap_ok demo_cap" by (simp add: cap_ok_def demo_cap_def demo_buffer_ok)
  from pipeline_conserves_buffers [where cam = "''cam1''"
      and es = "[Arrive 4 jpegSOI, Arrive 5 jpegSOI, Arrive 6 [0], TimerTick 1]", OF this refl]
  show ?thesis by (simp add: jpegSOI_def del: final.simps trace.simps)
qed

text \<open>The error of a rejected call is recognised by its text, since the breaker bears the camera's name.\<close>

lemma rejected_call_classified:
  assumes "cb_name b = cam"
  shows "classify_error cam (breaker_open_error b) = ''circuit_breaker_open''"
  using assms by (simp add: classify_error_def breaker_open_error_def) (simp add: errorf_def)

text \<open>An interval of zero, which an infinite target rate gives, panics when the persistent capture is made.\<close>

lemma zero_interval_panics: "persistent_fps 0 = None"
  by (simp add: persistent_fps_def)

end
