(* ===== verification/PersistentCapture.thy ===== *)
theory PersistentCapture
  imports CaptureModel GoText
begin

section \<open>The persistent capture of pkg/camera\<close>

text \<open>
  \<open>pkg/camera/persistent_capture.go\<close> and \<open>frame_pool.go\<close>: one FFmpeg process writes images, a reader
  cuts them out and queues them, a failing reader and a health check restart the process.  A
  process and a context of a reader are numbers; what the operating system answers when a process
  is started is an argument.  First the operations, then the goroutines interleaved.
\<close>

subsection \<open>The pool of frame buffers\<close>

text \<open>
  \<open>framePool\<close> may give back any buffer it was given or make a new one (\<open>None\<close>); a buffer is its
  capacity here, and \<open>getFrameBuffer\<close> returns the capacity and the length, or the nil slice.
\<close>

definition maxFramePoolSize :: int where
  "maxFramePoolSize = 2000 * 1024 * 1024"

definition get_frame_buffer :: "int \<Rightarrow> int option \<Rightarrow> (int \<times> int) option" where
  "get_frame_buffer sz pooled =
     (if sz \<le> 0 then None
      else if maxFramePoolSize < sz then Some (sz, sz)
      else let buf = (case pooled of Some c \<Rightarrow> c | None \<Rightarrow> maxFramePoolSize);
               cp = (if buf < sz then sz else buf)
           in Some (cp, sz))"

text \<open>The capacity that goes back to the pool, if one does.\<close>

definition release_frame_buffer :: "int option \<Rightarrow> int option" where
  "release_frame_buffer buf = (case buf of None \<Rightarrow> None
     | Some cp \<Rightarrow> if maxFramePoolSize < cp then None else Some cp)"

text \<open>A buffer from a pool that only \<open>releaseFrameBuffer\<close> fills is long enough; a new one takes 2 GB.\<close>

lemma get_frame_buffer_fits:
  assumes "0 < sz" and "get_frame_buffer sz pooled = Some (cp, len)"
  shows "len = sz \<and> sz \<le> cp"
  using assms by (auto simp: get_frame_buffer_def Let_def split: if_splits option.splits)

lemma fresh_buffer_is_2GB:
  assumes "0 < sz" and "sz \<le> maxFramePoolSize"
  shows "get_frame_buffer sz None = Some (2097152000, sz)"
  using assms by (simp add: get_frame_buffer_def maxFramePoolSize_def)

subsection \<open>The capture and its process\<close>

text \<open>
  \<open>pp_proc\<close> is the running process of \<open>cmd\<close>; a context is over when it was cancelled or the context
  of the capture was.  \<open>pp_next\<close> numbers processes and contexts.
\<close>

record pcapture =
  pp_cameraID :: string
  pp_rtspURL :: string
  pp_quality :: int
  pp_fps :: int
  pp_bufferSize :: int
  pp_proc :: "nat option"
  pp_running :: bool
  pp_restarting :: bool
  pp_cancelled :: bool
  pp_frameBuffer :: "(nat \<times> byte list) chan"
  pp_errorCount :: int
  pp_lastRestart :: time
  pp_lastFrameNS :: int
  pp_readCtx :: "nat option"
  pp_over :: "nat set"
  pp_next :: nat

definition new_persistent_capture :: "string \<Rightarrow> string \<Rightarrow> int \<Rightarrow> int \<Rightarrow> int \<Rightarrow> time \<Rightarrow> time \<Rightarrow> pcapture" where
  "new_persistent_capture cam url quality fps bufferSize now now' =
     (let sz = (if bufferSize \<le> 0 then 50 else bufferSize) in
      \<lparr>pp_cameraID = cam, pp_rtspURL = url, pp_quality = quality, pp_fps = fps, pp_bufferSize = sz,
       pp_proc = None, pp_running = False, pp_restarting = False, pp_cancelled = False,
       pp_frameBuffer = make_chan (nat sz), pp_errorCount = 0, pp_lastRestart = now,
       pp_lastFrameNS = i64 now', pp_readCtx = None, pp_over = {}, pp_next = 0\<rparr>)"

definition ffmpeg_args :: "pcapture \<Rightarrow> string list" where
  "ffmpeg_args p = [''-loglevel'', ''fatal'', ''-rtsp_transport'', ''tcp'',
     ''-fflags'', ''+genpts+discardcorrupt'', ''-flags'', ''low_delay'', ''-err_detect'', ''ignore_err'',
     ''-i'', pp_rtspURL p, ''-vf'', ''fps='' @ fmt_d (pp_fps p), ''-f'', ''image2pipe'',
     ''-vcodec'', ''mjpeg'', ''-q:v'', fmt_d (pp_quality p), ''-'']"

text \<open>The outcome of making the pipes and starting the process.\<close>

datatype start_outcome = Started | NoStdout goerr | NoStderr goerr | NotStarted goerr

definition start_ffmpeg2 :: "start_outcome \<Rightarrow> pcapture \<Rightarrow> goerr option \<times> pcapture" where
  "start_ffmpeg2 out p = (case out of
     Started \<Rightarrow> (None, p\<lparr>pp_proc := Some (pp_next p), pp_next := Suc (pp_next p)\<rparr>)
   | NoStdout e \<Rightarrow> (Some (wrap_err ''erro ao criar stdout pipe: '' e), p\<lparr>pp_proc := None\<rparr>)
   | NoStderr e \<Rightarrow> (Some (wrap_err ''erro ao criar stderr pipe: '' e), p\<lparr>pp_proc := None\<rparr>)
   | NotStarted e \<Rightarrow> (Some (wrap_err ''erro ao iniciar FFmpeg: '' e), p\<lparr>pp_proc := None\<rparr>))"

definition new_read_ctx :: "pcapture \<Rightarrow> pcapture" where
  "new_read_ctx p = p\<lparr>pp_readCtx := Some (pp_next p), pp_next := Suc (pp_next p)\<rparr>"

definition read_cancel :: "pcapture \<Rightarrow> pcapture" where
  "read_cancel p = (case pp_readCtx p of None \<Rightarrow> p | Some c \<Rightarrow> p\<lparr>pp_over := insert c (pp_over p)\<rparr>)"

text \<open>Whether \<open>pc.readCtx.Done()\<close> is closed.\<close>

definition read_done :: "pcapture \<Rightarrow> bool" where
  "read_done p \<longleftrightarrow> pp_cancelled p \<or> (case pp_readCtx p of None \<Rightarrow> False | Some c \<Rightarrow> c \<in> pp_over p)"

text \<open>\<open>Start\<close>: the error, or a started reader and health check (\<open>None\<close>).\<close>

definition start_capture :: "start_outcome \<Rightarrow> pcapture \<Rightarrow> goerr option \<times> pcapture" where
  "start_capture out p =
     (if pp_running p
      then (Some (errorf (''captura j'' @ [CHR 0xC3, CHR 0xA1] @ '' est'' @ [CHR 0xC3, CHR 0xA1] @ '' rodando'')), p)
      else case start_ffmpeg2 out p of
        (Some e, p1) \<Rightarrow> (Some e, p1)
      | (None, p1) \<Rightarrow> (None, (new_read_ctx p1)\<lparr>pp_running := True\<rparr>))"

text \<open>
  \<open>Restart\<close> in two halves, before and after its sleep of a second; the capture's mutex is held
  throughout.  The first half says whether the second follows.
\<close>

definition restart_begin :: "pcapture \<Rightarrow> bool \<times> pcapture" where
  "restart_begin p =
     (if pp_restarting p then (False, p)
      else (True, (read_cancel (p\<lparr>pp_restarting := True\<rparr>))\<lparr>pp_proc := None\<rparr>))"

definition restart_end :: "start_outcome \<Rightarrow> time \<Rightarrow> pcapture \<Rightarrow> goerr option \<times> pcapture" where
  "restart_end out now p = (case start_ffmpeg2 out p of
     (Some e, p1) \<Rightarrow> (Some e, p1\<lparr>pp_restarting := False\<rparr>)
   | (None, p1) \<Rightarrow> (None, (new_read_ctx p1)\<lparr>pp_lastRestart := now, pp_errorCount := 0, pp_restarting := False\<rparr>))"

definition restart :: "start_outcome \<Rightarrow> time \<Rightarrow> pcapture \<Rightarrow> goerr option \<times> pcapture" where
  "restart out now p = (case restart_begin p of
     (False, p1) \<Rightarrow> (None, p1) | (True, p1) \<Rightarrow> restart_end out now p1)"

text \<open>\<open>handleError\<close> up to its call of \<open>Restart\<close>: how long it sleeps.\<close>

definition handle_error :: "time \<Rightarrow> pcapture \<Rightarrow> duration \<times> pcapture" where
  "handle_error now p =
     (let p1 = p\<lparr>pp_errorCount := i64 (pp_errorCount p + 1)\<rparr> in
      (if 5 < pp_errorCount p1 \<and> since now (pp_lastRestart p1) < minute then 10 * second else 0, p1))"

definition time_since_last_frame :: "time \<Rightarrow> pcapture \<Rightarrow> duration" where
  "time_since_last_frame now p =
     (if pp_lastFrameNS p = 0 then since now (pp_lastRestart p) else since now (pp_lastFrameNS p))"

text \<open>A tick of \<open>monitorHealth\<close>: whether it calls \<open>Restart\<close>.\<close>

definition health_due :: "time \<Rightarrow> pcapture \<Rightarrow> bool" where
  "health_due now p \<longleftrightarrow> 30 * second < time_since_last_frame now p"

definition mark_frame_received :: "time \<Rightarrow> pcapture \<Rightarrow> pcapture" where
  "mark_frame_received now p = p\<lparr>pp_lastFrameNS := i64 now\<rparr>"

text \<open>A complete candidate in \<open>readFrames\<close>; \<open>None\<close> is the panic of a send on the closed channel.\<close>

definition read_candidate :: "time \<Rightarrow> nat \<Rightarrow> byte list \<Rightarrow> pcapture \<Rightarrow> (cap_event list \<times> pcapture) option" where
  "read_candidate now buf data p = (case reader_candidate buf data (pp_frameBuffer p) of
     None \<Rightarrow> None
   | Some (es, c) \<Rightarrow> let p1 = p\<lparr>pp_frameBuffer := c\<rparr>
       in Some (es, if prefix jpegSOI data then mark_frame_received now p1 else p1))"

definition read_frame_byte :: "time \<Rightarrow> nat \<Rightarrow> byte \<Rightarrow> byte list \<times> pcapture
    \<Rightarrow> (cap_event list \<times> byte list \<times> pcapture) option" where
  "read_frame_byte now buf b st = (case scan_byte b (fst st) of
     (None, fb) \<Rightarrow> Some ([], fb, snd st)
   | (Some f, fb) \<Rightarrow> (case read_candidate now buf f (snd st) of
        None \<Rightarrow> None | Some (es, p) \<Rightarrow> Some (es, fb, p)))"

text \<open>The three ways to take a frame: at once, and with a timer that has or has not run out.\<close>

definition get_frame_non_blocking :: "pcapture \<Rightarrow> (nat \<times> byte list) option \<times> pcapture" where
  "get_frame_non_blocking p = (case chan_recv (pp_frameBuffer p) of
     Received x c \<Rightarrow> (Some x, p\<lparr>pp_frameBuffer := c\<rparr>) | _ \<Rightarrow> (None, p))"

definition get_frame_timed :: "bool \<Rightarrow> pcapture \<Rightarrow> ((nat \<times> byte list) option \<times> pcapture) option" where
  "get_frame_timed timeout p = (case chan_recv (pp_frameBuffer p) of
     Received x c \<Rightarrow> Some (Some x, p\<lparr>pp_frameBuffer := c\<rparr>)
   | RecvClosed \<Rightarrow> Some (None, p)
   | RecvBlocks \<Rightarrow> if timeout then Some (None, p) else None)"

text \<open>\<open>Stop\<close>; \<open>None\<close> would be the panic of closing the channel twice.\<close>

definition stop_capture :: "pcapture \<Rightarrow> pcapture option" where
  "stop_capture p =
     (if \<not> pp_running p then Some p
      else let p1 = (read_cancel (p\<lparr>pp_cancelled := True\<rparr>))\<lparr>pp_proc := None\<rparr> in
        case chan_close (pp_frameBuffer p1) of
          None \<Rightarrow> None
        | Some c \<Rightarrow> Some (p1\<lparr>pp_frameBuffer := c, pp_running := False\<rparr>))"

lemma new_capture_simps [simp]:
  "\<not> pp_running (new_persistent_capture cam url q fps bs t0 t1)" "\<not> pp_restarting (new_persistent_capture cam url q fps bs t0 t1)"
  "\<not> pp_cancelled (new_persistent_capture cam url q fps bs t0 t1)" "pp_proc (new_persistent_capture cam url q fps bs t0 t1) = None"
  "pp_errorCount (new_persistent_capture cam url q fps bs t0 t1) = 0" "pp_next (new_persistent_capture cam url q fps bs t0 t1) = 0"
  "pp_over (new_persistent_capture cam url q fps bs t0 t1) = {}" "pp_readCtx (new_persistent_capture cam url q fps bs t0 t1) = None"
  "\<not> ch_closed (pp_frameBuffer (new_persistent_capture cam url q fps bs t0 t1))"
  by (simp_all add: new_persistent_capture_def Let_def)

definition started :: "pcapture \<Rightarrow> pcapture" where
  "started p = p\<lparr>pp_proc := Some (pp_next p), pp_readCtx := Some (Suc (pp_next p)), pp_next := Suc (Suc (pp_next p)),
     pp_running := True\<rparr>"

lemma start_capture_ok: "start_capture out p = (None, p') \<longleftrightarrow> out = Started \<and> \<not> pp_running p \<and> p' = started p"
  by (cases out) (auto simp: start_capture_def start_ffmpeg2_def new_read_ctx_def started_def)

lemma start_capture_failed:
  "start_capture out p = (Some e, p') \<Longrightarrow> pp_running p \<and> p' = p \<or> \<not> pp_running p \<and> p' = p\<lparr>pp_proc := None\<rparr>"
  by (cases out) (auto simp: start_capture_def start_ffmpeg2_def split: if_splits)

subsection \<open>Errors and health checks, one after the other\<close>

text \<open>
  The capture together with whether its reader runs, driven by what happens to it: the reader's next
  image, a read error, a tick of the health check.  An event answers how long \<open>handleError\<close> slept and
  whether \<open>Restart\<close> was called.
\<close>

datatype cap_event2 = Image time nat "byte list" | ReadError time start_outcome time
  | HealthTick time start_outcome time

definition do_restart :: "start_outcome \<Rightarrow> time \<Rightarrow> pcapture \<Rightarrow> pcapture \<times> bool" where
  "do_restart out now p = (let (e, p') = restart out now p in (p', e = None))"

fun capture_event :: "pcapture \<times> bool \<Rightarrow> cap_event2 \<Rightarrow> (duration \<times> bool) \<times> (pcapture \<times> bool)" where
  "capture_event (p, alive) (Image now buf data) =
     (if alive \<and> \<not> read_done p
      then (case read_candidate now buf data p of None \<Rightarrow> ((0, False), (p, False)) | Some (es, p') \<Rightarrow> ((0, False), (p', True)))
      else ((0, False), (p, False)))"
| "capture_event (p, alive) (ReadError now out now') =
     (if alive \<and> \<not> read_done p
      then (let (d, p1) = handle_error now p in ((d, True), do_restart out now' p1))
      else ((0, False), (p, False)))"
| "capture_event (p, alive) (HealthTick now out now') =
     (if \<not> pp_cancelled p \<and> health_due now p then ((0, True), do_restart out now' p)
      else ((0, False), (p, alive)))"

definition few_errors :: "pcapture \<times> bool \<Rightarrow> bool" where
  "few_errors x \<longleftrightarrow> \<not> pp_restarting (fst x) \<and> 0 \<le> pp_errorCount (fst x)
     \<and> pp_errorCount (fst x) \<le> (if snd x then 0 else 1)"

lemmas restart_defs = restart_def restart_begin_def restart_end_def start_ffmpeg2_def new_read_ctx_def
  read_cancel_def

lemma restart_cases [case_names busy failed restarted]:
  assumes "restart out now p = (e, p')"
  obtains "pp_restarting p" "e = None" "p' = p"
  | "\<not> pp_restarting p" "out \<noteq> Started" "e \<noteq> None" "p' = (read_cancel p)\<lparr>pp_proc := None, pp_restarting := False\<rparr>"
  | "\<not> pp_restarting p" "out = Started" "e = None"
    "p' = (read_cancel p)\<lparr>pp_proc := Some (pp_next p), pp_readCtx := Some (Suc (pp_next p)), pp_next := Suc (Suc (pp_next p)),
      pp_lastRestart := now, pp_errorCount := 0, pp_restarting := False\<rparr>"
  using assms by (cases "pp_readCtx p"; cases out) (auto simp: restart_defs split: if_splits)

lemma read_candidate_frame:
  "read_candidate now buf data p = Some (es, p') \<Longrightarrow>
    p' = p\<lparr>pp_frameBuffer := pp_frameBuffer p', pp_lastFrameNS := pp_lastFrameNS p'\<rparr>
    \<and> (\<not> prefix jpegSOI data \<longrightarrow> pp_lastFrameNS p' = pp_lastFrameNS p)"
  by (auto simp: read_candidate_def mark_frame_received_def Let_def split: option.splits if_splits)

lemma read_cancel_frame [simp]:
  "pp_errorCount (read_cancel p) = pp_errorCount p" "pp_restarting (read_cancel p) = pp_restarting p"
  "pp_lastFrameNS (read_cancel p) = pp_lastFrameNS p" "pp_cancelled (read_cancel p) = pp_cancelled p"
  "pp_running (read_cancel p) = pp_running p" "pp_proc (read_cancel p) = pp_proc p"
  "pp_next (read_cancel p) = pp_next p" "pp_frameBuffer (read_cancel p) = pp_frameBuffer p"
  "pp_readCtx (read_cancel p) = pp_readCtx p" "pp_lastRestart (read_cancel p) = pp_lastRestart p"
  by (simp_all add: read_cancel_def split: option.splits)

lemma few_errors_restart:
  assumes "\<not> pp_restarting p" "0 \<le> pp_errorCount p" "pp_errorCount p \<le> 1"
  shows "few_errors (do_restart out now p)"
proof -
  obtain e p' where r: "restart out now p = (e, p')" by (rule prod.exhaust)
  then show ?thesis
    by (cases rule: restart_cases) (use assms r in \<open>auto simp: do_restart_def few_errors_def\<close>)
qed

lemma few_errors_step: "few_errors x \<Longrightarrow> few_errors (snd (capture_event x ev))"
proof (induction x ev rule: capture_event.induct)
  case (1 p alive now buf data)
  then show ?case
  proof (cases "read_candidate now buf data p")
    case (Some r)
    then obtain es p' where r: "read_candidate now buf data p = Some (es, p')" by (cases r) auto
    obtain c l where "p' = p\<lparr>pp_frameBuffer := c, pp_lastFrameNS := l\<rparr>" using read_candidate_frame [OF r] by blast
    then show ?thesis using 1 r by (auto simp: few_errors_def split: if_splits)
  qed (auto simp: few_errors_def split: if_splits)
next
  case (2 p alive now out now')
  then show ?case using few_errors_restart [of "p\<lparr>pp_errorCount := i64 (pp_errorCount p + 1)\<rparr>" out now']
    by (auto simp: few_errors_def handle_error_def Let_def split: if_splits)
next
  case (3 p alive now out now')
  then show ?case using few_errors_restart [of p out now']
    by (auto simp: few_errors_def split: if_splits)
qed

interpretation captures: preserved capture_event few_errors
  by unfold_locales (rule few_errors_step)

text \<open>The pause after many errors never happens: however the images, read errors, failed and successful
  restarts and health checks of a capture follow each other, handleError never sleeps, since every
  successful restart clears the count and without one there is no reader that could fail again; so
  a camera whose stream fails at once is restarted again and again with a second in between.\<close>

theorem error_pause_never_taken:
  assumes "new_persistent_capture cam url q fps bs t0 t1 = p0" and "start_capture out p0 = (None, p)"
  shows "\<forall>(d, r) \<in> set (trace capture_event (p, True) es). d = 0"
proof -
  have "few_errors (p, True)"
    using assms by (auto simp: few_errors_def start_capture_ok started_def)
  moreover have "fst (fst (capture_event x ev)) = 0" if "few_errors x" for x ev
    using that by (induction x ev rule: capture_event.induct)
      (auto simp: few_errors_def handle_error_def Let_def split: option.splits prod.splits)
  ultimately have "\<forall>o' \<in> set (trace capture_event (p, True) es). fst o' = 0"
    using captures.inv_final by (induction es rule: rev_induct) (auto simp: trace_append)
  then show ?thesis by auto
qed

definition demo_capture :: pcapture where
  "demo_capture = new_persistent_capture ''cam1'' ''rtsp://camera/'' 5 15 50 1 1"

theorem error_pause_never_taken_witness:
  "map fst (trace capture_event (started demo_capture, True) (replicate 7 (ReadError 2 Started 3))) = replicate 7 0"
proof -
  have "\<forall>(d, r) \<in> set (trace capture_event (started demo_capture, True) (replicate 7 (ReadError 2 Started 3))). d = 0"
    by (rule error_pause_never_taken [OF demo_capture_def [symmetric], of Started])
      (simp add: start_capture_ok demo_capture_def)
  then show ?thesis by (intro replicate_eqI) auto
qed

text \<open>No frame since \<open>l\<close>, and contexts are numbered.\<close>

definition silent :: "int \<Rightarrow> pcapture \<times> bool \<Rightarrow> bool" where
  "silent l x \<longleftrightarrow> \<not> pp_cancelled (fst x) \<and> \<not> pp_restarting (fst x) \<and> pp_lastFrameNS (fst x) = l
     \<and> (\<forall>c \<in> pp_over (fst x) \<union> set_option (pp_readCtx (fst x)). c < pp_next (fst x))"

fun is_image :: "cap_event2 \<Rightarrow> bool" where
  "is_image (Image now buf data) \<longleftrightarrow> True" | "is_image ev \<longleftrightarrow> False"

lemma silent_restart:
  assumes "silent l (p, b)" and "do_restart out now p = (p', alive)"
  shows "silent l (p', alive) \<and> alive = (out = Started) \<and> (alive \<longrightarrow> \<not> read_done p' \<and> pp_proc p' \<noteq> None)"
proof -
  obtain e where r: "restart out now p = (e, p')" "alive = (e = None)"
    using assms(2) by (auto simp: do_restart_def split: prod.splits)
  have over: "pp_over (read_cancel p) = pp_over p \<union> set_option (pp_readCtx p)"
    by (simp add: read_cancel_def split: option.splits)
  show ?thesis using r(1)
  proof (cases rule: restart_cases)
    case busy
    then show ?thesis using assms(1) by (simp add: silent_def)
  next
    case failed
    then show ?thesis using assms(1) r(2) by (auto simp: silent_def over)
  next
    case restarted
    have lt: "\<forall>c \<in> pp_over p \<union> set_option (pp_readCtx p). c < pp_next p" using assms(1) by (simp add: silent_def)
    then have "Suc (pp_next p) \<notin> pp_over p \<union> set_option (pp_readCtx p)"
      by (metis not_less_eq less_irrefl less_SucI)
    moreover have "\<forall>c \<in> pp_over p \<union> set_option (pp_readCtx p). c < Suc (Suc (pp_next p))"
      using lt less_SucI by blast
    ultimately show ?thesis using restarted assms(1) r(2) by (simp add: silent_def over read_done_def)
  qed
qed

lemma silent_step:
  assumes "silent l x" and "\<not> is_image ev"
  shows "silent l (snd (capture_event x ev))"
  using assms
proof (induction x ev rule: capture_event.induct)
  case (2 p alive now out now')
  have "silent l (p\<lparr>pp_errorCount := i64 (pp_errorCount p + 1)\<rparr>, alive)" using 2(1) by (simp add: silent_def)
  from silent_restart [OF this] 2(1) show ?case
    by (cases "do_restart out now' (p\<lparr>pp_errorCount := i64 (pp_errorCount p + 1)\<rparr>)")
      (auto simp: handle_error_def Let_def silent_def)
next
  case (3 p alive now out now')
  from silent_restart [OF 3(1)] 3(1) show ?case by (cases "do_restart out now' p") (auto simp: silent_def)
qed simp

text \<open>A silent camera is restarted by every health check: while no image arrives, whatever read errors
  and failed or successful restarts happen, each tick more than 30 seconds after the last frame
  calls Restart, and when the process starts a reader runs on it under a fresh context; the age of
  the process itself is not looked at, so one that has just been started is replaced as well.\<close>

theorem silent_capture_restarted:
  assumes "silent l (p, alive)" and "l \<noteq> 0" and "\<forall>ev \<in> set es. \<not> is_image ev" and "30 * second < since now l"
    and "capture_event (final capture_event (p, alive) es) (HealthTick now out now') = ((d, restarted), (p', alive'))"
  shows "restarted \<and> alive' = (out = Started) \<and> (alive' \<longrightarrow> \<not> read_done p' \<and> pp_proc p' \<noteq> None)"
proof -
  have "silent l (final capture_event x es)" if "silent l x" "\<forall>ev \<in> set es. \<not> is_image ev" for x
    using that by (induction es arbitrary: x) (simp_all add: silent_step)
  then have s: "silent l (final capture_event (p, alive) es)" using assms(1,3) by blast
  obtain q a where qa: "final capture_event (p, alive) es = (q, a)" by (rule prod.exhaust)
  have "health_due now q" "\<not> pp_cancelled q"
    using s assms(2,4) by (simp_all add: qa silent_def health_due_def time_since_last_frame_def)
  then have "restarted" "do_restart out now' q = (p', alive')" using assms(5) by (simp_all add: qa)
  then show ?thesis using silent_restart [OF s [unfolded qa]] by blast
qed

theorem silent_capture_restarted_witness:
  "fst (capture_event (final capture_event (started demo_capture, True) [ReadError 2 (NotStarted (errorf [])) 3])
     (HealthTick (40 * second) Started 4)) = (0, True)"
proof -
  let ?x = "final capture_event (started demo_capture, True) [ReadError 2 (NotStarted (errorf [])) 3]"
  obtain d r p' a' where e: "capture_event ?x (HealthTick (40 * second) Started 4) = ((d, r), (p', a'))"
    by (metis prod.exhaust)
  have "silent 1 (started demo_capture, True)"
    by (auto simp: silent_def demo_capture_def started_def new_persistent_capture_def)
  from silent_capture_restarted [OF this _ _ _ e] have "r" by (simp add: since_greater_iff)
  moreover have "d = 0" using e by (cases ?x) (auto split: if_splits)
  ultimately show ?thesis using e by simp
qed

subsection \<open>The goroutines of a capture\<close>

text \<open>
  A reader of the output of process \<open>g\<close>: before the test of its context, past it, and after a failed
  read; a caller of \<open>Restart\<close> (the health check if \<open>True\<close>, else a reader) before it has the mutex and
  between the halves of \<open>Restart\<close>; the health check between two ticks.  The processes that run and
  whether the mutex is held are part of the state; \<open>cs_panic\<close> is the end of the program.
\<close>

datatype cap_thread = RdCheck nat | RdRead nat | RdFailed nat | CallRestart bool | InRestart bool | HealthIdle

record cap_threads =
  cs_p :: pcapture
  cs_locked :: bool
  cs_threads :: "cap_thread multiset"
  cs_alive :: "nat set"
  cs_panic :: bool

definition after_restart :: "bool \<Rightarrow> cap_thread multiset \<Rightarrow> cap_thread multiset" where
  "after_restart health T = (if health then add_mset HealthIdle T else T)"

inductive cap_action :: "cap_threads \<Rightarrow> cap_threads \<Rightarrow> bool" where
  start: "\<not> cs_locked s \<Longrightarrow> \<not> pp_cancelled (cs_p s) \<Longrightarrow> start_capture Started (cs_p s) = (None, p) \<Longrightarrow>
    cap_action s (s\<lparr>cs_p := p, cs_threads := {#RdCheck (pp_next (cs_p s)), HealthIdle#} + cs_threads s,
      cs_alive := insert (pp_next (cs_p s)) (cs_alive s)\<rparr>)"
| start_fails: "\<not> cs_locked s \<Longrightarrow> start_capture out (cs_p s) = (Some e, p) \<Longrightarrow> cap_action s (s\<lparr>cs_p := p\<rparr>)"
| reader_stops: "cs_threads s = add_mset (RdCheck g) T \<Longrightarrow> read_done (cs_p s) \<Longrightarrow>
    cap_action s (s\<lparr>cs_threads := T\<rparr>)"
| reader_goes: "cs_threads s = add_mset (RdCheck g) T \<Longrightarrow> \<not> read_done (cs_p s) \<Longrightarrow>
    cap_action s (s\<lparr>cs_threads := add_mset (RdRead g) T\<rparr>)"
| reads: "cs_threads s = add_mset (RdRead g) T \<Longrightarrow> read_candidate now buf data (cs_p s) = Some (es, p) \<Longrightarrow>
    cap_action s (s\<lparr>cs_p := p, cs_threads := add_mset (RdCheck g) T\<rparr>)"
| reads_closed: "cs_threads s = add_mset (RdRead g) T \<Longrightarrow> read_candidate now buf data (cs_p s) = None \<Longrightarrow>
    cap_action s (s\<lparr>cs_panic := True\<rparr>)"
| read_fails: "cs_threads s = add_mset (RdRead g) T \<Longrightarrow>
    cap_action s (s\<lparr>cs_threads := add_mset (RdFailed g) T\<rparr>)"
| fails_quietly: "cs_threads s = add_mset (RdFailed g) T \<Longrightarrow> read_done (cs_p s) \<Longrightarrow>
    cap_action s (s\<lparr>cs_threads := T\<rparr>)"
| handles: "cs_threads s = add_mset (RdFailed g) T \<Longrightarrow> \<not> read_done (cs_p s) \<Longrightarrow> handle_error now (cs_p s) = (d, p) \<Longrightarrow>
    cap_action s (s\<lparr>cs_p := p, cs_threads := add_mset (CallRestart False) T\<rparr>)"
| health: "cs_threads s = add_mset HealthIdle T \<Longrightarrow> health_due now (cs_p s) \<Longrightarrow>
    cap_action s (s\<lparr>cs_threads := add_mset (CallRestart True) T\<rparr>)"
| health_stops: "cs_threads s = add_mset HealthIdle T \<Longrightarrow> pp_cancelled (cs_p s) \<Longrightarrow>
    cap_action s (s\<lparr>cs_threads := T\<rparr>)"
| restarts: "cs_threads s = add_mset (CallRestart m) T \<Longrightarrow> \<not> cs_locked s \<Longrightarrow> restart_begin (cs_p s) = (True, p) \<Longrightarrow>
    cap_action s (s\<lparr>cs_p := p, cs_locked := True, cs_threads := add_mset (InRestart m) T,
      cs_alive := cs_alive s - set_option (pp_proc (cs_p s))\<rparr>)"
| ignored: "cs_threads s = add_mset (CallRestart m) T \<Longrightarrow> \<not> cs_locked s \<Longrightarrow> restart_begin (cs_p s) = (False, p) \<Longrightarrow>
    cap_action s (s\<lparr>cs_threads := after_restart m T\<rparr>)"
| restarted: "cs_threads s = add_mset (InRestart m) T \<Longrightarrow> \<not> pp_cancelled (cs_p s) \<Longrightarrow>
    restart_end Started now (cs_p s) = (None, p) \<Longrightarrow>
    cap_action s (s\<lparr>cs_p := p, cs_locked := False, cs_threads := add_mset (RdCheck (pp_next (cs_p s))) (after_restart m T),
      cs_alive := insert (pp_next (cs_p s)) (cs_alive s)\<rparr>)"
| not_restarted: "cs_threads s = add_mset (InRestart m) T \<Longrightarrow> restart_end out now (cs_p s) = (Some e, p) \<Longrightarrow>
    cap_action s (s\<lparr>cs_p := p, cs_locked := False, cs_threads := after_restart m T\<rparr>)"
| stop: "\<not> cs_locked s \<Longrightarrow> stop_capture (cs_p s) = Some p \<Longrightarrow>
    cap_action s (s\<lparr>cs_p := p, cs_alive := cs_alive s - (if pp_running (cs_p s) then set_option (pp_proc (cs_p s)) else {})\<rparr>)"
| takes: "get_frame_non_blocking (cs_p s) = (f, p) \<Longrightarrow> cap_action s (s\<lparr>cs_p := p\<rparr>)"
| dies: "cap_action s (s\<lparr>cs_alive := cs_alive s - {g}\<rparr>)"

inductive cap_reach :: "cap_threads \<Rightarrow> cap_threads \<Rightarrow> bool" for s0 where
  here: "cap_reach s0 s0"
| step: "cap_reach s0 s \<Longrightarrow> \<not> cs_panic s \<Longrightarrow> cap_action s s' \<Longrightarrow> cap_reach s0 s'"

definition cap_start :: "pcapture \<Rightarrow> cap_threads" where
  "cap_start p = \<lparr>cs_p = p, cs_locked = False, cs_threads = {#}, cs_alive = {}, cs_panic = False\<rparr>"

lemma cap_go: "cap_reach s0 s \<Longrightarrow> \<not> cs_panic s \<Longrightarrow> cap_action s s' \<Longrightarrow> s' = t \<Longrightarrow> cap_reach s0 t"
  by (blast intro: step)

lemma cap_reach_inv:
  assumes "cap_reach s0 s" and "P s0" and "\<And>s s'. cap_action s s' \<Longrightarrow> P s \<Longrightarrow> P s'"
  shows "P s"
  using assms by induction auto

subsection \<open>One process at a time\<close>

fun is_restarting :: "cap_thread \<Rightarrow> bool" where
  "is_restarting (InRestart m) \<longleftrightarrow> True" | "is_restarting _ \<longleftrightarrow> False"

definition one_process :: "cap_threads \<Rightarrow> bool" where
  "one_process s \<longleftrightarrow> cs_alive s \<subseteq> set_option (pp_proc (cs_p s))
   \<and> size (filter_mset is_restarting (cs_threads s)) = (if cs_locked s then 1 else 0)
   \<and> (pp_restarting (cs_p s) \<longleftrightarrow> cs_locked s)
   \<and> (cs_locked s \<longrightarrow> pp_proc (cs_p s) = None)
   \<and> (\<not> pp_running (cs_p s) \<longrightarrow> pp_proc (cs_p s) = None)
   \<and> (pp_running (cs_p s) \<or> pp_cancelled (cs_p s) \<or> cs_threads s = {#})"

lemma filter_after_restart [simp]: "filter_mset is_restarting (after_restart m T) = filter_mset is_restarting T"
  by (simp add: after_restart_def)

lemmas cap_op_defs = restart_begin_def restart_end_def start_ffmpeg2_def new_read_ctx_def handle_error_def Let_def

lemma stop_capture_cases:
  assumes "stop_capture p = Some p'"
  shows "\<not> pp_running p \<and> p' = p
    \<or> pp_running p \<and> \<not> ch_closed (pp_frameBuffer p) \<and> p' = (read_cancel (p\<lparr>pp_cancelled := True\<rparr>))\<lparr>pp_proc := None,
        pp_frameBuffer := (pp_frameBuffer p)\<lparr>ch_closed := True\<rparr>, pp_running := False\<rparr>"
  using assms by (auto simp: stop_capture_def chan_close_def Let_def split: if_splits)

lemma restart_end_cases:
  assumes "restart_end out now p = (e, p')"
  shows "e \<noteq> None \<and> p' = p\<lparr>pp_proc := None, pp_restarting := False\<rparr>
    \<or> e = None \<and> out = Started \<and> p' = p\<lparr>pp_proc := Some (pp_next p), pp_readCtx := Some (Suc (pp_next p)),
        pp_next := Suc (Suc (pp_next p)), pp_lastRestart := now, pp_errorCount := 0, pp_restarting := False\<rparr>"
  using assms by (cases out) (auto simp: restart_end_def start_ffmpeg2_def new_read_ctx_def)

lemma restart_begin_cases:
  assumes "restart_begin p = (b, p')"
  shows "\<not> b \<and> pp_restarting p \<and> p' = p
    \<or> b \<and> \<not> pp_restarting p \<and> p' = (read_cancel (p\<lparr>pp_restarting := True\<rparr>))\<lparr>pp_proc := None\<rparr>"
  using assms by (auto simp: restart_begin_def split: if_splits)

lemma one_process_step:
  assumes "cap_action s s'" and "one_process s"
  shows "one_process s'"
  using assms(1)
proof cases
  case (start p)
  then show ?thesis using assms(2) by (auto simp: one_process_def start_capture_ok started_def)
next
  case (start_fails out e p)
  then show ?thesis using assms(2) start_capture_failed [OF start_fails(3)] by (auto simp: one_process_def)
next
  case (reads g T now buf data es p)
  obtain c l where "p = (cs_p s)\<lparr>pp_frameBuffer := c, pp_lastFrameNS := l\<rparr>"
    using read_candidate_frame [OF reads(3)] by blast
  then show ?thesis using assms(2) reads(1,2) by (simp add: one_process_def)
next
  case (handles g T now d p)
  obtain c where "p = (cs_p s)\<lparr>pp_errorCount := c\<rparr>"
    using handles(4) by (auto simp: handle_error_def Let_def)
  then show ?thesis using assms(2) handles(1,2) by (simp add: one_process_def)
next
  case (restarts m T p)
  then show ?thesis using assms(2) restart_begin_cases [OF restarts(4)] by (auto simp: one_process_def)
next
  case (restarted m T now p)
  have "pp_running (cs_p s)" using assms(2) restarted(2,3) by (simp add: one_process_def)
  then show ?thesis using assms(2) restarted restart_end_cases [OF restarted(4)] by (auto simp: one_process_def)
next
  case (not_restarted m T out now e p)
  then show ?thesis using assms(2) restart_end_cases [OF not_restarted(3)]
    by (auto simp: one_process_def split: if_splits)
next
  case (stop p)
  then show ?thesis using assms(2) stop_capture_cases [OF stop(3)] by (auto simp: one_process_def split: if_splits)
next
  case (takes f p)
  then show ?thesis using assms(2) by (auto simp: one_process_def get_frame_non_blocking_def split: recv.splits)
qed (use assms(2) in \<open>(auto simp: one_process_def split: if_splits)\<close>)

text \<open>C28: At most one FFmpeg process: from a new capture on, whatever calls of Start and Stop, images,
  failing readers, health checks and restarts are interleaved, the only process that may run is the
  one the capture refers to; at most one goroutine is inside Restart, and whenever the mutex is
  free the flag restarting is clear, so a second caller of Restart is never turned away: it
  restarts the process once more.\<close>

theorem one_ffmpeg_process:
  assumes "cap_reach (cap_start (new_persistent_capture cam url q fps bs t0 t1)) s"
  shows "cs_alive s \<subseteq> set_option (pp_proc (cs_p s))
    \<and> size (filter_mset is_restarting (cs_threads s)) \<le> 1
    \<and> (\<not> cs_locked s \<longrightarrow> fst (restart_begin (cs_p s)))"
proof -
  have "one_process (cap_start (new_persistent_capture cam url q fps bs t0 t1))"
    by (simp add: cap_start_def one_process_def)
  then have "one_process s" by (rule cap_reach_inv [OF assms]) (rule one_process_step)
  then show ?thesis by (auto simp: one_process_def restart_begin_def)
qed

theorem one_ffmpeg_process_witness:
  "\<exists>s :: cap_threads. cs_alive s = {0} \<and> cs_alive s \<subseteq> set_option (pp_proc (cs_p s))"
proof -
  let ?s = "(cap_start demo_capture)\<lparr>cs_p := started demo_capture, cs_threads := {#RdCheck 0, HealthIdle#}, cs_alive := {0}\<rparr>"
  have "cap_reach (cap_start demo_capture) ?s"
    by (rule cap_go [OF cap_reach.here _ cap_action.start [of "cap_start demo_capture" "started demo_capture"]])
      (simp_all add: start_capture_ok cap_start_def demo_capture_def)
  then have "cs_alive ?s \<subseteq> set_option (pp_proc (cs_p ?s))"
    by (rule conjunct1 [OF one_ffmpeg_process [of "''cam1''" "''rtsp://camera/''" 5 15 50 1 1, folded demo_capture_def]])
  moreover have "cs_alive ?s = {0}" by simp
  ultimately have "cs_alive ?s = {0} \<and> cs_alive ?s \<subseteq> set_option (pp_proc (cs_p ?s))" by simp
  then show ?thesis by (rule exI [of "\<lambda>s. cs_alive s = {0} \<and> cs_alive s \<subseteq> set_option (pp_proc (cs_p s))"])
qed

subsection \<open>Two races\<close>

text \<open>Stop can crash the program: it closes the channel of frames while a reader that has passed the
  test of its context may still complete an image; sending it on the closed channel panics.\<close>

theorem stop_can_panic:
  "\<exists>s. cap_reach (cap_start (new_persistent_capture cam url q fps bs t0 t1)) s \<and> cs_panic s"
proof -
  let ?new = "new_persistent_capture cam url q fps bs t0 t1"
  let ?p = "started ?new"
  have nd: "\<not> read_done ?p" by (simp add: read_done_def started_def)
  let ?T = "{#HealthIdle#}"
  let ?run = "\<lparr>cs_p = ?p, cs_locked = False, cs_threads = add_mset (RdCheck 0) ?T, cs_alive = {0}, cs_panic = False\<rparr>"
  have 1: "cap_reach (cap_start ?new) ?run"
    by (rule cap_go [OF cap_reach.here [of "cap_start ?new"] _ cap_action.start [of "cap_start ?new" ?p]])
      (simp_all add: start_capture_ok cap_start_def)
  have 2: "cap_reach (cap_start ?new) (?run\<lparr>cs_threads := add_mset (RdRead 0) ?T\<rparr>)"
    by (rule cap_go [OF 1 _ reader_goes [of _ 0 ?T]]) (simp_all add: nd)
  obtain p2 where p2: "stop_capture ?p = Some p2" "ch_closed (pp_frameBuffer p2)"
    by (auto simp: stop_capture_def started_def chan_close_def read_cancel_def)
  have 3: "cap_reach (cap_start ?new) (?run\<lparr>cs_p := p2, cs_threads := add_mset (RdRead 0) ?T, cs_alive := {}\<rparr>)"
    by (rule cap_go [OF 2 _ stop [of _ p2]]) (simp_all add: p2, simp add: started_def)
  have none: "read_candidate 0 0 (jpegSOI @ jpegEOI) p2 = None"
    using p2(2) by (simp add: read_candidate_def reader_candidate_def chan_send_def)
  let ?final = "?run\<lparr>cs_p := p2, cs_threads := add_mset (RdRead 0) ?T, cs_alive := {}, cs_panic := True\<rparr>"
  have "cap_reach (cap_start ?new) ?final"
    by (rule cap_go [OF 3 _ reads_closed [of _ 0 ?T 0 0 "jpegSOI @ jpegEOI"]]) (simp_all add: none)
  moreover have "cs_panic ?final" by simp
  ultimately show ?thesis by blast
qed

text \<open>
  A reader tests the capture's current context, not the one it was started with: one whose process
  was killed by the health check, and which notices only after the new process has started, takes
  the failure for a new one and restarts the healthy process.
\<close>

lemma stale_reader_restarts_again:
  "\<exists>s s'. cap_reach (cap_start (new_persistent_capture cam url q fps bs t0 t1)) s
     \<and> cs_alive s = {2} \<and> RdCheck 2 \<in># cs_threads s \<and> CallRestart False \<in># cs_threads s
     \<and> cap_action s s' \<and> cs_alive s' = {}"
proof -
  let ?new = "new_persistent_capture cam url q fps bs t0 t1"
  define a where "a = started ?new"
  define b where "b = (read_cancel (a\<lparr>pp_restarting := True\<rparr>))\<lparr>pp_proc := None\<rparr>"
  define now where "now = max t0 (i64 t1) + 31 * second"
  obtain c where c: "restart_end Started now b = (None, c)" by (simp add: restart_end_def start_ffmpeg2_def)
  have cd: "\<not> read_done c" "pp_proc c = Some 2" "\<not> pp_restarting c" "\<not> pp_cancelled c"
    using restart_end_cases [OF c]
    by (auto simp: b_def a_def started_def read_done_def read_cancel_def new_persistent_capture_def Let_def)
  have due: "health_due now a"
    by (auto simp: health_due_def time_since_last_frame_def a_def started_def new_persistent_capture_def Let_def
        since_greater_iff now_def)
  have nd: "\<not> read_done a" by (simp add: read_done_def a_def started_def)
  let ?S = "\<lambda>p l T al. \<lparr>cs_p = p, cs_locked = l, cs_threads = T, cs_alive = al, cs_panic = False\<rparr>"
  note reach = cap_go [where ?s0.0 = "cap_start ?new"]
  have "cap_reach (cap_start ?new) (?S a False {#RdCheck 0, HealthIdle#} {0})"
    by (rule reach [OF cap_reach.here _ cap_action.start [of "cap_start ?new" a]])
      (simp_all add: start_capture_ok cap_start_def a_def)
  from reach [OF this _ reader_goes [of _ 0 "{#HealthIdle#}"]]
  have "cap_reach (cap_start ?new) (?S a False {#HealthIdle, RdRead 0#} {0})" by (simp add: nd add_mset_commute)
  from reach [OF this _ health [of _ "{#RdRead 0#}" now]]
  have "cap_reach (cap_start ?new) (?S a False {#CallRestart True, RdRead 0#} {0})" by (simp add: due)
  from reach [OF this _ restarts [of _ True "{#RdRead 0#}" b]]
  have "cap_reach (cap_start ?new) (?S b True {#RdRead 0, InRestart True#} {})"
    by (simp add: restart_begin_def b_def add_mset_commute) (simp add: a_def started_def)
  from reach [OF this _ read_fails [of _ 0 "{#InRestart True#}"]]
  have "cap_reach (cap_start ?new) (?S b True {#InRestart True, RdFailed 0#} {})" by (simp add: add_mset_commute)
  from reach [OF this _ restarted [of _ True "{#RdFailed 0#}" now c]]
  have "cap_reach (cap_start ?new) (?S c False {#RdFailed 0, RdCheck 2, HealthIdle#} {2})"
    using c by (simp add: after_restart_def add_mset_commute)
      (simp add: b_def a_def started_def numeral_2_eq_2 add_mset_commute)
  from reach [OF this _ handles [of _ 0 "{#RdCheck 2, HealthIdle#}" now]]
  have r: "cap_reach (cap_start ?new) (?S (c\<lparr>pp_errorCount := i64 (pp_errorCount c + 1)\<rparr>) False
      {#CallRestart False, RdCheck 2, HealthIdle#} {2})" (is "cap_reach _ ?s")
    by (simp add: cd handle_error_def Let_def)
  have "cap_action ?s (?S ((read_cancel (c\<lparr>pp_errorCount := i64 (pp_errorCount c + 1), pp_restarting := True\<rparr>))\<lparr>pp_proc := None\<rparr>)
      True {#InRestart False, RdCheck 2, HealthIdle#} {})" (is "cap_action _ ?t")
    using cap_action.restarts [of ?s False "{#RdCheck 2, HealthIdle#}"] cd by (simp add: restart_begin_def)
  then have "cap_reach (cap_start ?new) ?s \<and> cs_alive ?s = {2} \<and> RdCheck 2 \<in># cs_threads ?s
      \<and> CallRestart False \<in># cs_threads ?s \<and> cap_action ?s ?t \<and> cs_alive ?t = {}" using r by simp
  then show ?thesis by blast
qed

end
