(* ===== verification/CaptureLoops.thy ===== *)
theory CaptureLoops
  imports PersistentCapture WorkerPool
begin

section \<open>The loops of a capture\<close>

text \<open>
  \<open>pkg/camera/camera.go\<close>, around the operations of \<open>CaptureModel\<close>: how a capture is made and
  started, the rounds of its classic and its persistent loop with the monitor and the memory
  controller they act on, and the rounds of the dispatcher.  A round's readings of the clock and what
  FFmpeg answers are its input.
\<close>

record capture_v1 =
  cv_ID :: string
  cv_URL :: string
  cv_interval :: duration
  cv_frameBuffer :: frame_buffer
  cv_circuitBreaker :: breaker
  cv_persistentCapture :: "pcapture option"
  cv_usePersistent :: bool

text \<open>\<open>None\<close> is the panic of the division by an interval of zero.\<close>

definition new_capture :: "string \<Rightarrow> string \<Rightarrow> duration \<Rightarrow> frame_buffer \<Rightarrow> breaker \<Rightarrow> bool \<Rightarrow> int
    \<Rightarrow> time \<times> time \<Rightarrow> capture_v1 option" where
  "new_capture cam url interval fb b usePersistent persistentBufferSize ts =
     (let c = \<lparr>cv_ID = cam, cv_URL = url, cv_interval = interval, cv_frameBuffer = fb, cv_circuitBreaker = b,
               cv_persistentCapture = None, cv_usePersistent = usePersistent\<rparr>
      in if usePersistent then (case persistent_fps interval of
           None \<Rightarrow> None
         | Some fps \<Rightarrow> Some (c\<lparr>cv_persistentCapture :=
             Some (new_persistent_capture cam url 5 fps persistentBufferSize (fst ts) (snd ts))\<rparr>))
         else Some c)"

text \<open>The command line of the classic mode.\<close>

definition classic_args :: "capture_v1 \<Rightarrow> string list" where
  "classic_args c = [''ffmpeg'', ''-loglevel'', ''error'', ''-rtsp_transport'', ''tcp'', ''-fflags'', ''nobuffer'',
     ''-flags'', ''low_delay'', ''-max_delay'', ''0'', ''-i'', cv_URL c, ''-frames:v'', ''1'', ''-f'', ''image2pipe'',
     ''-vcodec'', ''mjpeg'', ''-q:v'', ''5'', ''-'']"

datatype loop_mode = PersistentLoop | ClassicLoop

definition capture_start :: "bool \<Rightarrow> start_outcome \<Rightarrow> capture_v1 \<Rightarrow> (loop_mode \<times> cap_event list) \<times> capture_v1" where
  "capture_start has_monitor out c =
     (case (cv_usePersistent c, cv_persistentCapture c) of
        (True, Some p) \<Rightarrow> (case start_capture out p of
            (Some err, p') \<Rightarrow> ((ClassicLoop, (if has_monitor then [EvMonFailure err] else []) @ [EvConnected True]),
               c\<lparr>cv_persistentCapture := Some p', cv_usePersistent := False\<rparr>)
          | (None, p') \<Rightarrow> ((PersistentLoop, EvConnected True # (if has_monitor then [EvMonSuccess] else [])),
               c\<lparr>cv_persistentCapture := Some p'\<rparr>))
      | _ \<Rightarrow> ((ClassicLoop, [EvConnected True]), c))"

subsection \<open>The dispatcher\<close>

text \<open>
  A round of \<open>bufferDispatcher\<close>: what \<open>PopBlocking\<close> returned, what \<open>Submit\<close> answered (\<open>None\<close>: it took
  the job), and what the steps of the job gave if the dispatcher had to run it itself.
\<close>

datatype dispatch = DispatcherEnds | Submitted | RanHere "goerr option"

definition dispatch_round :: "bool \<Rightarrow> frame option \<Rightarrow> goerr option \<Rightarrow> outcomes \<Rightarrow> frame_buffer
    \<Rightarrow> dispatch option \<times> cap_event list" where
  "dispatch_round ctx_done popped submitted ou fb = (case popped of
     None \<Rightarrow> (if ctx_done then Some DispatcherEnds else None, [])
   | Some f \<Rightarrow> (case submitted of
       None \<Rightarrow> (Some Submitted, [EvBufferSize (fb_size fb)])
     | Some e \<Rightarrow> let (err, es) = process_job ou f
                 in (Some (RanHere err), EvDropped ''worker_pool_full'' 1 # es @ [EvBufferSize (fb_size fb)])))"

subsection \<open>What the loops do to the monitor\<close>

text \<open>The calls to the monitor among the effects of a round; \<open>ts\<close> are the two clocks of \<open>RecordSuccess\<close>.\<close>

fun mon_op_of :: "string \<Rightarrow> time \<times> time \<Rightarrow> cap_event \<Rightarrow> mon_op list" where
  "mon_op_of cam ts (EvMonFailure err) = [Failure cam (Some err)]"
| "mon_op_of cam ts EvMonSuccess = [Success cam (fst ts) (snd ts)]"
| "mon_op_of cam ts _ = []"

definition mon_ops :: "string \<Rightarrow> time \<times> time \<Rightarrow> cap_event list \<Rightarrow> mon_op list" where
  "mon_ops cam ts es = concat (map (mon_op_of cam ts) es)"

subsection \<open>The classic loop\<close>

record round_input =
  ri_gate :: "time \<times> time"
  ri_start :: time
  ri_allow :: "time \<times> time"
  ri_buf :: nat
  ri_result :: "goerr + byte list"
  ri_frame :: time
  ri_record :: "time \<times> time"
  ri_monitor :: "time \<times> time"
  ri_elapsed :: time

record loop_sys =
  ls_controller :: "controller option"
  ls_breaker :: breaker
  ls_frameBuffer :: frame_buffer
  ls_monitor :: monitor

text \<open>
  A round of \<open>classicCaptureLoop\<close> whose context is not over: its effects, the time it sleeps in all,
  and what it has changed.
\<close>

definition round_sleep :: "duration \<Rightarrow> cap_event list \<Rightarrow> bool \<Rightarrow> time \<Rightarrow> time \<Rightarrow> duration" where
  "round_sleep interval gate captured start now =
     sum_list (concat (map (\<lambda>e. case e of EvPaused d \<Rightarrow> [d] | EvThrottled d \<Rightarrow> [d] | _ \<Rightarrow> []) gate))
     + (if captured then (let sleepTime = i64 (interval - since now start) in if 0 < sleepTime then sleepTime else 0)
        else 0)"

definition classic_round :: "string \<Rightarrow> duration \<Rightarrow> round_input \<Rightarrow> loop_sys
    \<Rightarrow> (cap_event list \<times> mon_event list \<times> duration) \<times> loop_sys" where
  "classic_round cam interval ri s =
     (let (gate, mco, go) = memory_gate cam (fst (ri_gate ri)) (snd (ri_gate ri)) (ls_controller s);
          sleep = round_sleep interval gate go (ri_start ri) (ri_elapsed ri);
          s1 = s\<lparr>ls_controller := mco\<rparr>
      in if \<not> go then ((gate, [], sleep), s1)
         else let (es, b, fb) = capture_and_publish cam True (ri_allow ri) (ri_record ri) (ri_frame ri)
                      (ri_buf ri) (ri_result ri) (ls_breaker s) (ls_frameBuffer s);
                  ops = mon_ops cam (ri_monitor ri) es
              in ((gate @ es, concat (trace mon_step (ls_monitor s) ops), sleep),
                  s1\<lparr>ls_breaker := b, ls_frameBuffer := fb, ls_monitor := final mon_step (ls_monitor s) ops\<rparr>))"

subsection \<open>The persistent loop\<close>

text \<open>A tick of \<open>persistentCaptureLoop\<close> with its count of failures, and the monitor.\<close>

definition persistent_round :: "string \<Rightarrow> time \<Rightarrow> time \<times> time
    \<Rightarrow> (int \<times> (nat \<times> byte list) chan \<times> frame_buffer) \<times> monitor
    \<Rightarrow> (cap_event list \<times> mon_event list) \<times> (int \<times> (nat \<times> byte list) chan \<times> frame_buffer) \<times> monitor" where
  "persistent_round cam now ts st = (case st of (s, m) \<Rightarrow>
     let (es, s') = persistent_tick cam True now s; ops = mon_ops cam ts es
     in ((es, concat (trace mon_step m ops)), s', final mon_step m ops))"

text \<open>The end of the loop when its context is over: the process is stopped (\<open>None\<close>: a second \<open>Stop\<close> panics).\<close>

definition persistent_end :: "pcapture \<Rightarrow> (cap_event list \<times> pcapture) option" where
  "persistent_end p = map_option (\<lambda>p'. ([EvConnected False], p')) (stop_capture p)"

subsection \<open>The memory controller slows and pauses the classic loop\<close>

lemma classic_paused:
  assumes "ls_controller s = Some mc" and "mc_currentLevel mc = MemoryEmergency"
  shows "classic_round cam interval ri s = (([EvPaused (2 * second)], [], 2 * second),
    s\<lparr>ls_controller := Some (snd (get_throttle_delay cam (fst (ri_gate ri)) (snd (ri_gate ri)) mc))\<rparr>)"
  using assms by (simp add: classic_round_def memory_gate_def should_pause_def get_throttle_delay_def round_sleep_def Let_def)

lemma gate_level:
  assumes "memory_gate cam t t' (Some mc) = (gate, mco, go)"
  shows "(go \<longleftrightarrow> mc_currentLevel mc \<noteq> MemoryEmergency)
    \<and> gate = (case mc_currentLevel mc of MemoryEmergency \<Rightarrow> [EvPaused (2 * second)]
        | MemoryCritical \<Rightarrow> [EvThrottled (500 * millisecond)] | _ \<Rightarrow> [])"
  using assms
  by (cases "mc_currentLevel mc")
    (auto simp: memory_gate_def should_pause_def should_throttle_def get_throttle_delay_def Let_def)

lemma gate_open:
  assumes "ls_controller s = Some mc" and "mc_currentLevel mc \<notin> {MemoryCritical, MemoryEmergency}"
  shows "classic_round cam interval ri s =
    (let (out, s') = classic_round cam interval ri (s\<lparr>ls_controller := None\<rparr>) in (out, s'\<lparr>ls_controller := Some mc\<rparr>))"
  using assms
  by (cases "mc_currentLevel mc")
    (auto simp: classic_round_def memory_gate_def should_pause_def should_throttle_def Let_def split: prod.splits)

text \<open>C36: Memory pressure slows the classic loop down: at the emergency level a round captures nothing,
  whatever FFmpeg would answer, leaves the breaker, the frame buffer and the monitor alone and
  sleeps two seconds; at the critical level it begins with a pause of half a second.  At the levels
  below (normal and warning) the controller has no effect: the round does and leaves exactly what
  it would without a controller.  In no case does a round sleep longer than the interval and two
  seconds.\<close>

theorem memory_slows_classic_loop:
  assumes "ls_controller s = Some mc" and "classic_round cam interval ri s = ((es, mes, d), s')"
    and "0 \<le> interval" and "interval \<le> max_i64" and "ri_start ri \<le> ri_elapsed ri"
  shows "(mc_currentLevel mc = MemoryEmergency \<longrightarrow> es = [EvPaused (2 * second)] \<and> mes = [] \<and> d = 2 * second
        \<and> ls_breaker s' = ls_breaker s \<and> ls_frameBuffer s' = ls_frameBuffer s \<and> ls_monitor s' = ls_monitor s)
    \<and> (mc_currentLevel mc = MemoryCritical \<longrightarrow> es \<noteq> [] \<and> hd es = EvThrottled (500 * millisecond) \<and> 500 * millisecond \<le> d)
    \<and> (mc_currentLevel mc \<in> {MemoryNormal, MemoryWarning} \<longrightarrow>
        classic_round cam interval ri (s\<lparr>ls_controller := None\<rparr>) = ((es, mes, d), s'\<lparr>ls_controller := None\<rparr>)
        \<and> ls_controller s' = Some mc)
    \<and> d \<le> interval + 2 * second"
proof (cases "mc_currentLevel mc = MemoryEmergency")
  case True
  then show ?thesis using classic_paused [OF assms(1)] assms(2,3) by auto
next
  case False
  obtain gate mco go where g: "memory_gate cam (fst (ri_gate ri)) (snd (ri_gate ri)) (Some mc) = (gate, mco, go)"
    by (rule prod_cases3)
  have go: "go" and gate: "gate = (case mc_currentLevel mc of MemoryEmergency \<Rightarrow> [EvPaused (2 * second)]
        | MemoryCritical \<Rightarrow> [EvThrottled (500 * millisecond)] | _ \<Rightarrow> [])"
    using gate_level [OF g] False by auto
  obtain es' b fb where c: "capture_and_publish cam True (ri_allow ri) (ri_record ri) (ri_frame ri)
      (ri_buf ri) (ri_result ri) (ls_breaker s) (ls_frameBuffer s) = (es', b, fb)" by (rule prod_cases3)
  let ?e = "since (ri_elapsed ri) (ri_start ri)"
  have e: "0 \<le> ?e" "?e \<le> max_i64" using assms(5) by (simp_all add: since_def sat64_def)
  have "i64 (interval - ?e) = interval - ?e" using assms(3,4) e by (intro i64_id) simp_all
  then have d: "d = round_sleep interval gate True (ri_start ri) (ri_elapsed ri)" and es: "es = gate @ es'"
    and le: "(let t = i64 (interval - ?e) in if 0 < t then t else 0) \<le> interval \<and> 0 \<le> (let t = i64 (interval - ?e) in if 0 < t then t else 0)"
    using assms(1,2,3) g go c e by (auto simp: classic_round_def Let_def)
  have below: "classic_round cam interval ri (s\<lparr>ls_controller := None\<rparr>) = ((es, mes, d), s'\<lparr>ls_controller := None\<rparr>)
      \<and> ls_controller s' = Some mc" if "mc_currentLevel mc \<in> {MemoryNormal, MemoryWarning}"
  proof -
    obtain out s0 where n: "classic_round cam interval ri (s\<lparr>ls_controller := None\<rparr>) = (out, s0)" by (rule prod.exhaust)
    have "ls_controller s0 = None"
      using n by (auto simp: classic_round_def memory_gate_def Let_def split: prod.splits)
    moreover have "mc_currentLevel mc \<notin> {MemoryCritical, MemoryEmergency}" using that by auto
    ultimately show ?thesis using gate_open [OF assms(1), of cam interval ri] n assms(2) by auto
  qed
  have "(mc_currentLevel mc = MemoryCritical \<longrightarrow> es \<noteq> [] \<and> hd es = EvThrottled (500 * millisecond) \<and> 500 * millisecond \<le> d)
    \<and> d \<le> interval + 2 * second"
    using le unfolding d es gate
    by (cases "mc_currentLevel mc") (auto simp: round_sleep_def)
  then show ?thesis using False below by blast
qed

definition emergency_controller :: controller where
  "emergency_controller = (new_controller 100 \<lparr>rt_Alloc = 0, rt_TotalAlloc = 0, rt_Sys = 0, rt_NumGC = 0, rt_HeapAlloc = 0,
     rt_HeapSys = 0, rt_HeapInuse = 0, rt_StackInuse = 0\<rparr> 0 0)\<lparr>mc_currentLevel := MemoryEmergency\<rparr>"

definition demo_loop :: "controller option \<Rightarrow> loop_sys" where
  "demo_loop mc = \<lparr>ls_controller = mc, ls_breaker = new_breaker ''c'' 5 minute 0, ls_frameBuffer = demo_buffer,
     ls_monitor = demo_monitor\<rparr>"

definition demo_round :: "goerr + byte list \<Rightarrow> round_input" where
  "demo_round result = \<lparr>ri_gate = (0, 0), ri_start = 0, ri_allow = (0, 0), ri_buf = 7, ri_result = result,
     ri_frame = 0, ri_record = (0, 0), ri_monitor = (0, 0), ri_elapsed = 1\<rparr>"

theorem memory_slows_classic_loop_witness:
  "fst (classic_round ''c'' second (demo_round (Inr [1])) (demo_loop (Some emergency_controller)))
    = ([EvPaused (2 * second)], [], 2 * second)"
proof -
  obtain es mes d s' where r: "classic_round ''c'' second (demo_round (Inr [1])) (demo_loop (Some emergency_controller))
      = ((es, mes, d), s')" by (metis prod_cases3 surj_pair)
  have "ls_controller (demo_loop (Some emergency_controller)) = Some emergency_controller" by (simp add: demo_loop_def)
  from memory_slows_classic_loop [OF this r] show ?thesis
    unfolding r by (simp add: emergency_controller_def demo_round_def)
qed

subsection \<open>The monitor follows the rounds\<close>

text \<open>Whether a round that the memory controller lets through takes an image.\<close>

definition takes_image :: "round_input \<Rightarrow> breaker \<Rightarrow> bool" where
  "takes_image ri b \<longleftrightarrow> fst (breaker_allow (fst (ri_allow ri)) (snd (ri_allow ri)) b)
     \<and> (case ri_result ri of Inr data \<Rightarrow> data \<noteq> [] | Inl _ \<Rightarrow> False)"

fun shots :: "string \<Rightarrow> duration \<Rightarrow> round_input list \<Rightarrow> loop_sys \<Rightarrow> bool list" where
  "shots cam interval [] s = []"
| "shots cam interval (ri # ris) s =
     (let (gate, mco, go) = memory_gate cam (fst (ri_gate ri)) (snd (ri_gate ri)) (ls_controller s)
      in (if go then [takes_image ri (ls_breaker s)] else []))
     @ shots cam interval ris (snd (classic_round cam interval ri s))"

fun classic_run :: "string \<Rightarrow> duration \<Rightarrow> round_input list \<Rightarrow> loop_sys \<Rightarrow> loop_sys" where
  "classic_run cam interval [] s = s"
| "classic_run cam interval (ri # ris) s = classic_run cam interval ris (snd (classic_round cam interval ri s))"

lemma mon_ops_simps [simp]:
  "mon_ops cam ts [] = []" "mon_ops cam ts (e # es) = mon_op_of cam ts e @ mon_ops cam ts es"
  "mon_ops cam ts (es @ es') = mon_ops cam ts es @ mon_ops cam ts es'"
  "mon_ops cam ts (map EvReleased bs) = []" "mon_ops cam ts (map (\<lambda>f. EvReleased (fst f)) ps) = []"
  by (induction bs; simp add: mon_ops_def comp_def)+

lemma enqueue_mon_ops: "enqueue_frame cam now buf data fb = (es, fb') \<Longrightarrow> mon_ops c ts es = []"
  by (auto simp: enqueue_frame_def Let_def split: if_splits prod.splits)

text \<open>A round tells the monitor exactly once how it went.\<close>

lemma capture_mon_ops:
  assumes "capture_and_publish cam True (ri_allow ri) (ri_record ri) (ri_frame ri) (ri_buf ri) (ri_result ri) b fb
      = (es, b', fb')"
  shows "\<exists>err. mon_ops cam ts es =
    [if takes_image ri b then Success cam (fst ts) (snd ts) else Failure cam (Some err)]"
proof -
  obtain ok b1 where a: "breaker_allow (fst (ri_allow ri)) (snd (ri_allow ri)) b = (ok, b1)" by (rule prod.exhaust)
  define es0 fb0 where "es0 data = fst (enqueue_frame cam (ri_frame ri) (ri_buf ri) data fb)"
    and "fb0 data = snd (enqueue_frame cam (ri_frame ri) (ri_buf ri) data fb)" for data
  then have e: "enqueue_frame cam (ri_frame ri) (ri_buf ri) data fb = (es0 data, fb0 data)" for data by simp
  have n: "mon_ops cam ts (es0 data) = []" for data by (rule enqueue_mon_ops [OF e])
  show ?thesis
    using assms a e n
    by (cases "ri_result ri")
      (auto simp: capture_and_publish_def breaker_call_def do_capture_def takes_image_def Let_def
        split: if_splits prod.splits)
qed

text \<open>The status a sequence of shots leaves, the last one at the end.\<close>

definition misses :: "bool list \<Rightarrow> nat" where
  "misses bs = length (takeWhile Not (rev bs))"

definition shot_status :: "bool list \<Rightarrow> camera_status \<Rightarrow> bool" where
  "shot_status bs st \<longleftrightarrow> cs_ConsecutiveFailures st = int (misses bs)
     \<and> (cs_IsActive st \<longleftrightarrow> True \<in> set bs \<and> misses bs < 3)"

lemma misses_snoc [simp]: "misses [] = 0" "misses (bs @ [b]) = (if b then 0 else Suc (misses bs))"
  by (simp_all add: misses_def)

lemma misses_le: "misses bs \<le> length bs"
  unfolding misses_def by (metis length_rev length_takeWhile_le)

lemma shot_status_step:
  assumes "get_status cam m = Some st" and "shot_status bs st" and "int (length bs) < max_i64"
  shows "\<exists>st'. get_status cam (final mon_step m [if b then Success cam t t' else Failure cam err]) = Some st'
    \<and> shot_status (bs @ [b]) st'"
proof -
  have "int (misses bs) < max_i64" using misses_le [of bs] assms(3) by linarith
  then show ?thesis using assms(1,2) by (auto simp: own_camera_simps shot_status_def)
qed

lemma classic_round_cases:
  obtains (paused) "shots cam interval [ri] s = []" "ls_monitor (snd (classic_round cam interval ri s)) = ls_monitor s"
  | (shot) t t' err where "shots cam interval [ri] s = [takes_image ri (ls_breaker s)]"
      "ls_monitor (snd (classic_round cam interval ri s)) = final mon_step (ls_monitor s)
         [if takes_image ri (ls_breaker s) then Success cam t t' else Failure cam (Some err)]"
proof -
  obtain gate mco go where g: "memory_gate cam (fst (ri_gate ri)) (snd (ri_gate ri)) (ls_controller s) = (gate, mco, go)"
    by (rule prod_cases3)
  obtain es b fb where c: "capture_and_publish cam True (ri_allow ri) (ri_record ri) (ri_frame ri)
      (ri_buf ri) (ri_result ri) (ls_breaker s) (ls_frameBuffer s) = (es, b, fb)" by (rule prod_cases3)
  obtain err where "mon_ops cam (ri_monitor ri) es = [if takes_image ri (ls_breaker s)
      then Success cam (fst (ri_monitor ri)) (snd (ri_monitor ri)) else Failure cam (Some err)]"
    using capture_mon_ops [OF c] by blast
  then show thesis using that g c by (cases go) (auto simp: classic_round_def Let_def)
qed

lemma shot_status_run:
  "get_status cam (ls_monitor s) = Some st \<Longrightarrow> shot_status bs st \<Longrightarrow> int (length bs + length ris) \<le> max_i64 \<Longrightarrow>
    \<exists>st'. get_status cam (ls_monitor (classic_run cam interval ris s)) = Some st'
      \<and> shot_status (bs @ shots cam interval ris s) st'"
proof (induction ris arbitrary: s st bs)
  case (Cons ri ris)
  let ?s = "snd (classic_round cam interval ri s)"
  have eq: "shots cam interval (ri # ris) s = shots cam interval [ri] s @ shots cam interval ris ?s" by simp
  have run: "classic_run cam interval (ri # ris) s = classic_run cam interval ris ?s" by simp
  show ?case unfolding eq run
  proof (cases rule: classic_round_cases [of cam interval ri s])
    case paused
    then show "\<exists>st'. get_status cam (ls_monitor (classic_run cam interval ris ?s)) = Some st'
      \<and> shot_status (bs @ shots cam interval [ri] s @ shots cam interval ris ?s) st'"
      using Cons.IH [of ?s st bs] Cons.prems by simp
  next
    case (shot t t' err)
    have "int (length bs) < max_i64" using Cons.prems(3) by simp
    from shot_status_step [OF Cons.prems(1,2) this, of "takes_image ri (ls_breaker s)" t t' "Some err"]
    obtain st1 where "get_status cam (ls_monitor ?s) = Some st1"
      "shot_status (bs @ shots cam interval [ri] s) st1" unfolding shot by blast
    from Cons.IH [OF this] show "\<exists>st'. get_status cam (ls_monitor (classic_run cam interval ris ?s)) = Some st'
      \<and> shot_status (bs @ shots cam interval [ri] s @ shots cam interval ris ?s) st'"
      using Cons.prems(3) shot(1) by simp
  qed
qed auto

text \<open>C37: The monitor follows the classic loop: a camera that was just registered is active, after any
  number of rounds, exactly when some round has taken an image and fewer than three rounds that
  tried have failed since, whether FFmpeg failed, gave nothing or the circuit breaker did not let it
  run; rounds the memory controller pauses do not count.\<close>

theorem monitor_follows_rounds:
  assumes "get_status cam (ls_monitor s) = Some st" and "\<not> cs_IsActive st" and "cs_ConsecutiveFailures st = 0"
    and "int (length ris) \<le> max_i64" and "bs = shots cam interval ris s"
  shows "\<exists>st'. get_status cam (ls_monitor (classic_run cam interval ris s)) = Some st'
    \<and> (cs_IsActive st' \<longleftrightarrow> True \<in> set bs \<and> length (takeWhile Not (rev bs)) < 3)
    \<and> cs_ConsecutiveFailures st' = int (length (takeWhile Not (rev bs)))"
proof -
  have "shot_status [] st" using assms(2,3) by (simp add: shot_status_def)
  then obtain st' where "get_status cam (ls_monitor (classic_run cam interval ris s)) = Some st'" "shot_status bs st'"
    using shot_status_run [OF assms(1), of "[]" ris interval] assms(4,5) by auto
  then show ?thesis by (simp add: shot_status_def misses_def)
qed

lemma no_controller:
  "memory_gate cam t t' None = ([], None, True)"
  "ls_controller s = None \<Longrightarrow> ls_controller (snd (classic_round cam interval ri s)) = None"
  by (simp_all add: memory_gate_def classic_round_def Let_def split: prod.splits)

theorem monitor_follows_rounds_witness:
  "\<exists>st'. get_status ''c'' (ls_monitor (classic_run ''c'' second [demo_round (Inr [1]), demo_round (Inr [])] (demo_loop None)))
     = Some st' \<and> cs_IsActive st'"
proof -
  let ?s = "demo_loop None" and ?ris = "[demo_round (Inr [1]), demo_round (Inr [])]"
  obtain st where st: "get_status ''c'' (ls_monitor ?s) = Some st" "\<not> cs_IsActive st" "cs_ConsecutiveFailures st = 0"
    by (fastforce simp: demo_loop_def demo_monitor_def get_status_def register_camera_def)
  have "shots ''c'' second [demo_round (Inr [1])] ?s = [True]"
    by (simp add: no_controller demo_loop_def takes_image_def demo_round_def breaker_allow_def new_breaker_def Let_def)
  moreover have n: "ls_controller ?s = None" by (simp add: demo_loop_def)
  ultimately obtain b1 where "shots ''c'' second ?ris ?s = [True, b1]"
    using no_controller(2) [OF n, of "''c''" second "demo_round (Inr [1])"] by (simp add: no_controller(1) n)
  then show ?thesis using monitor_follows_rounds [OF st _ HOL.refl, of ?ris second] by (cases b1) auto
qed

subsection \<open>When the persistent loop gives a camera up\<close>

fun persistent_run :: "string \<Rightarrow> (time \<times> time \<times> time) list
    \<Rightarrow> (int \<times> (nat \<times> byte list) chan \<times> frame_buffer) \<times> monitor
    \<Rightarrow> (int \<times> (nat \<times> byte list) chan \<times> frame_buffer) \<times> monitor" where
  "persistent_run cam [] st = st"
| "persistent_run cam ((now, ts) # ticks) st = persistent_run cam ticks (snd (persistent_round cam now ts st))"

text \<open>A tick that finds no image: from the fifth in a row on it is a failure for the monitor.\<close>

lemma empty_tick:
  assumes "poll c = None" and "0 \<le> n" and "n < max_i64"
  shows "\<exists>err. snd (persistent_round cam now ts ((n, c, fb), m)) =
    ((n + 1, c, fb), if 5 \<le> n + 1 then final mon_step m [Failure cam (Some err)] else m)"
  using assms by (auto simp: persistent_round_def persistent_tick_def Let_def)

definition quiet_status :: "int \<Rightarrow> camera_status \<Rightarrow> bool" where
  "quiet_status n st \<longleftrightarrow> cs_ConsecutiveFailures st = (if n < 5 then 0 else n - 4) \<and> (cs_IsActive st \<longleftrightarrow> n < 7)"

lemma quiet_run:
  "poll c = None \<Longrightarrow> 0 \<le> n \<Longrightarrow> n + int (length ticks) \<le> max_i64 \<Longrightarrow> get_status cam m = Some st \<Longrightarrow> quiet_status n st \<Longrightarrow>
    \<exists>m' st'. persistent_run cam ticks ((n, c, fb), m) = ((n + int (length ticks), c, fb), m')
      \<and> get_status cam m' = Some st' \<and> quiet_status (n + int (length ticks)) st'"
proof (induction ticks arbitrary: n m st)
  case (Cons tick ticks)
  obtain now ts where t: "tick = (now, ts)" by (rule prod.exhaust)
  have n: "n < max_i64" using Cons.prems(3) by simp
  obtain err where step: "snd (persistent_round cam now ts ((n, c, fb), m)) =
      ((n + 1, c, fb), if 5 \<le> n + 1 then final mon_step m [Failure cam (Some err)] else m)"
    using empty_tick [OF Cons.prems(1,2) n] by blast
  define m1 where "m1 = (if 5 \<le> n + 1 then final mon_step m [Failure cam (Some err)] else m)"
  have "\<exists>st1. get_status cam m1 = Some st1 \<and> quiet_status (n + 1) st1"
    using Cons.prems(2,4,5) n by (auto simp: m1_def quiet_status_def own_camera_simps)
  then obtain st1 where "get_status cam m1 = Some st1" "quiet_status (n + 1) st1" by blast
  from Cons.IH [OF Cons.prems(1) _ _ this] show ?case
    using Cons.prems(2,3) step by (simp add: t m1_def add_ac)
qed simp

text \<open>C38: In persistent mode a camera that stops delivering images stays active for six ticks and is
  given up with the seventh: the loop passes on only the fifth tick in a row without an image and
  those after it, and the monitor waits for three failures.\<close>

theorem persistent_down_after_seven:
  assumes "poll c = None" and "get_status cam m = Some st" and "cs_IsActive st" and "cs_ConsecutiveFailures st = 0"
    and "int (length ticks) \<le> max_i64" and "persistent_run cam ticks ((0, c, fb), m) = (s', m')"
  shows "is_active cam m' \<longleftrightarrow> length ticks < 7"
proof -
  have "quiet_status 0 st" using assms(3,4) by (simp add: quiet_status_def)
  then obtain m1 st' where "persistent_run cam ticks ((0, c, fb), m) = ((int (length ticks), c, fb), m1)"
    "get_status cam m1 = Some st'" "quiet_status (int (length ticks)) st'"
    using quiet_run [OF assms(1) order.refl _ assms(2)] assms(5) by fastforce
  then show ?thesis using assms(6) by (simp add: quiet_status_def is_active_def)
qed

theorem persistent_down_after_seven_witness:
  "\<not> is_active ''c'' (snd (persistent_run ''c'' (replicate 7 (0, 0, 0))
     ((0, make_chan 5, demo_buffer), snd (mon_step demo_monitor (Success ''c'' 1 1)))))"
proof -
  let ?m = "snd (mon_step demo_monitor (Success ''c'' 1 1))"
  obtain st where st: "get_status ''c'' demo_monitor = Some st"
    by (fastforce simp: demo_monitor_def get_status_def register_camera_def)
  have m: "get_status ''c'' ?m = Some (st\<lparr>cs_LastSuccessfulCapture := 1, cs_ConsecutiveFailures := 0,
      cs_IsActive := True, cs_LastError := None\<rparr>)" by (simp add: own_camera_simps st)
  have p: "poll (make_chan 5 :: (nat \<times> byte list) chan) = None" by (simp add: poll_def chan_recv_def make_chan_def)
  obtain s' m' where r: "persistent_run ''c'' (replicate 7 (0, 0, 0)) ((0, make_chan 5, demo_buffer), ?m) = (s', m')"
    by (rule prod.exhaust)
  from persistent_down_after_seven [OF p m _ _ _ r] show ?thesis unfolding r by simp
qed

subsection \<open>Starting\<close>

text \<open>
  The gauge of a camera says connected as soon as its loop has started, in classic mode before
  FFmpeg has run once and also after the persistent process failed to start.
\<close>

lemma connected_without_a_frame: "EvConnected True \<in> set (snd (fst (capture_start has_monitor out c)))"
  by (cases "cv_usePersistent c") (auto simp: capture_start_def split: option.splits prod.splits)

end
