(* ===== verification/Metadata.thy ===== *)
theory Metadata
  imports AmqpPublisher
begin

section \<open>Metadata events\<close>

text \<open>
  \<open>internal/metadata/publisher.go\<close>: events about frames, cameras and the system are published as JSON
  on the AMQP channel the publisher was given when the program started.  A message carries the
  object's fields in the order of the struct, without those \<open>omitempty\<close> leaves out; their text is
  left to \<open>encoding/json\<close>.  Then the publisher together with \<open>pkg/mq/amqp.go\<close>, as the main program
  connects them.
\<close>

datatype event_type = EventTypeFrame | EventTypeCameraStatus | EventTypeSystemStatus

datatype camera_state = CameraStateActive | CameraStateInactive | CameraStateOffline

definition event_type_text :: "event_type \<Rightarrow> string" where
  "event_type_text t = (case t of EventTypeFrame \<Rightarrow> ''frame'' | EventTypeCameraStatus \<Rightarrow> ''camera_status''
     | EventTypeSystemStatus \<Rightarrow> ''system_status'')"

definition camera_state_text :: "camera_state \<Rightarrow> string" where
  "camera_state_text t = (case t of CameraStateActive \<Rightarrow> ''active'' | CameraStateInactive \<Rightarrow> ''inactive''
     | CameraStateOffline \<Rightarrow> ''offline'')"

datatype json = JString string | JInt int | JTime time

type_synonym json_object = "(string \<times> json) list"

definition omit_empty :: "string \<Rightarrow> json \<Rightarrow> json_object" where
  "omit_empty name v = (if v = JString [] \<or> v = JInt 0 then [] else [(name, v)])"

record frame_metadata =
  fm_CameraID :: string
  fm_Timestamp :: time
  fm_RedisKey :: string
  fm_Width :: int
  fm_Height :: int
  fm_Encoding :: string
  fm_SizeBytes :: int

definition frame_event :: "frame_metadata \<Rightarrow> json_object" where
  "frame_event m =
     [(''event_type'', JString (event_type_text EventTypeFrame)), (''camera_id'', JString (fm_CameraID m)),
      (''timestamp'', JTime (fm_Timestamp m))]
     @ omit_empty ''redis_key'' (JString (fm_RedisKey m)) @ omit_empty ''width'' (JInt (fm_Width m))
     @ omit_empty ''height'' (JInt (fm_Height m)) @ omit_empty ''encoding'' (JString (fm_Encoding m))
     @ omit_empty ''size_bytes'' (JInt (fm_SizeBytes m))"

record camera_status_event =
  ce_CameraID :: string
  ce_Timestamp :: time
  ce_State :: camera_state
  ce_ConsecutiveFailures :: int
  ce_LastError :: string
  ce_Message :: string

definition camera_event :: "camera_status_event \<Rightarrow> json_object" where
  "camera_event e =
     [(''event_type'', JString (event_type_text EventTypeCameraStatus)), (''camera_id'', JString (ce_CameraID e)),
      (''timestamp'', JTime (ce_Timestamp e)), (''state'', JString (camera_state_text (ce_State e)))]
     @ omit_empty ''consecutive_failures'' (JInt (ce_ConsecutiveFailures e))
     @ omit_empty ''last_error'' (JString (ce_LastError e)) @ omit_empty ''message'' (JString (ce_Message e))"

record system_status_event =
  se_Timestamp :: time
  se_TotalCameras :: int
  se_ActiveCameras :: int
  se_InactiveCameras :: int
  se_Message :: string

definition system_event :: "system_status_event \<Rightarrow> json_object" where
  "system_event e =
     [(''event_type'', JString (event_type_text EventTypeSystemStatus)), (''timestamp'', JTime (se_Timestamp e)),
      (''total_cameras'', JInt (se_TotalCameras e)), (''active_cameras'', JInt (se_ActiveCameras e)),
      (''inactive_cameras'', JInt (se_InactiveCameras e)), (''message'', JString (se_Message e))]"

subsection \<open>The publisher\<close>

record json_message =
  jm_exchange :: string
  jm_routingKey :: string
  jm_contentType :: string
  jm_body :: json_object

record 'h metadata_publisher =
  mp_channel :: "'h option"
  mp_exchange :: string
  mp_routingKey :: string
  mp_enabled :: bool

text \<open>An error of the declaration of the exchange is dropped; the library's publishing is a parameter.\<close>

definition new_metadata_publisher :: "('c, 'h, 'w) amqp_api \<Rightarrow> 'h option \<Rightarrow> string \<Rightarrow> string \<Rightarrow> bool \<Rightarrow> 'w
    \<Rightarrow> 'h metadata_publisher \<times> 'w" where
  "new_metadata_publisher api ch exch key enabled w =
     (\<lparr>mp_channel = ch, mp_exchange = exch, mp_routingKey = key, mp_enabled = enabled\<rparr>,
      (case ch of Some h \<Rightarrow> if enabled then snd (amqp_declare api h exch w) else w | None \<Rightarrow> w))"

type_synonym ('h, 'w) json_publish = "'h \<Rightarrow> json_message \<Rightarrow> 'w \<Rightarrow> goerr option \<times> 'w"

text \<open>Publishing on the nil channel panics, which is the result \<open>None\<close>.\<close>

definition publish_json :: "('h, 'w) json_publish \<Rightarrow> string \<Rightarrow> json_object \<Rightarrow> 'h metadata_publisher \<Rightarrow> 'w
    \<Rightarrow> (goerr option \<times> 'w) option" where
  "publish_json pub key body p w =
     (if \<not> mp_enabled p then Some (None, w)
      else case mp_channel p of
        None \<Rightarrow> None
      | Some h \<Rightarrow> Some (pub h \<lparr>jm_exchange = mp_exchange p, jm_routingKey = key,
                              jm_contentType = ''application/json'', jm_body = body\<rparr> w))"

definition publish_metadata :: "('h, 'w) json_publish \<Rightarrow> string \<Rightarrow> time \<Rightarrow> string \<Rightarrow> int \<Rightarrow> int \<Rightarrow> int \<Rightarrow> string
    \<Rightarrow> 'h metadata_publisher \<Rightarrow> 'w \<Rightarrow> (goerr option \<times> 'w) option" where
  "publish_metadata pub cameraID timestamp redisKey width height sz encoding p w =
     publish_json pub (mp_routingKey p) (frame_event \<lparr>fm_CameraID = cameraID, fm_Timestamp = timestamp,
       fm_RedisKey = redisKey, fm_Width = width, fm_Height = height, fm_Encoding = encoding, fm_SizeBytes = sz\<rparr>) p w"

definition publish_camera_status :: "('h, 'w) json_publish \<Rightarrow> time \<Rightarrow> string \<Rightarrow> camera_state \<Rightarrow> int
    \<Rightarrow> goerr option \<Rightarrow> string \<Rightarrow> 'h metadata_publisher \<Rightarrow> 'w \<Rightarrow> (goerr option \<times> 'w) option" where
  "publish_camera_status pub now cameraID st failures lastError msg p w =
     publish_json pub (mp_routingKey p @ ''.status'') (camera_event \<lparr>ce_CameraID = cameraID, ce_Timestamp = now,
       ce_State = st, ce_ConsecutiveFailures = failures,
       ce_LastError = (case lastError of None \<Rightarrow> [] | Some e \<Rightarrow> err_msg e), ce_Message = msg\<rparr>) p w"

definition publish_system_status :: "('h, 'w) json_publish \<Rightarrow> time \<Rightarrow> int \<Rightarrow> int \<Rightarrow> int \<Rightarrow> string
    \<Rightarrow> 'h metadata_publisher \<Rightarrow> 'w \<Rightarrow> (goerr option \<times> 'w) option" where
  "publish_system_status pub now totalCameras activeCameras inactiveCameras msg p w =
     publish_json pub (mp_routingKey p @ ''.system'') (system_event \<lparr>se_Timestamp = now, se_TotalCameras = totalCameras,
       se_ActiveCameras = activeCameras, se_InactiveCameras = inactiveCameras, se_Message = msg\<rparr>) p w"

subsection \<open>The channel of the metadata\<close>

text \<open>
  The documented behaviour of the library about closed channels: \<open>Close\<close> closes one, no call opens a
  closed one again, and publishing on a closed one fails.
\<close>

definition closing_laws :: "('c, 'h, 'w) amqp_api \<Rightarrow> ('h, 'w) json_publish \<Rightarrow> ('h \<Rightarrow> 'w \<Rightarrow> bool) \<Rightarrow> bool" where
  "closing_laws api pub is_closed \<longleftrightarrow>
     (\<forall>h w. is_closed h (snd (amqp_close_channel api h w)))
   \<and> (\<forall>h m w. is_closed h w \<longrightarrow> fst (pub h m w) \<noteq> None)
   \<and> (\<forall>h w. is_closed h w \<longrightarrow> (\<forall>g m. is_closed h (snd (pub g m w)))
       \<and> (\<forall>url. is_closed h (snd (amqp_dial api url w))) \<and> (\<forall>c. is_closed h (snd (amqp_channel api c w)))
       \<and> (\<forall>g x. is_closed h (snd (amqp_declare api g x w))) \<and> (\<forall>g m. is_closed h (snd (amqp_publish api g m w)))
       \<and> (\<forall>g. is_closed h (snd (amqp_close_channel api g w))) \<and> (\<forall>c. is_closed h (snd (amqp_close_conn api c w))))"

lemma closing_lawsD:
  assumes "closing_laws api pub is_closed" and "is_closed h w"
  shows "pub g m w = (r, w1) \<Longrightarrow> is_closed h w1" and "pub h m w = (r, w1) \<Longrightarrow> r \<noteq> None"
    and "amqp_dial api url w = (r2, w1) \<Longrightarrow> is_closed h w1" and "amqp_channel api c w = (r3, w1) \<Longrightarrow> is_closed h w1"
    and "amqp_declare api g x w = (r, w1) \<Longrightarrow> is_closed h w1"
    and "amqp_close_channel api g w = (r, w1) \<Longrightarrow> is_closed h w1"
    and "amqp_close_conn api c w = (r, w1) \<Longrightarrow> is_closed h w1"
  using assms unfolding closing_laws_def by (metis fst_conv snd_conv)+

lemma closed_close_both:
  assumes "closing_laws api pub is_closed" and "is_closed h w"
  shows "is_closed h (snd (close_both api ch conn w))"
  using assms by (cases ch; cases conn) (simp_all add: closing_laws_def close_both_def split_beta)

lemma closed_connect:
  assumes "closing_laws api pub is_closed" and "is_closed h (snd st)"
  shows "is_closed h (snd (snd (connect api st)))"
proof -
  have m: "is_closed h (snd (amqp_dial api url w))" "is_closed h (snd (amqp_channel api c w))"
    "is_closed h (snd (amqp_declare api g x w))" "is_closed h (snd (amqp_close_conn api c w))"
    if "is_closed h w" for url c g x w
    using assms(1) that by (simp_all add: closing_laws_def)
  obtain p w where st: "st = (p, w)" by (cases st)
  obtain r1 w1 where 1: "amqp_dial api (ap_amqpURL p) w = (r1, w1)" by (rule prod.exhaust)
  have c1: "is_closed h w1" using m(1) [of w] assms(2) 1 st by (metis snd_conv)
  show ?thesis
  proof (cases r1)
    case (Inl e)
    then show ?thesis using c1 st 1 by (simp add: connect_def)
  next
    case (Inr conn)
    obtain r2 w2 where 2: "amqp_channel api conn w1 = (r2, w2)" by (rule prod.exhaust)
    have c2: "is_closed h w2" using m(2) [OF c1, of conn] 2 by simp
    show ?thesis
    proof (cases r2)
      case (Inl e)
      then show ?thesis using m(4) [OF c2] st 1 2 Inr by (simp add: connect_def)
    next
      case r2: (Inr ch)
      obtain r3 w3 where 3: "amqp_declare api ch (ap_exchange p) w2 = (r3, w3)" by (rule prod.exhaust)
      have "is_closed h w3" using m(3) [OF c2, of ch "ap_exchange p"] 3 by simp
      then show ?thesis using st 1 2 3 Inr r2 closed_close_both [OF assms(1)]
        by (cases r3) (simp_all add: connect_def)
    qed
  qed
qed

lemma closed_attempts:
  assumes "closing_laws api pub is_closed"
  shows "is_closed h (snd st) \<Longrightarrow> is_closed h (snd (snd (snd (connect_attempts api waits err st))))"
proof (induction waits arbitrary: err st)
  case (Cons wait waits)
  obtain r st1 where c: "connect api st = (r, st1)" by (rule prod.exhaust)
  have "is_closed h (snd st1)" using closed_connect [OF assms Cons.prems] c by simp
  then show ?case using Cons.IH [of st1 "r"] c by (cases r) (simp_all add: split_beta)
qed simp

lemma closed_reconnect:
  assumes "closing_laws api pub is_closed" and "ap_channel p = Some h" and "\<not> ap_closed p"
    and "amqp_reconnect api (p, w) = (r, sleeps, st)"
  shows "is_closed h (snd st)"
proof -
  have "is_closed h (snd (close_both api (ap_channel p) (ap_conn p) w))"
    using assms(1,2) by (cases "ap_conn p") (simp_all add: close_both_def closing_laws_def split_beta)
  then have "is_closed h (snd (close_current api (p, w)))" by (simp add: close_current_def)
  from closed_attempts [OF assms(1) this, of reconnect_waits None] show ?thesis
    using assms(3,4) by (simp add: amqp_reconnect_def)
qed

text \<open>A run of events, each published with its routing key; \<open>None\<close> would be a panic.\<close>

fun publish_events :: "('h, 'w) json_publish \<Rightarrow> (string \<times> json_object) list \<Rightarrow> 'h metadata_publisher \<Rightarrow> 'w
    \<Rightarrow> goerr option list option" where
  "publish_events pub [] p w = Some []"
| "publish_events pub (e # es) p w = (case publish_json pub (fst e) (snd e) p w of
     None \<Rightarrow> None | Some (r, w') \<Rightarrow> map_option ((#) r) (publish_events pub es p w'))"

text \<open>C31: Metadata do not survive a reconnection: the main program gives the metadata publisher the channel
  the AMQP publisher has at the start; when that publisher loses its channel and reconnects,
  whether it succeeds or not, the metadata publisher still holds the old channel, and every event
  it is given from then on fails.\<close>

theorem metadata_lost_after_reconnect:
  assumes "closing_laws api pub is_closed" and "ap_channel p = Some h" and "\<not> ap_closed p"
    and "handle_connection_close api True (p, w) = (p', w')"
    and "mp = fst (new_metadata_publisher api (ap_channel p) exch key True w0)"
    and "publish_events pub es mp w' = Some rs"
  shows "length rs = length es \<and> None \<notin> set rs"
proof -
  have "is_closed h w'"
    using closed_reconnect [OF assms(1-3)] assms(3,4)
    by (cases "amqp_reconnect api (p, w)") (auto simp: handle_connection_close_def)
  moreover have "mp_enabled mp" "mp_channel mp = Some h"
    using assms(2,5) by (simp_all add: new_metadata_publisher_def)
  ultimately show ?thesis using assms(6)
  proof (induction es arbitrary: w' rs)
    case (Cons e es)
    let ?m = "\<lparr>jm_exchange = mp_exchange mp, jm_routingKey = fst e, jm_contentType = ''application/json'', jm_body = snd e\<rparr>"
    obtain r w1 where r: "pub h ?m w' = (r, w1)" by (rule prod.exhaust)
    have "r \<noteq> None" "is_closed h w1"
      using closing_lawsD(1,2) [OF assms(1) Cons.prems(1)] r by blast+
    moreover obtain qs where "publish_events pub es mp w1 = Some qs" "rs = r # qs"
      using Cons.prems r by (auto simp: publish_json_def)
    ultimately show ?case using Cons.IH [of w1 qs] Cons.prems by auto
  qed simp
qed

text \<open>A broker that numbers its channels and knows which are closed.\<close>

definition closing_broker :: "(unit, nat, nat \<times> nat set) amqp_api" where
  "closing_broker = \<lparr>amqp_dial = (\<lambda>u w. (Inr (), w)), amqp_channel = (\<lambda>c (n, C). (Inr n, (Suc n, C))),
     amqp_declare = (\<lambda>h x w. (None, w)),
     amqp_publish = (\<lambda>h m w. (if h \<in> snd w then Some (errorf ''closed'') else None, w)),
     amqp_close_channel = (\<lambda>h (n, C). (None, (n, insert h C))), amqp_close_conn = (\<lambda>c w. (None, w))\<rparr>"

definition closing_pub :: "(nat, nat \<times> nat set) json_publish" where
  "closing_pub h m w = (if h \<in> snd w then Some (errorf ''closed'') else None, w)"

lemma closing_broker_laws: "closing_laws closing_broker closing_pub (\<lambda>h w. h \<in> snd w)"
  by (auto simp: closing_laws_def closing_broker_def closing_pub_def)

definition demo_amqp :: "(unit, nat) amqp_publisher" where
  "demo_amqp = \<lparr>ap_conn = Some (), ap_channel = Some 0, ap_exchange = ''cameras'', ap_routingKeyPrefix = ''camera.'',
     ap_amqpURL = ''amqp://broker/'', ap_closed = False\<rparr>"

text \<open>After the reconnection the AMQP publisher itself has a new, open channel.\<close>

lemma demo_reconnects:
  "handle_connection_close closing_broker True (demo_amqp, (1, {})) = (demo_amqp\<lparr>ap_channel := Some 1\<rparr>, (2, {0}))"
  by (simp add: handle_connection_close_def amqp_reconnect_def close_current_def close_both_def reconnect_waits_def
      connect_def closing_broker_def demo_amqp_def)

theorem metadata_lost_after_reconnect_witness:
  "publish_events closing_pub [(''meta'', []), (''meta.status'', [])]
     (fst (new_metadata_publisher closing_broker (ap_channel demo_amqp) ''x'' ''meta'' True (1, {}))) (2, {0})
   \<noteq> Some [None, None]"
proof
  assume e: "publish_events closing_pub [(''meta'', []), (''meta.status'', [])]
     (fst (new_metadata_publisher closing_broker (ap_channel demo_amqp) ''x'' ''meta'' True (1, {}))) (2, {0})
   = Some [None, None]"
  have "ap_channel demo_amqp = Some 0" "\<not> ap_closed demo_amqp" by (simp_all add: demo_amqp_def)
  from metadata_lost_after_reconnect [OF closing_broker_laws this demo_reconnects refl e]
  show False by simp
qed

end
