(* ===== verification/CameraV2.thy ===== *)
theory CameraV2
  imports PublisherV2
begin

section \<open>The single-frame camera of v2\<close>

text \<open>
  \<open>v2/src/camera.go\<close> and \<open>pool.go\<close>: a camera that runs FFmpeg once for every tick and publishes the
  image it wrote.  How FFmpeg ends and what the publisher answers are arguments.
\<close>

record camera2 =
  c2_ID :: string
  c2_URL :: string
  c2_FPS :: int
  c2_Quality :: int
  c2_cancelled :: bool
  c2_frameCount :: int
  c2_lastFrame :: time
  c2_running :: bool

definition new_camera :: "string \<Rightarrow> string \<Rightarrow> int \<Rightarrow> int \<Rightarrow> camera2" where
  "new_camera ident url fps quality = \<lparr>c2_ID = ident, c2_URL = url, c2_FPS = fps, c2_Quality = quality,
     c2_cancelled = False, c2_frameCount = 0, c2_lastFrame = zero_time, c2_running = False\<rparr>"

text \<open>\<open>Start\<close>: whether it starts the loop.\<close>

definition start_camera :: "camera2 \<Rightarrow> bool \<times> camera2" where
  "start_camera c = (if c2_running c then (False, c) else (True, c\<lparr>c2_running := True\<rparr>))"

definition stop_camera :: "camera2 \<Rightarrow> camera2" where
  "stop_camera c = c\<lparr>c2_cancelled := True\<rparr>"

text \<open>The interval of the ticker; \<open>None\<close> is a panic (a rate of zero, or a ticker without an interval).\<close>

definition capture_interval :: "camera2 \<Rightarrow> duration option" where
  "capture_interval c = (if c2_FPS c = 0 then None
     else let interval = second sdiv c2_FPS c in if interval \<le> 0 then None else Some interval)"

definition frame_args :: "camera2 \<Rightarrow> string list" where
  "frame_args c = [''-loglevel'', ''error'', ''-rtsp_transport'', ''tcp'', ''-i'', c2_URL c, ''-frames:v'', ''1'',
     ''-vcodec'', ''mjpeg'', ''-q:v'', fmt_d (c2_Quality c), ''-f'', ''image2pipe'', ''-'']"

datatype ffmpeg_run = RunFailed goerr string | RunWrote "byte list"

definition invalid_jpeg_error :: goerr where
  "invalid_jpeg_error = errorf (''frame n'' @ [CHR 0xC3, CHR 0xA3] @ ''o '' @ [CHR 0xC3, CHR 0xA9] @ '' JPEG v''
     @ [CHR 0xC3, CHR 0xA1] @ ''lido'')"

definition capture_frame :: "ffmpeg_run \<Rightarrow> goerr + byte list" where
  "capture_frame out = (case out of
     RunFailed e stderr \<Rightarrow>
       Inl (if stderr \<noteq> [] then errorf (''ffmpeg: '' @ stderr) else wrap_err ''ffmpeg falhou: '' e)
   | RunWrote frameData \<Rightarrow>
       if frameData = [] then Inl (errorf ''frame vazio'')
       else if length frameData < 2 \<or> frameData ! 0 \<noteq> 0xFF \<or> frameData ! 1 \<noteq> 0xD8 then Inl invalid_jpeg_error
       else Inr frameData)"

text \<open>A tick: the frame given to \<open>Publish\<close> with its time, if any; what \<open>Publish\<close> answers changes nothing.\<close>

definition capture_and_publish2 :: "time \<Rightarrow> ffmpeg_run \<Rightarrow> camera2 \<Rightarrow> (byte list \<times> time) option \<times> camera2" where
  "capture_and_publish2 start out c = (case capture_frame out of
     Inl e \<Rightarrow> (None, c)
   | Inr frame \<Rightarrow> (Some (frame, start),
       c\<lparr>c2_frameCount := u64 (c2_frameCount c + 1), c2_lastFrame := start\<rparr>))"

definition camera_stats :: "camera2 \<Rightarrow> int \<times> time" where
  "camera_stats c = (c2_frameCount c, c2_lastFrame c)"

subsection \<open>The pool\<close>

text \<open>A buffer is its capacity and its length; \<open>None\<close> of the pool's answer is a new buffer of 2 MB.\<close>

definition get_pool_buffer :: "(int \<times> int) option \<Rightarrow> int \<times> int" where
  "get_pool_buffer pooled = (case pooled of Some b \<Rightarrow> b | None \<Rightarrow> (2 * 1024 * 1024, 2 * 1024 * 1024))"

definition put_pool_buffer :: "(int \<times> int) option \<Rightarrow> (int \<times> int) option" where
  "put_pool_buffer buf = (case buf of None \<Rightarrow> None | Some (cp, len) \<Rightarrow> Some (cp, cp))"

lemma pool_buffer_full: "get_pool_buffer (put_pool_buffer (Some (2 * 1024 * 1024, n))) = get_pool_buffer None"
  by (simp add: get_pool_buffer_def put_pool_buffer_def)

subsection \<open>What is published\<close>

lemma capture_frame_valid: "capture_frame out = Inr f \<Longrightarrow> prefix jpegSOI f \<and> out = RunWrote f"
proof (cases out)
  case (RunWrote d)
  assume a: "capture_frame out = Inr f"
  show ?thesis
  proof (cases d rule: remdups_adj.cases)
    case (3 x y zs)
    then show ?thesis using a RunWrote
      by (auto simp: capture_frame_def jpegSOI_def split: if_splits)
  qed (use a RunWrote in \<open>simp_all add: capture_frame_def\<close>)
qed (simp add: capture_frame_def)

definition camera_step :: "camera2 \<Rightarrow> time \<times> ffmpeg_run \<Rightarrow> (byte list \<times> time) option \<times> camera2" where
  "camera_step c ev = capture_and_publish2 (fst ev) (snd ev) c"

definition published_frames :: "camera2 \<Rightarrow> (time \<times> ffmpeg_run) list \<Rightarrow> (byte list \<times> time) list" where
  "published_frames c evs = List.map_filter id (trace camera_step c evs)"

text \<open>A camera hands to its publisher exactly the images FFmpeg wrote that begin with the JPEG marker,
  in order, unchanged and with the time the tick began; runs that fail, write nothing or write
  something else publish nothing and leave the counters alone; and the frame count of the
  statistics is, modulo 2^64, the number of frames handed over.\<close>

theorem camera_publishes_valid_frames:
  assumes "c2_frameCount c = 0"
  shows "published_frames c evs =
      map (\<lambda>(t, out). (case out of RunWrote f \<Rightarrow> f, t))
        (filter (\<lambda>(t, out). case out of RunWrote f \<Rightarrow> prefix jpegSOI f | RunFailed e s \<Rightarrow> False) evs)
    \<and> fst (camera_stats (final camera_step c evs)) = u64 (int (length (published_frames c evs)))"
proof -
  have "published_frames c evs =
      map (\<lambda>(t, out). (case out of RunWrote f \<Rightarrow> f, t))
        (filter (\<lambda>(t, out). case out of RunWrote f \<Rightarrow> prefix jpegSOI f | RunFailed e s \<Rightarrow> False) evs)
    \<and> u64 (c2_frameCount (final camera_step c evs)) = u64 (c2_frameCount c + int (length (published_frames c evs)))" for c
  proof (induction evs arbitrary: c)
    case (Cons ev evs)
    obtain t out where ev: "ev = (t, out)" by (cases ev)
    show ?case
    proof (cases "capture_frame out")
      case (Inl e)
      then have "\<not> (case out of RunWrote f \<Rightarrow> prefix jpegSOI f | RunFailed e s \<Rightarrow> False)"
        by (cases out) (auto simp: capture_frame_def jpegSOI_def prefix_def split: if_splits)
      then show ?thesis using Cons.IH [of c] Inl ev
        by (simp add: published_frames_def camera_step_def capture_and_publish2_def List.map_filter_simps)
    next
      case (Inr f)
      then have "prefix jpegSOI f" "out = RunWrote f" using capture_frame_valid by blast+
      then show ?thesis using Cons.IH [of "c\<lparr>c2_frameCount := u64 (c2_frameCount c + 1), c2_lastFrame := t\<rparr>"] Inr ev
        by (simp add: published_frames_def camera_step_def capture_and_publish2_def List.map_filter_simps ac_simps)
    qed
  qed (simp add: published_frames_def List.map_filter_simps)
  note all = this
  have "0 \<le> c2_frameCount (final camera_step c evs) \<and> c2_frameCount (final camera_step c evs) < 2 ^ 64"
    if "c2_frameCount c = u64 n" for c n
    using that
  proof (induction evs arbitrary: c n)
    case (Cons ev evs)
    have "\<exists>m. c2_frameCount (snd (camera_step c ev)) = u64 m"
      using Cons.prems by (auto simp: camera_step_def capture_and_publish2_def split: sum.splits)
    then show ?case using Cons.IH by auto
  qed (simp add: u64_def)
  from this [of c 0] have "u64 (c2_frameCount (final camera_step c evs)) = c2_frameCount (final camera_step c evs)"
    using assms by simp
  then show ?thesis using all [of c] assms by (simp add: camera_stats_def)
qed

theorem camera_publishes_valid_frames_witness:
  "published_frames (new_camera ''cam1'' ''rtsp://camera/'' 5 5)
     [(1, RunWrote [0xFF, 0xD8, 7]), (2, RunFailed (errorf []) ''refused''), (3, RunWrote [1, 2])] = [([0xFF, 0xD8, 7], 1)]"
proof -
  have "c2_frameCount (new_camera ''cam1'' ''rtsp://camera/'' 5 5) = 0" by (simp add: new_camera_def)
  from camera_publishes_valid_frames [OF this] show ?thesis by (simp add: jpegSOI_def)
qed

end
