(* ===== verification/ProfilingV2.thy ===== *)
theory ProfilingV2
  imports MemLevel "HOL-Library.Multiset" "HOL-Library.Signed_Division"
begin

section \<open>The profile of v2\<close>

text \<open>
  \<open>v2/src/profiling.go\<close>: global counters that the goroutines of all cameras update by atomic
  operations, and the report computed from them.  A \<open>Track\<close> function is the list of its atomic
  operations, so that the operations of several goroutines can be interleaved; what the runtime and
  the system report are arguments, and the text of a report is the values its lines print.
\<close>

record profile_stats =
  pf_ffmpegReadTime :: int
  pf_ffmpegReadCount :: int
  pf_frameDecodeTime :: int
  pf_frameDecodeCount :: int
  pf_publishTime :: int
  pf_publishCount :: int
  pf_lastGCPause :: int
  pf_gcCount :: int
  pf_goroutineCount :: int
  pf_circuitBreakerOpen :: int
  pf_cpuPercent :: int
  pf_ramUsedMB :: int
  pf_ramTotalMB :: int
  pf_ramPercentage :: int
  pf_memoryControllerLevel :: int
  pf_memoryControllerGCCount :: int
  pf_publishConfirmsAck :: int
  pf_publishConfirmsNack :: int

definition zero_profile :: profile_stats where
  "zero_profile = \<lparr>pf_ffmpegReadTime = 0, pf_ffmpegReadCount = 0, pf_frameDecodeTime = 0,
     pf_frameDecodeCount = 0, pf_publishTime = 0, pf_publishCount = 0, pf_lastGCPause = 0, pf_gcCount = 0,
     pf_goroutineCount = 0, pf_circuitBreakerOpen = 0, pf_cpuPercent = 0, pf_ramUsedMB = 0,
     pf_ramTotalMB = 0, pf_ramPercentage = 0, pf_memoryControllerLevel = 0,
     pf_memoryControllerGCCount = 0, pf_publishConfirmsAck = 0, pf_publishConfirmsNack = 0\<rparr>"

subsection \<open>Atomic operations\<close>

datatype profile_op = AddReadTime duration | AddReadCount | AddDecodeTime duration | AddDecodeCount
  | AddPublishTime duration | AddPublishCount | AddAck | AddNack
  | StoreOpenBreakers int | StoreMemoryLevel int | StoreMemoryGC int

fun apply_op :: "profile_op \<Rightarrow> profile_stats \<Rightarrow> profile_stats" where
  "apply_op (AddReadTime d) p = p\<lparr>pf_ffmpegReadTime := i64 (pf_ffmpegReadTime p + d)\<rparr>"
| "apply_op AddReadCount p = p\<lparr>pf_ffmpegReadCount := u64 (pf_ffmpegReadCount p + 1)\<rparr>"
| "apply_op (AddDecodeTime d) p = p\<lparr>pf_frameDecodeTime := i64 (pf_frameDecodeTime p + d)\<rparr>"
| "apply_op AddDecodeCount p = p\<lparr>pf_frameDecodeCount := u64 (pf_frameDecodeCount p + 1)\<rparr>"
| "apply_op (AddPublishTime d) p = p\<lparr>pf_publishTime := i64 (pf_publishTime p + d)\<rparr>"
| "apply_op AddPublishCount p = p\<lparr>pf_publishCount := u64 (pf_publishCount p + 1)\<rparr>"
| "apply_op AddAck p = p\<lparr>pf_publishConfirmsAck := u64 (pf_publishConfirmsAck p + 1)\<rparr>"
| "apply_op AddNack p = p\<lparr>pf_publishConfirmsNack := u64 (pf_publishConfirmsNack p + 1)\<rparr>"
| "apply_op (StoreOpenBreakers n) p = p\<lparr>pf_circuitBreakerOpen := n\<rparr>"
| "apply_op (StoreMemoryLevel l) p = p\<lparr>pf_memoryControllerLevel := l\<rparr>"
| "apply_op (StoreMemoryGC n) p = p\<lparr>pf_memoryControllerGCCount := n\<rparr>"

definition track_ffmpeg_read :: "duration \<Rightarrow> profile_op list" where
  "track_ffmpeg_read d = [AddReadTime d, AddReadCount]"

definition track_frame_decode :: "duration \<Rightarrow> profile_op list" where
  "track_frame_decode d = [AddDecodeTime d, AddDecodeCount]"

definition track_publish :: "duration \<Rightarrow> profile_op list" where
  "track_publish d = [AddPublishTime d, AddPublishCount]"

definition track_circuit_breaker :: "int \<Rightarrow> profile_op list" where
  "track_circuit_breaker openCount = [StoreOpenBreakers openCount]"

definition track_memory_controller :: "memory_level \<Rightarrow> int \<Rightarrow> profile_op list" where
  "track_memory_controller level gcCount = [StoreMemoryLevel (i32 (level_value level)), StoreMemoryGC gcCount]"

definition track_publish_confirm :: "bool \<Rightarrow> profile_op list" where
  "track_publish_confirm ack = (if ack then [AddAck] else [AddNack])"

subsection \<open>What the runtime and the system report\<close>

text \<open>
  \<open>PauseNs\<close> is a ring of 256 entries, \<open>NumGC\<close> a 32-bit counter.  The conversion of a float64 that no
  \<open>uint64\<close> represents is left to the implementation of Go: \<open>other\<close> is what it gives.
\<close>

definition f_to_u64 :: "int \<Rightarrow> f64 \<Rightarrow> int" where
  "f_to_u64 other x = (case x of Fin r \<Rightarrow> if 0 \<le> trunc r \<and> trunc r < 2 ^ 64 then trunc r else other | _ \<Rightarrow> other)"

definition update_memory_stats :: "int list \<Rightarrow> int \<Rightarrow> int \<Rightarrow> profile_stats \<Rightarrow> profile_stats" where
  "update_memory_stats pauseNs numGC numGoroutine p =
     p\<lparr>pf_lastGCPause := pauseNs ! nat ((numGC + 255) mod 2 ^ 32 mod 256) div 1000,
       pf_gcCount := numGC, pf_goroutineCount := i32 numGoroutine\<rparr>"

definition update_system_stats :: "int \<Rightarrow> ((goerr + f64) \<times> (goerr + int)) option \<Rightarrow> goerr + int \<times> f64
    \<Rightarrow> profile_stats \<Rightarrow> profile_stats" where
  "update_system_stats other process vmem p =
     (let p1 = (case process of None \<Rightarrow> p | Some (cpuPct, rss) \<Rightarrow>
            let q = (case cpuPct of Inl _ \<Rightarrow> p | Inr c \<Rightarrow> p\<lparr>pf_cpuPercent := f_to_u64 other (f_mul c (Fin 100))\<rparr>)
            in (case rss of Inl _ \<Rightarrow> q | Inr n \<Rightarrow> q\<lparr>pf_ramUsedMB := n div 1024 div 1024\<rparr>))
      in case vmem of Inl _ \<Rightarrow> p1
         | Inr (ram, used) \<Rightarrow> p1\<lparr>pf_ramTotalMB := ram div 1024 div 1024,
             pf_ramPercentage := f_to_u64 other (f_mul used (Fin 100))\<rparr>)"

subsection \<open>The report\<close>

datatype report_line = FFmpegRead duration int | FrameDecode duration int | Publishing duration int
  | Confirms int int f64 | Rejected int | ConfirmsPending int | Bottleneck duration
  | GoMemory f64 f64 int int | ProcessUsage f64 int | SystemMemory int f64 | Goroutines int
  | OpenBreakers int | MemoryController int int

definition average :: "int \<Rightarrow> int \<Rightarrow> duration" where
  "average time n = i64 (time sdiv i64 n)"

definition confirm_lines :: "int \<Rightarrow> int \<Rightarrow> int \<Rightarrow> report_line list" where
  "confirm_lines acks nacks publishes =
     (let tot = u64 (acks + nacks) in
      if 0 < tot then
        [Confirms acks nacks (percent acks tot)]
        @ (if 0 < nacks then [Rejected nacks] else [])
        @ (if tot < publishes then [ConfirmsPending (u64 (publishes - tot))] else [])
      else [])"

definition print_profile_report :: "profile_stats \<Rightarrow> int \<Rightarrow> int \<Rightarrow> int \<Rightarrow> int \<Rightarrow> report_line list" where
  "print_profile_report p alloc sys numGC numGoroutine =
     (if 0 < pf_ffmpegReadCount p
      then [FFmpegRead (average (pf_ffmpegReadTime p) (pf_ffmpegReadCount p)) (pf_ffmpegReadCount p)] else [])
     @ (if 0 < pf_frameDecodeCount p
        then [FrameDecode (average (pf_frameDecodeTime p) (pf_frameDecodeCount p)) (pf_frameDecodeCount p)] else [])
     @ (if 0 < pf_publishCount p
        then let avg = average (pf_publishTime p) (pf_publishCount p) in
          [Publishing avg (pf_publishCount p)]
          @ confirm_lines (pf_publishConfirmsAck p) (pf_publishConfirmsNack p) (pf_publishCount p)
          @ (if 50 * millisecond < avg then [Bottleneck avg] else [])
        else [])
     @ [GoMemory (f_div (f64_of_int alloc) (Fin 1048576)) (f_div (f64_of_int sys) (Fin 1048576)) numGC (pf_lastGCPause p),
        ProcessUsage (f_div (f64_of_int (pf_cpuPercent p)) (Fin 100)) (pf_ramUsedMB p),
        SystemMemory (pf_ramTotalMB p) (f_div (f64_of_int (pf_ramPercentage p)) (Fin 100)),
        Goroutines numGoroutine]
     @ (if 0 < pf_circuitBreakerOpen p then [OpenBreakers (pf_circuitBreakerOpen p)] else [])
     @ (if 0 < pf_memoryControllerGCCount p
        then [MemoryController (pf_memoryControllerLevel p) (pf_memoryControllerGCCount p)] else [])"

subsection \<open>Every call is counted, however the goroutines interleave\<close>

datatype track_call = FFmpegCall duration | DecodeCall duration | PublishCall duration | ConfirmCall bool

fun call_ops :: "track_call \<Rightarrow> profile_op list" where
  "call_ops (FFmpegCall d) = track_ffmpeg_read d"
| "call_ops (DecodeCall d) = track_frame_decode d"
| "call_ops (PublishCall d) = track_publish d"
| "call_ops (ConfirmCall ack) = track_publish_confirm ack"

definition read_times :: "track_call list \<Rightarrow> duration list" where
  "read_times cs = concat (map (\<lambda>c. case c of FFmpegCall d \<Rightarrow> [d] | _ \<Rightarrow> []) cs)"

definition decode_times :: "track_call list \<Rightarrow> duration list" where
  "decode_times cs = concat (map (\<lambda>c. case c of DecodeCall d \<Rightarrow> [d] | _ \<Rightarrow> []) cs)"

definition publish_times :: "track_call list \<Rightarrow> duration list" where
  "publish_times cs = concat (map (\<lambda>c. case c of PublishCall d \<Rightarrow> [d] | _ \<Rightarrow> []) cs)"

definition confirms :: "bool \<Rightarrow> track_call list \<Rightarrow> int" where
  "confirms ack cs = int (length (filter (\<lambda>c. c = ConfirmCall ack) cs))"

lemmas call_lists = read_times_def decode_times_def publish_times_def confirms_def

lemma i64_add: "i64 (i64 a + b) = i64 (a + b)" "i64 (a + i64 b) = i64 (a + b)"
  by (simp_all add: i64_def mod_simps algebra_simps)

fun is_add :: "profile_op \<Rightarrow> bool" where
  "is_add (StoreOpenBreakers _) = False"
| "is_add (StoreMemoryLevel _) = False"
| "is_add (StoreMemoryGC _) = False"
| "is_add _ = True"

lemma adds_commute: "is_add a \<Longrightarrow> is_add b \<Longrightarrow> apply_op a \<circ> apply_op b = apply_op b \<circ> apply_op a"
  by (cases a; cases b) (simp_all add: fun_eq_iff i64_add add_ac)

lemma call_ops_add: "a \<in> set (concat (map call_ops cs)) \<Longrightarrow> is_add a"
proof -
  assume "a \<in> set (concat (map call_ops cs))"
  then obtain c where "a \<in> set (call_ops c)" by auto
  then show ?thesis
    by (cases c) (auto simp: track_ffmpeg_read_def track_frame_decode_def track_publish_def
        track_publish_confirm_def split: if_splits)
qed

lemma sequential_calls:
  "fold apply_op (concat (map call_ops cs)) zero_profile = zero_profile\<lparr>
     pf_ffmpegReadTime := i64 (sum_list (read_times cs)), pf_ffmpegReadCount := u64 (int (length (read_times cs))),
     pf_frameDecodeTime := i64 (sum_list (decode_times cs)), pf_frameDecodeCount := u64 (int (length (decode_times cs))),
     pf_publishTime := i64 (sum_list (publish_times cs)), pf_publishCount := u64 (int (length (publish_times cs))),
     pf_publishConfirmsAck := u64 (confirms True cs), pf_publishConfirmsNack := u64 (confirms False cs)\<rparr>"
proof (induction cs rule: rev_induct)
  case Nil
  then show ?case by (simp add: zero_profile_def call_lists)
next
  case (snoc c cs)
  show ?case
    by (cases c) (simp_all add: snoc.IH track_ffmpeg_read_def track_frame_decode_def track_publish_def
        track_publish_confirm_def call_lists i64_add add_ac)
qed

lemma profile_any_order:
  assumes "mset ops = mset (concat (map call_ops cs))"
  shows "fold apply_op ops zero_profile = fold apply_op (concat (map call_ops cs)) zero_profile"
proof -
  have "is_add a" if "a \<in> set ops" for a
    using that call_ops_add [of a cs] mset_eq_setD [OF assms] by simp
  then have "fold apply_op ops = fold apply_op (concat (map call_ops cs))"
    by (intro fold_multiset_equiv [OF adds_commute assms]) simp_all
  then show ?thesis by simp
qed

lemmas profile_total = profile_any_order [unfolded sequential_calls]

text \<open>C32: The profile does not depend on how the goroutines of the cameras interleave: when their calls
  have finished, in whatever order their atomic operations were executed, every time is the sum of
  the durations of the calls and every count their number, at the width of the counter.\<close>

theorem profile_counts_every_call:
  assumes "mset ops = mset (concat (map call_ops cs))"
  shows "fold apply_op ops zero_profile = zero_profile\<lparr>
     pf_ffmpegReadTime := i64 (sum_list (read_times cs)), pf_ffmpegReadCount := u64 (int (length (read_times cs))),
     pf_frameDecodeTime := i64 (sum_list (decode_times cs)), pf_frameDecodeCount := u64 (int (length (decode_times cs))),
     pf_publishTime := i64 (sum_list (publish_times cs)), pf_publishCount := u64 (int (length (publish_times cs))),
     pf_publishConfirmsAck := u64 (confirms True cs), pf_publishConfirmsNack := u64 (confirms False cs)\<rparr>"
  using assms by (rule profile_total)

theorem profile_counts_every_call_witness:
  "fold apply_op [AddPublishTime 3, AddAck, AddPublishTime 4, AddPublishCount, AddPublishCount] zero_profile
   = zero_profile\<lparr>pf_publishTime := 7, pf_publishCount := 2, pf_publishConfirmsAck := 1\<rparr>"
  using profile_counts_every_call [of "[AddPublishTime 3, AddAck, AddPublishTime 4, AddPublishCount, AddPublishCount]"
      "[PublishCall 3, ConfirmCall True, PublishCall 4]"]
  by (simp add: call_lists track_publish_def track_publish_confirm_def zero_profile_def)

subsection \<open>What the report says\<close>

lemma average_exact:
  assumes "0 \<le> t" and "t \<le> max_i64" and "0 < n" and "n \<le> max_i64"
  shows "average t n = t div n"
proof -
  have "t div n \<le> t" using assms(1) using assms(3) by (metis div_by_1 zdiv_mono2 int_one_le_iff_zero_less zero_less_one)
  moreover have "0 \<le> t div n" using assms(1,3) by (simp add: pos_imp_zdiv_nonneg_iff)
  ultimately show ?thesis using assms by (simp add: average_def signed_divide_int_def sgn_if)
qed

lemma sum_list_between:
  fixes ds :: "int list"
  shows "int (length ds) * Min (set ds) \<le> sum_list ds \<and> sum_list ds \<le> int (length ds) * Max (set ds)"
proof -
  have "sum_list (map (\<lambda>_. Min (set ds)) ds) \<le> sum_list (map (\<lambda>d. d) ds)"
    and "sum_list (map (\<lambda>d. d) ds) \<le> sum_list (map (\<lambda>_. Max (set ds)) ds)"
    by (intro sum_list_mono; simp)+
  then show ?thesis by (simp add: sum_list_triv)
qed

lemma mean_between:
  fixes ds :: "int list"
  assumes "ds \<noteq> []"
  shows "Min (set ds) \<le> sum_list ds div int (length ds) \<and> sum_list ds div int (length ds) \<le> Max (set ds)"
proof -
  let ?n = "int (length ds)"
  have n: "0 < ?n" using assms by simp
  have "?n * Min (set ds) div ?n \<le> sum_list ds div ?n"
    using sum_list_between [of ds] n by (intro zdiv_mono1) blast+
  moreover have "sum_list ds div ?n \<le> ?n * Max (set ds) div ?n"
    using sum_list_between [of ds] n by (intro zdiv_mono1) blast+
  moreover have "?n * x div ?n = x" for x using n by (intro nonzero_mult_div_cancel_left) simp
  ultimately show ?thesis by simp
qed

lemma confirms_bounds:
  "0 \<le> confirms b cs" "confirms True cs + confirms False cs \<le> int (length cs)"
  unfolding confirms_def by simp (induction cs; auto)

lemma length_publish_times: "length (publish_times cs) \<le> length cs"
  unfolding publish_times_def by (induction cs) (auto split: track_call.split)

text \<open>The lines of the report about publishing.\<close>

lemma report_publishing:
  assumes "report = print_profile_report p alloc sys numGC numGoroutine" and "0 < pf_publishCount p"
  shows "Publishing d n \<in> set report \<longleftrightarrow> d = average (pf_publishTime p) (pf_publishCount p) \<and> n = pf_publishCount p"
    and "Bottleneck d \<in> set report \<longleftrightarrow>
      d = average (pf_publishTime p) (pf_publishCount p) \<and> 50 * millisecond < d"
    and "Confirms a m r \<in> set report \<longleftrightarrow> a = pf_publishConfirmsAck p \<and> m = pf_publishConfirmsNack p
      \<and> 0 < u64 (a + m) \<and> r = percent a (u64 (a + m))"
  using assms by (auto simp: print_profile_report_def confirm_lines_def Let_def)

text \<open>C33: The latency the report prints is the mean of the durations of all calls of Publish, rounded
  down: it lies between the shortest and the longest of them, the bottleneck is reported exactly
  when it exceeds 50 milliseconds, and the share of confirmed frames is between 0 and 100.\<close>

theorem report_latency_is_mean:
  assumes "mset ops = mset (concat (map call_ops cs))" and "ds = publish_times cs" and "ds \<noteq> []"
    and "list_all (\<lambda>d. 0 \<le> d) ds" and "sum_list ds \<le> max_i64" and "int (length cs) \<le> max_i64"
    and "report = print_profile_report (fold apply_op ops zero_profile) alloc sys numGC numGoroutine"
  shows "let avg = sum_list ds div int (length ds) in Min (set ds) \<le> avg \<and> avg \<le> Max (set ds)
    \<and> Publishing avg (int (length ds)) \<in> set report
    \<and> (Bottleneck avg \<in> set report \<longleftrightarrow> 50 * millisecond < avg)
    \<and> (Confirms a n r \<in> set report \<longrightarrow> a = confirms True cs \<and> n = confirms False cs
          \<and> f_le (Fin 0) r \<and> f_le r (Fin 100))"
proof -
  let ?p = "fold apply_op ops zero_profile" and ?avg = "sum_list ds div int (length ds)"
  let ?acks = "confirms True cs" and ?nacks = "confirms False cs"
  have n: "0 < int (length ds)" "int (length ds) \<le> max_i64"
    using assms(3,6) length_publish_times [of cs] unfolding assms(2) by (simp, linarith)
  have s: "0 \<le> sum_list ds" using assms(4) by (intro sum_list_nonneg) (auto simp: list_all_iff)
  have c: "0 \<le> ?acks" "0 \<le> ?nacks" "?acks + ?nacks \<le> max_i64"
    using confirms_bounds(1) order_trans [OF confirms_bounds(2) assms(6)] by auto
  have counts: "pf_publishTime ?p = sum_list ds" "pf_publishCount ?p = int (length ds)"
    "pf_publishConfirmsAck ?p = ?acks" "pf_publishConfirmsNack ?p = ?nacks"
    using profile_total [OF assms(1)] s n c assms(2,5) by simp_all
  have avg: "average (sum_list ds) (int (length ds)) = ?avg" using s assms(5) n by (rule average_exact)
  have "f_le (Fin 0) (percent ?acks (?acks + ?nacks)) \<and> f_le (percent ?acks (?acks + ?nacks)) (Fin 100)"
    if "0 < ?acks + ?nacks"
    using percent_at_most_100 [of ?acks "?acks + ?nacks"] c that by simp
  then show ?thesis
    using mean_between [OF assms(3)] c n(1)
    by (auto simp: Let_def report_publishing [OF assms(7)] counts avg)
qed

theorem report_latency_is_mean_witness:
  "let report = print_profile_report (fold apply_op [AddPublishTime 60000000, AddAck, AddPublishTime 50000000,
       AddPublishCount, AddPublishCount] zero_profile) 0 0 0 0
   in Publishing 55000000 2 \<in> set report \<and> Bottleneck 55000000 \<in> set report"
  using report_latency_is_mean [of "[AddPublishTime 60000000, AddAck, AddPublishTime 50000000, AddPublishCount,
       AddPublishCount]" "[PublishCall 60000000, ConfirmCall True, PublishCall 50000000]", OF _ refl _ _ _ _ refl]
  by (simp add: call_lists track_publish_def track_publish_confirm_def Let_def)

end
