(* ===== verification/ConfigV2.thy ===== *)
theory ConfigV2
  imports MemControlV2 StreamV2
begin

section \<open>The configuration of v2\<close>

text \<open>
  \<open>v2/src/config.go\<close>.  Reading the file and decoding the YAML are outside: their outcome, an error
  or the decoded record, is the argument of \<open>load_config2\<close>.
\<close>

record amqp_config2 =
  aq_URL :: string
  aq_Exchange :: string
  aq_RoutingKeyPrefix :: string
  aq_PrefetchCount :: int

record cam_config2 =
  cm_ID :: string
  cm_URL :: string
  cm_Exchange :: string
  cm_RoutingKey :: string

record config2 =
  c2_FPS :: int
  c2_Quality :: int
  c2_AMQP :: amqp_config2
  c2_CircuitBreaker :: cb_config
  c2_MemoryController :: memory_controller_config
  c2_Cameras :: "cam_config2 list"

definition default_memory_config :: memory_controller_config where
  "default_memory_config = \<lparr>m2_Enabled = False, m2_MaxMemoryMB = 2048, m2_WarningPercent = Fin 60,
     m2_CriticalPercent = Fin 75, m2_EmergencyPercent = Fin 85, m2_CheckInterval = 5000000000,
     m2_GCTriggerPercent = Fin 70\<rparr>"

definition invalid :: "string \<Rightarrow> goerr" where
  "invalid s = errorf s"

definition load_config2 :: "goerr + (goerr + config2) \<Rightarrow> goerr + config2" where
  "load_config2 source = (case source of
     Inl e \<Rightarrow> Inl (wrap_err ''erro ao ler arquivo: '' e)
   | Inr (Inl e) \<Rightarrow> Inl (wrap_err ''erro ao parsear YAML: '' e)
   | Inr (Inr c0) \<Rightarrow>
       if c2_FPS c0 \<le> 0 \<or> 60 < c2_FPS c0
         then Inl (invalid (''FPS inv'' @ [CHR 0xC3, CHR 0xA1] @ ''lido: '' @ fmt_d (c2_FPS c0) @ '' (deve ser 1-60)''))
       else if c2_Quality c0 < 2 \<or> 31 < c2_Quality c0
         then Inl (invalid (''Quality inv'' @ [CHR 0xC3, CHR 0xA1] @ ''lido: '' @ fmt_d (c2_Quality c0) @ '' (deve ser 2-31)''))
       else if c2_Cameras c0 = []
         then Inl (invalid (''nenhuma c'' @ [CHR 0xC3, CHR 0xA2] @ ''mera configurada''))
       else
         let c1 = (if aq_PrefetchCount (c2_AMQP c0) = 0
                   then c0\<lparr>c2_AMQP := (c2_AMQP c0)\<lparr>aq_PrefetchCount := 50\<rparr>\<rparr> else c0);
             c2 = (if cfg_MaxFailures (c2_CircuitBreaker c1) = 0
                   then c1\<lparr>c2_CircuitBreaker := default_cb_config\<rparr> else c1);
             c3 = (if m2_MaxMemoryMB (c2_MemoryController c2) = 0
                   then c2\<lparr>c2_MemoryController := default_memory_config\<rparr> else c2)
         in if m2_Enabled (c2_MemoryController c3)
            then (case validate_memory_config (c2_MemoryController c3) of
                Some e \<Rightarrow> Inl (wrap_err (''erro na configura'' @ [CHR 0xC3, CHR 0xA7, CHR 0xC3, CHR 0xA3]
                  @ ''o de memory_controller: '') e)
              | None \<Rightarrow> Inr c3)
            else Inr c3)"

text \<open>C25: Every configuration that loads is usable: the frame rate is between 1 and 60, so the interval
  of a camera's publisher is a positive duration of at most a second and its division cannot panic;
  there is a camera, the breaker has a threshold, the prefetch count is set, and an enabled memory
  controller passes its validation.\<close>

theorem loaded_config_usable:
  assumes "load_config2 source = Inr c"
  shows "1 \<le> c2_FPS c \<and> c2_FPS c \<le> 60 \<and> 2 \<le> c2_Quality c \<and> c2_Quality c \<le> 31 \<and> c2_Cameras c \<noteq> []
    \<and> (\<exists>d. publish_interval (new_camera_stream cid url (c2_FPS c) q cb now) = Some d \<and> 0 < d \<and> d \<le> second)
    \<and> cfg_MaxFailures (c2_CircuitBreaker c) \<noteq> 0 \<and> aq_PrefetchCount (c2_AMQP c) \<noteq> 0
    \<and> m2_MaxMemoryMB (c2_MemoryController c) \<noteq> 0
    \<and> validate_memory_config (c2_MemoryController c) = None"
proof -
  obtain c0 where src: "source = Inr (Inr c0)" and r: "1 \<le> c2_FPS c0" "c2_FPS c0 \<le> 60" "2 \<le> c2_Quality c0"
    "c2_Quality c0 \<le> 31" "c2_Cameras c0 \<noteq> []"
    using assms by (auto simp: load_config2_def split: sum.splits if_splits)
  have v: "validate_memory_config m = None" if "\<not> m2_Enabled m" for m
    using that by (simp add: validate_memory_config_def)
  have base: "c2_FPS c = c2_FPS c0" "c2_Quality c = c2_Quality c0" "c2_Cameras c = c2_Cameras c0"
    "cfg_MaxFailures (c2_CircuitBreaker c) \<noteq> 0" "aq_PrefetchCount (c2_AMQP c) \<noteq> 0"
    "m2_MaxMemoryMB (c2_MemoryController c) \<noteq> 0" "validate_memory_config (c2_MemoryController c) = None"
    using assms src r v
    by (auto simp: load_config2_def Let_def default_cb_config_def default_memory_config_def
        split: option.splits if_splits)
  have "second sdiv c2_FPS c0 = second div c2_FPS c0"
    using r by (simp add: signed_divide_int_def sgn_if)
  moreover have "0 < second div c2_FPS c0"
    using r by (simp add: pos_imp_zdiv_pos_iff)
  moreover have "second div c2_FPS c0 \<le> second div 1" using r by (intro zdiv_mono2) simp_all
  ultimately show ?thesis using base r by (simp add: publish_interval_def new_camera_stream_def)
qed

definition demo_config_v2 :: config2 where
  "demo_config_v2 = \<lparr>c2_FPS = 15, c2_Quality = 5,
     c2_AMQP = \<lparr>aq_URL = ''amqp://broker/'', aq_Exchange = '''', aq_RoutingKeyPrefix = '''', aq_PrefetchCount = 0\<rparr>,
     c2_CircuitBreaker = default_cb_config, c2_MemoryController = demo_config2\<lparr>m2_MaxMemoryMB := 0\<rparr>,
     c2_Cameras = [\<lparr>cm_ID = ''cam1'', cm_URL = ''rtsp://camera/1'', cm_Exchange = '''', cm_RoutingKey = ''''\<rparr>]\<rparr>"

lemma demo_config_loads: "\<exists>c. load_config2 (Inr (Inr demo_config_v2)) = Inr c"
  by (simp add: load_config2_def demo_config_v2_def default_memory_config_def default_cb_config_def Let_def)

theorem loaded_config_usable_witness:
  "\<exists>c. load_config2 (Inr (Inr demo_config_v2)) = Inr c \<and> 1 \<le> c2_FPS c \<and> aq_PrefetchCount (c2_AMQP c) \<noteq> 0"
  using demo_config_loads loaded_config_usable by blast

text \<open>
  A limit of zero never reaches the validation that would reject it: the whole section is replaced
  by the defaults, in which the controller is off, even where the file enables it.
\<close>

lemma zero_limit_disables_controller:
  assumes "load_config2 (Inr (Inr c0)) = Inr c" and "m2_MaxMemoryMB (c2_MemoryController c0) = 0"
  shows "\<not> m2_Enabled (c2_MemoryController c)"
  using assms by (auto simp: load_config2_def Let_def default_memory_config_def
      split: option.splits if_splits)

end
