(* ===== verification/MainV2.thy ===== *)
theory MainV2
  imports ConfigV2 PublisherV2 ProfilingV2
begin

section \<open>The main program of v2\<close>

text \<open>
  \<open>v2/src/main.go\<close>: every camera of the configuration gets a publisher and a stream of its own; a
  timer writes statistics, and a report is written at the end.  A report is the values its lines
  print.  The connections to the broker share its state; the publishers then run side by side.
\<close>

subsection \<open>Starting the cameras\<close>

definition camera_exchange :: "config2 \<Rightarrow> cam_config2 \<Rightarrow> string" where
  "camera_exchange cfg cam = (if cm_Exchange cam = [] then aq_Exchange (c2_AMQP cfg) else cm_Exchange cam)"

definition camera_routing_key :: "config2 \<Rightarrow> cam_config2 \<Rightarrow> string" where
  "camera_routing_key cfg cam =
     (if cm_RoutingKey cam = [] then aq_RoutingKeyPrefix (c2_AMQP cfg) @ cm_ID cam else cm_RoutingKey cam)"

definition start_camera2 :: "('c, 'h, 'w) amqp2_api \<Rightarrow> config2 \<Rightarrow> cam_config2 \<Rightarrow> time \<Rightarrow> 'w
    \<Rightarrow> (goerr + ('c, 'h) publisher2 \<times> camera_stream) \<times> duration list \<times> 'w" where
  "start_camera2 api cfg cam now w =
     (case new_publisher2 api (aq_URL (c2_AMQP cfg)) (camera_exchange cfg cam) (camera_routing_key cfg cam)
             (aq_PrefetchCount (c2_AMQP cfg)) w of
        (Inl e, sleeps, w') \<Rightarrow> (Inl e, sleeps, w')
      | (Inr p, sleeps, w') \<Rightarrow>
          (Inr (p, snd (start_stream (new_camera_stream (cm_ID cam) (cm_URL cam) (c2_FPS cfg) (c2_Quality cfg)
             (c2_CircuitBreaker cfg) now))), sleeps, w'))"

text \<open>
  The loop over the cameras, each with the time its breaker is made at; an error is the end of the
  program (\<open>log.Fatalf\<close>).  The sleeps between attempts to connect are listed.
\<close>

fun start_cameras :: "('c, 'h, 'w) amqp2_api \<Rightarrow> config2 \<Rightarrow> (cam_config2 \<times> time) list \<Rightarrow> 'w
    \<Rightarrow> (goerr + (('c, 'h) publisher2 \<times> camera_stream) list) \<times> duration list \<times> 'w" where
  "start_cameras api cfg [] w = (Inr [], [], w)"
| "start_cameras api cfg ((cam, now) # cams) w = (case start_camera2 api cfg cam now w of
     (Inl e, sleeps, w1) \<Rightarrow> (Inl e, sleeps, w1)
   | (Inr c, sleeps, w1) \<Rightarrow> (case start_cameras api cfg cams w1 of
        (Inl e, sleeps', w2) \<Rightarrow> (Inl e, sleeps @ sleeps', w2)
      | (Inr cs, sleeps', w2) \<Rightarrow> (Inr (c # cs), sleeps @ sleeps', w2)))"

text \<open>The callbacks of the memory controller only write to the log; they are numbered here.\<close>

definition setup_memory2 :: "config2 \<Rightarrow> time \<Rightarrow> memory_controller option" where
  "setup_memory2 cfg now =
     (if m2_Enabled (c2_MemoryController cfg)
      then Some (register_callback2 MemoryEmergency 2 (register_callback2 MemoryCritical 1
             (register_callback2 MemoryWarning 0 (new_memory_controller (c2_MemoryController cfg) now))))
      else None)"

definition memory_profile_tick :: "memory_controller \<Rightarrow> profile_op list" where
  "memory_profile_tick mc = track_memory_controller (s2_Level (mm_stats mc)) (s2_NumGC (mm_stats mc))"

subsection \<open>Statistics and the final report\<close>

definition error_rate :: "int \<Rightarrow> int \<Rightarrow> f64" where
  "error_rate pubCount pubErrors = (if 0 < pubCount then percent pubErrors pubCount else Fin 0)"

record camera_line =
  cl_ID :: string
  cl_status :: string
  cl_frames :: int
  cl_age :: duration
  cl_breaker :: "circuit_state option"

text \<open>\<open>now\<close> and \<open>now'\<close> are the clocks of the age and of the breaker's statistics.\<close>

definition breaker_open :: "time \<Rightarrow> camera_stream \<Rightarrow> bool" where
  "breaker_open now s \<longleftrightarrow> (let st = stats2 now (sm_circuitBreaker s) in st_Enabled st \<and> st_State st = StateOpen)"

definition camera_line :: "time \<times> time \<Rightarrow> camera_stream \<Rightarrow> camera_line" where
  "camera_line ts s =
     (let age = since (fst ts) (sm_lastFrame s); st = stats2 (snd ts) (sm_circuitBreaker s)
      in \<lparr>cl_ID = sm_ID s,
          cl_status = (if breaker_open (snd ts) s then ''CB_OPEN'' else if 5 * second < age then ''WARN'' else ''OK''),
          cl_frames = sm_frameCount s, cl_age = age,
          cl_breaker = (if st_Enabled st then Some (st_State st) else None)\<rparr>)"

text \<open>A round of \<open>statsMonitor\<close>: the publisher's line, those of the cameras and the update of the profile.\<close>

definition stats_round :: "((time \<times> time) \<times> camera_stream) list \<Rightarrow> ('c, 'h) publisher2
    \<Rightarrow> (bool \<times> int \<times> int \<times> f64) \<times> camera_line list \<times> profile_op list" where
  "stats_round cams p =
     (let (pubCount, pubErrors) = publisher_stats2 p in
      ((p2_connected p, pubCount, pubErrors, error_rate pubCount pubErrors),
       map (\<lambda>(ts, s). camera_line ts s) cams,
       track_circuit_breaker (int (length (filter (\<lambda>(ts, s). breaker_open (snd ts) s) cams)))))"

definition seconds :: "duration \<Rightarrow> f64" where
  "seconds d = f_add (f64_of_int (d sdiv second)) (f_div (f64_of_int (d smod second)) (Fin 1000000000))"

record confirm_report =
  cf_acks :: int
  cf_ackRate :: f64
  cf_nacks :: int
  cf_nackRate :: f64
  cf_pending :: "int option"
  cf_rejected :: bool
  cf_complete :: bool

definition confirm_report :: "int \<Rightarrow> int \<Rightarrow> int \<Rightarrow> confirm_report option" where
  "confirm_report acks nacks pubCount =
     (let totalConfirms = u64 (acks + nacks); confirmRate = percent acks totalConfirms in
      if 0 < totalConfirms then Some
        \<lparr>cf_acks = acks, cf_ackRate = confirmRate, cf_nacks = nacks,
         cf_nackRate = f_add (Fin 100) (f_neg confirmRate),
         cf_pending = (if totalConfirms < pubCount then Some (u64 (pubCount - totalConfirms)) else None),
         cf_rejected = (0 < nacks), cf_complete = (acks = pubCount \<and> nacks = 0)\<rparr>
      else None)"

definition success_rate :: "int \<Rightarrow> int \<Rightarrow> f64" where
  "success_rate pubCount pubErrors = (if 0 < pubCount then percent (u64 (pubCount - pubErrors)) pubCount else Fin 100)"

definition per_second :: "duration \<Rightarrow> int \<Rightarrow> f64 option" where
  "per_second uptime n =
     (if f_lt (Fin 0) (seconds uptime) then Some (f_div (f64_of_int n) (seconds uptime)) else None)"

record camera_report =
  cr_ID :: string
  cr_recent :: bool
  cr_received :: int
  cr_fpsCamera :: f64
  cr_published :: int
  cr_fpsPublished :: f64
  cr_dropped :: int
  cr_dropRate :: f64
  cr_targetFPS :: int
  cr_efficiency :: f64
  cr_volumeMB :: f64
  cr_lastFrameAge :: duration
  cr_breaker :: cb_stats

definition mega_bytes :: "int \<Rightarrow> f64" where
  "mega_bytes n = f_div (f64_of_int n) (Fin 1048576)"

definition camera_report :: "duration \<Rightarrow> int \<Rightarrow> time \<times> time \<Rightarrow> camera_stream \<Rightarrow> camera_report" where
  "camera_report uptime targetFPS ts s =
     (let (frameCount, framesReceived, framesDropped, lastFrame, lastFrameReceived) = detailed_stats s;
          avgFPSPublish = (case per_second uptime frameCount of Some r \<Rightarrow> r | None \<Rightarrow> Fin 0);
          avgFPSCamera = (case per_second uptime framesReceived of Some r \<Rightarrow> r | None \<Rightarrow> Fin 0);
          age = since (fst ts) lastFrameReceived
      in \<lparr>cr_ID = sm_ID s, cr_recent = (age \<le> 5 * second), cr_received = framesReceived,
          cr_fpsCamera = avgFPSCamera, cr_published = frameCount, cr_fpsPublished = avgFPSPublish,
          cr_dropped = framesDropped,
          cr_dropRate = (if 0 < framesReceived then percent framesDropped framesReceived else Fin 0),
          cr_targetFPS = targetFPS,
          cr_efficiency = (if 0 < targetFPS
            then f_mul (f_div avgFPSPublish (f64_of_int targetFPS)) (Fin 100) else Fin 0),
          cr_volumeMB = mega_bytes (u64 (frameCount * 50000)), cr_lastFrameAge = age,
          cr_breaker = stats2 (snd ts) (sm_circuitBreaker s)\<rparr>)"

record final_report =
  fp_uptime :: duration
  fp_published :: int
  fp_errors :: int
  fp_errorRate :: f64
  fp_confirms :: "confirm_report option"
  fp_throughput :: "f64 option"
  fp_cameras :: "camera_report list"
  fp_totalFrames :: int
  fp_totalVolumeMB :: f64
  fp_totals :: "(f64 \<times> f64 \<times> f64) option"

definition print_final_report :: "duration \<Rightarrow> ((time \<times> time) \<times> camera_stream) list \<Rightarrow> ('c, 'h) publisher2
    \<Rightarrow> int \<Rightarrow> final_report" where
  "print_final_report uptime cams p targetFPS =
     (let (pubCount, pubErrors) = publisher_stats2 p; (acks, nacks) = confirm_stats2 p;
          totalFrames = u64 (sum_list (map (\<lambda>(ts, s). sm_frameCount s) cams));
          totalBytes = u64 (sum_list (map (\<lambda>(ts, s). u64 (sm_frameCount s * 50000)) cams))
      in \<lparr>fp_uptime = uptime, fp_published = pubCount, fp_errors = pubErrors,
          fp_errorRate = error_rate pubCount pubErrors, fp_confirms = confirm_report acks nacks pubCount,
          fp_throughput = per_second uptime pubCount,
          fp_cameras = map (\<lambda>(ts, s). camera_report uptime targetFPS ts s) cams,
          fp_totalFrames = totalFrames, fp_totalVolumeMB = mega_bytes totalBytes,
          fp_totals = (case per_second uptime totalFrames of None \<Rightarrow> None
            | Some fps \<Rightarrow> Some (fps,
                f_div (f_div (f64_of_int totalBytes) (seconds uptime)) (Fin 1048576),
                success_rate pubCount pubErrors))\<rparr>)"

subsection \<open>The publishers side by side\<close>

text \<open>
  The publishers of all cameras share the broker: a step of the program is an action of one of them
  in the state of the broker the others have left.  A panic ends the process.
\<close>

inductive cams_action :: "('c, 'h, 'w) amqp2_api \<Rightarrow> bool \<Rightarrow> ('c, 'h, 'w) pub_sys list \<times> 'w
    \<Rightarrow> ('c, 'h, 'w) pub_sys list \<times> 'w \<Rightarrow> bool" for api notify where
  turn: "i < length ss \<Longrightarrow> \<forall>s \<in> set ss. ps_slot s \<noteq> PubPanic \<Longrightarrow>
    pub_action api notify ((ss ! i)\<lparr>ps_world := w\<rparr>) s' \<Longrightarrow>
    cams_action api notify (ss, w) (ss[i := s'], ps_world s')"

definition cams_start :: "(('c, 'h) publisher2 \<times> camera_stream) list \<Rightarrow> 'w \<Rightarrow> ('c, 'h, 'w) pub_sys list \<times> 'w" where
  "cams_start cs w = (map (\<lambda>(p, s). pub_start p w) cs, w)"

lemma counted_world [simp]: "counted x k (s\<lparr>ps_world := w\<rparr>) = counted x k s"
  by (simp add: counted_def)

text \<open>What an action writes it has given to the library.\<close>

lemma written_sent:
  assumes "amqp2_log_laws api wire" and "pub_action api notify s s'"
  shows "\<exists>L. wire (ps_world s') = wire (ps_world s) @ L \<and> set L \<subseteq> fst ` set (ps_sent s')
    \<and> set (ps_sent s) \<subseteq> set (ps_sent s')"
  using assms(2)
proof cases
  case (send h m r w)
  then have "wire w \<in> {wire (ps_world s), wire (ps_world s) @ [m]}"
    using assms(1) unfolding amqp2_log_laws_def by (metis snd_conv)
  then show ?thesis using send by auto
next
  case (retry m d T e p w)
  then show ?thesis using log_reconnect [OF assms(1) retry(4)] by simp
next
  case (connected m d T p w)
  then show ?thesis using log_reconnect [OF assms(1) connected(4)] by simp
next
  case (close e p w)
  then show ?thesis using close2_eq [OF close(2)] log_close_old [OF assms(1)] by simp
qed simp_all

text \<open>The targets of the publishers, and the messages written since the start.\<close>

definition cams_inv :: "('w \<Rightarrow> message2 list) \<Rightarrow> message2 list \<Rightarrow> (string \<times> string) list
    \<Rightarrow> ('c, 'h, 'w) pub_sys list \<times> 'w \<Rightarrow> bool" where
  "cams_inv wire base targets st \<longleftrightarrow> (case st of (ss, w) \<Rightarrow>
     list_all2 (\<lambda>(x, k) s. counted x k s) targets ss
   \<and> (\<exists>L. wire w = base @ L \<and> set L \<subseteq> (\<Union>s \<in> set ss. fst ` set (ps_sent s))))"

lemma cams_inv_step:
  assumes "amqp2_log_laws api wire" and "cams_action api notify st st'" and "cams_inv wire base targets st"
  shows "cams_inv wire base targets st'"
  using assms(2)
proof cases
  case (turn i ss w s')
  let ?s = "(ss ! i)\<lparr>ps_world := w\<rparr>"
  obtain L where c: "list_all2 (\<lambda>(x, k) s. counted x k s) targets ss" and L: "wire w = base @ L"
    "set L \<subseteq> (\<Union>s \<in> set ss. fst ` set (ps_sent s))" using assms(3) turn(1) by (auto simp: cams_inv_def)
  obtain x k where t: "targets ! i = (x, k)" by (rule prod.exhaust)
  have "counted x k ?s" using list_all2_nthD2 [OF c turn(3)] t by simp
  then have "counted x k s'" by (rule counted_step [OF turn(5)])
  then have c': "list_all2 (\<lambda>(x, k) s. counted x k s) targets (ss[i := s'])"
    using list_all2_update_cong [OF c, where i = i and x = "targets ! i" and y = s'] t
    by (metis (mono_tags, lifting) list_update_id case_prod_conv)
  obtain L' where L': "wire (ps_world s') = wire w @ L'" "set L' \<subseteq> fst ` set (ps_sent s')"
    "set (ps_sent (ss ! i)) \<subseteq> set (ps_sent s')" using written_sent [OF assms(1) turn(5)] by auto
  have sub: "fst ` set (ps_sent s) \<subseteq> (\<Union>s \<in> set (ss[i := s']). fst ` set (ps_sent s))" if "s \<in> set ss" for s
  proof -
    obtain j where j: "j < length ss" "s = ss ! j" using \<open>s \<in> set ss\<close> by (metis in_set_conv_nth)
    have "set (ps_sent s) \<subseteq> set (ps_sent (ss[i := s'] ! j))" using j L'(3) by (cases "j = i") simp_all
    moreover have "ss[i := s'] ! j \<in> set (ss[i := s'])" using j(1) by (intro nth_mem) simp
    ultimately show ?thesis by blast
  qed
  have "s' \<in> set (ss[i := s'])" using turn(3) by (rule set_update_memI)
  then have "fst ` set (ps_sent s') \<subseteq> (\<Union>s \<in> set (ss[i := s']). fst ` set (ps_sent s))" by blast
  moreover have "(\<Union>s \<in> set ss. fst ` set (ps_sent s)) \<subseteq> (\<Union>s \<in> set (ss[i := s']). fst ` set (ps_sent s))"
    using sub by (rule UN_least)
  ultimately have "set (L @ L') \<subseteq> (\<Union>s \<in> set (ss[i := s']). fst ` set (ps_sent s))"
    using L(2) L'(2) unfolding set_append by (meson Un_least subset_trans)
  then show ?thesis unfolding turn(2) cams_inv_def using c' L(1) L'(1) by auto
qed

lemma start_cameras_targets:
  "start_cameras api cfg cams w = (Inr cs, sleeps, w') \<Longrightarrow>
    list_all2 (\<lambda>(x, k) s. counted x k s) (map (\<lambda>(cam, _). (camera_exchange cfg cam, camera_routing_key cfg cam)) cams)
      (map (\<lambda>(p, s). pub_start p u) cs)"
proof (induction cams arbitrary: w cs sleeps)
  case (Cons c cams)
  obtain cam now where c: "c = (cam, now)" by (rule prod.exhaust)
  obtain p sm sl w1 cs' sl' where p: "start_camera2 api cfg cam now w = (Inr (p, sm), sl, w1)"
    "start_cameras api cfg cams w1 = (Inr cs', sl', w')" "cs = (p, sm) # cs'"
    using Cons.prems unfolding c by (auto split: prod.splits sum.splits)
  then obtain sl2 where "new_publisher2 api (aq_URL (c2_AMQP cfg)) (camera_exchange cfg cam)
      (camera_routing_key cfg cam) (aq_PrefetchCount (c2_AMQP cfg)) w = (Inr p, sl2, w1)"
    by (auto simp: start_camera2_def split: prod.splits sum.splits)
  from new_publisher2_state [OF this] show ?case
    using Cons.IH [OF p(2)] by (simp add: c p(3) counted_def)
qed simp

text \<open>C34: A message on the broker names its camera: when the cameras' routing keys are distinct, every
  message written since the start, whatever the publishers have done in between, was sent by exactly
  one camera's publisher, and carries that camera's exchange and routing key.\<close>

theorem messages_identify_camera:
  assumes "amqp2_log_laws api wire" and "start_cameras api cfg cams w0 = (Inr cs, sleeps, w)"
    and "distinct (map (\<lambda>(cam, _). camera_routing_key cfg cam) cams)"
    and "(cams_action api notify)\<^sup>*\<^sup>* (cams_start cs w) (ss, w')"
  shows "\<exists>L. wire w' = wire w @ L \<and> (\<forall>m \<in> set L. \<exists>!i. i < length cams \<and> m \<in> fst ` set (ps_sent (ss ! i))
    \<and> m2_exchange m = camera_exchange cfg (fst (cams ! i))
    \<and> m2_routingKey m = camera_routing_key cfg (fst (cams ! i)))"
proof -
  let ?targets = "map (\<lambda>(cam, _). (camera_exchange cfg cam, camera_routing_key cfg cam)) cams"
  have "cams_inv wire (wire w) ?targets (cams_start cs w)"
    using start_cameras_targets [OF assms(2), of w] by (simp add: cams_inv_def cams_start_def)
  with assms(4) have "cams_inv wire (wire w) ?targets (ss, w')"
    by (induction) (blast intro: cams_inv_step [OF assms(1)])+
  then obtain L where c: "list_all2 (\<lambda>(x, k) s. counted x k s) ?targets ss" and L: "wire w' = wire w @ L"
    "set L \<subseteq> (\<Union>s \<in> set ss. fst ` set (ps_sent s))" by (auto simp: cams_inv_def)
  have len: "length ss = length cams" using list_all2_lengthD [OF c] by simp
  have target: "m2_exchange m = camera_exchange cfg (fst (cams ! i)) \<and> m2_routingKey m = camera_routing_key cfg (fst (cams ! i))"
    if "i < length cams" "m \<in> fst ` set (ps_sent (ss ! i))" for i m
    using list_all2_nthD [OF c, of i] that by (auto simp: counted_def frame_message2_def split: prod.splits)
  have "\<exists>!i. i < length cams \<and> m \<in> fst ` set (ps_sent (ss ! i))
    \<and> m2_exchange m = camera_exchange cfg (fst (cams ! i))
    \<and> m2_routingKey m = camera_routing_key cfg (fst (cams ! i))" if m: "m \<in> set L" for m
  proof -
    obtain i where i: "i < length cams" "m \<in> fst ` set (ps_sent (ss ! i))"
    proof -
      obtain s where s: "s \<in> set ss" "m \<in> fst ` set (ps_sent s)" using L(2) m by blast
      then obtain i where "i < length ss" "s = ss ! i" by (metis in_set_conv_nth)
      then show thesis using s(2) len that by simp
    qed
    have "j = i" if "j < length cams" "camera_routing_key cfg (fst (cams ! j)) = camera_routing_key cfg (fst (cams ! i))" for j
      using assms(3) i(1) that by (auto simp: distinct_conv_nth split_beta)
    then show ?thesis using i target [OF i] by (intro ex1I [of _ i]) auto
  qed
  then show ?thesis using L(1) by blast
qed

text \<open>Cameras without a routing key of their own get distinct ones from distinct identifiers.\<close>

lemma default_keys_distinct:
  assumes "distinct (map (\<lambda>(cam, _). cm_ID cam) cams)" and "\<forall>(cam, t) \<in> set cams. cm_RoutingKey cam = []"
  shows "distinct (map (\<lambda>(cam, _). camera_routing_key cfg cam) cams)"
proof -
  have "map (\<lambda>(cam, _). camera_routing_key cfg cam) cams =
      map ((@) (aq_RoutingKeyPrefix (c2_AMQP cfg))) (map (\<lambda>(cam, _). cm_ID cam) cams)"
    using assms(2) by (auto simp: camera_routing_key_def)
  moreover have "inj_on ((@) pre) A" for pre :: string and A by (simp add: inj_on_def)
  ultimately show ?thesis using assms(1) by (simp only: distinct_map [of "(@) _"])
qed

subsection \<open>The success rate\<close>

lemma reach_counted:
  assumes "new_publisher2 api url x k n w = (Inr p, sleeps, w')" and "pub_reach api notify (pub_start p w') s"
  shows "counted x k s"
proof -
  have "counted x k (pub_start p w')" using new_publisher2_state [OF assms(1)] by (simp add: counted_def)
  then show ?thesis by (rule pub_reach_inv [OF assms(2)]) (rule counted_step)
qed

text \<open>C35: What the success rate of the final report is worth: when calls of Publish have succeeded, it is between 0 and 100 exactly when those that failed are no more than those that
  succeeded: the counter of published frames does not contain the failed ones, so that their
  difference wraps around when they are more.  When none has succeeded, it is 100%, however many
  have failed.\<close>

theorem success_rate_in_range:
  assumes "new_publisher2 api url x k n w = (Inr p, sleeps, w')" and "pub_reach api notify (pub_start p w') s"
    and "ok = int (oks (ps_returned s))" and "failed = int (length (ps_returned s)) - ok"
    and "ok + failed \<le> 2 ^ 62"
    and "fp_totals (print_final_report uptime cams (ps_pub s) targetFPS) = Some (fps, volume, rate)"
  shows "if ok = 0 then rate = Fin 100 else f_le (Fin 0) rate \<and> f_le rate (Fin 100) \<longleftrightarrow> failed \<le> ok"
proof -
  have len: "oks (ps_returned s) \<le> length (ps_returned s)" by (simp add: oks_def)
  then have f: "0 \<le> ok" "0 \<le> failed" using assms(3,4) by simp_all
  have "p2_publishCount (ps_pub s) = ok" "p2_publishErrors (ps_pub s) = failed"
    using reach_counted [OF assms(1,2)] assms(3-5) f by (simp_all add: counted_def)
  then have rate: "rate = success_rate ok failed"
    using assms(6) by (auto simp: print_final_report_def publisher_stats2_def Let_def
        split: prod.splits option.splits)
  consider "ok = 0" | "0 < ok" "failed \<le> ok" | "0 < ok" "ok < failed" using f(1) by linarith
  then show ?thesis
  proof cases
    case 1
    then show ?thesis using rate by (simp add: success_rate_def)
  next
    case 2
    then show ?thesis
      using percent_at_most_100 [of "ok - failed" ok] rate f assms(5) by (simp add: success_rate_def)
  next
    case 3
    have "u64 (ok - failed) = u64 (ok - failed + 2 ^ 64)" by (simp add: u64_def)
    also have "\<dots> = ok - failed + 2 ^ 64" using 3 assms(5) f by (intro u64_id) simp_all
    finally have "f_lt (Fin 100) rate"
      using percent_above_100 [of "u64 (ok - failed)" ok] rate 3 assms(5) f by (simp add: success_rate_def)
    then show ?thesis using 3 by (cases rate) auto
  qed
qed

subsection \<open>Two cameras and a broker in memory\<close>

definition demo_two_cams :: "(cam_config2 \<times> time) list" where
  "demo_two_cams = [(\<lparr>cm_ID = ''cam1'', cm_URL = ''rtsp://camera/1'', cm_Exchange = '''', cm_RoutingKey = ''''\<rparr>, 0),
     (\<lparr>cm_ID = ''cam2'', cm_URL = ''rtsp://camera/2'', cm_Exchange = '''', cm_RoutingKey = ''''\<rparr>, 0)]"

definition demo_two_publishers :: "(nat, unit) publisher2 list" where
  "demo_two_publishers = [demo_publisher2\<lparr>p2_exchange := '''', p2_routingKey := ''cam1'', p2_prefetchCount := 0\<rparr>,
     demo_publisher2\<lparr>p2_exchange := '''', p2_routingKey := ''cam2'', p2_prefetchCount := 0, p2_conn := Some 1\<rparr>]"

lemma demo_two_start:
  "\<exists>cs. start_cameras memory_broker2 demo_config_v2 demo_two_cams (0, {}, 0, []) = (Inr cs, [], (2, {1, 0}, 0, []))
    \<and> map fst cs = demo_two_publishers"
  by (simp add: demo_two_cams_def start_camera2_def new_publisher2_def connect_with_retry_def eval_nat_numeral
      connect2_def memory_broker2_def demo_config_v2_def camera_exchange_def camera_routing_key_def
      demo_two_publishers_def demo_publisher2_def)

lemma cams_go:
  assumes "i < length ss" and "\<forall>s \<in> set ss. ps_slot s \<noteq> PubPanic" and "(ss ! i)\<lparr>ps_world := w\<rparr> = s"
    and "pub_action api notify s s'" and "ps_world s' = w'" and "ss[i := s'] = ss'"
  shows "cams_action api notify (ss, w) (ss', w')"
  using turn [OF assms(1,2), of api notify w s'] assms(3-6) by simp

lemma demo_two_sent:
  assumes "map fst cs = demo_two_publishers"
  shows "\<exists>ss m. (cams_action memory_broker2 True)\<^sup>*\<^sup>* (cams_start cs (2, {1, 0}, 0, [])) (ss, (2, {1, 0}, 0, [m]))"
proof -
  obtain p0 p1 where p: "demo_two_publishers = [p0, p1]" "p2_connected p1" "p2_channel p1 = Some ()"
    by (simp add: demo_two_publishers_def demo_publisher2_def)
  let ?w = "(2, {1, 0}, 0, []) :: nat \<times> nat set \<times> nat \<times> message2 list"
  obtain m where m: "publish_begin ''cam2'' [1] 7 p1 = (Inr (Some (), m), p1)"
    using p(2,3) by (simp add: publish_begin_def)
  define s0 s1 where s: "s0 = pub_start p0 ?w" "s1 = pub_start p1 ?w"
  define t where t: "t = s1\<lparr>ps_slot := PubSending () m\<rparr>"
  define u where u: "u = t\<lparr>ps_world := (2, {1, 0}, 0, [m]), ps_slot := PubSent None, ps_sent := [(m, True)]\<rparr>"
  have start: "cams_start cs ?w = ([s0, s1], ?w)"
  proof -
    have "cams_start cs ?w = (map (\<lambda>p. pub_start p ?w) (map fst cs), ?w)"
      by (simp add: cams_start_def split_beta)
    then show ?thesis unfolding assms p(1) s by simp
  qed
  have "pub_action memory_broker2 True s1 t"
    using begun [of s1 "''cam2''" "[1]" 7 "()" m p1 memory_broker2 True] m by (simp add: t s pub_start_def)
  then have 1: "cams_action memory_broker2 True ([s0, s1], ?w) ([s0, t], ?w)"
    by (rule cams_go [of 1, rotated 3]) (simp_all add: s t pub_start_def)
  have "pub_action memory_broker2 True t u"
    using send [of t "()" m memory_broker2 None "(2, {1, 0}, 0, [m])" True]
    by (simp add: memory_broker2_def s t u pub_start_def)
  then have "cams_action memory_broker2 True ([s0, t], ?w) ([s0, u], (2, {1, 0}, 0, [m]))"
    by (rule cams_go [of 1, rotated 3]) (simp_all add: s t u pub_start_def)
  with 1 show ?thesis unfolding start by (blast intro: rtranclp.intros)
qed

theorem messages_identify_camera_witness:
  "\<exists>w m i. broker2_log w = [m] \<and> i < length demo_two_cams
    \<and> m2_routingKey m = camera_routing_key demo_config_v2 (fst (demo_two_cams ! i))"
proof -
  obtain cs where cs: "start_cameras memory_broker2 demo_config_v2 demo_two_cams (0, {}, 0, []) = (Inr cs, [], (2, {1, 0}, 0, []))"
    "map fst cs = demo_two_publishers" using demo_two_start by blast
  obtain ss m where r: "(cams_action memory_broker2 True)\<^sup>*\<^sup>* (cams_start cs (2, {1, 0}, 0, [])) (ss, (2, {1, 0}, 0, [m]))"
    using demo_two_sent [OF cs(2)] by blast
  have "distinct (map (\<lambda>(cam, _). camera_routing_key demo_config_v2 cam) demo_two_cams)"
    by (simp add: demo_two_cams_def camera_routing_key_def)
  from messages_identify_camera [OF memory_broker2_laws(2) cs(1) this r]
  have "\<exists>!i. i < length demo_two_cams \<and> m \<in> fst ` set (ps_sent (ss ! i))
    \<and> m2_exchange m = camera_exchange demo_config_v2 (fst (demo_two_cams ! i))
    \<and> m2_routingKey m = camera_routing_key demo_config_v2 (fst (demo_two_cams ! i))"
    by (simp add: broker2_log_def)
  moreover have "broker2_log (2, {1, 0}, 0, [m]) = [m]" by (simp add: broker2_log_def)
  ultimately show ?thesis by blast
qed

theorem success_rate_in_range_witness:
  "\<exists>s :: (nat, unit, nat \<times> nat set \<times> nat \<times> message2 list) pub_sys. \<exists>fps volume rate.
     fp_totals (print_final_report second [] (ps_pub s) 15) = Some (fps, volume, rate) \<and> f_le rate (Fin 100)"
proof -
  let ?w = "(1, {0}, 0, []) :: nat \<times> nat set \<times> nat \<times> message2 list"
  obtain m where m: "publish_begin ''cam1'' [1] 7 demo_publisher2 = (Inr (Some (), m), demo_publisher2)"
    using demo_publish2 by blast
  let ?s = "\<lparr>ps_pub = demo_publisher2, ps_world = (1, {0}, 0, [m]) :: nat \<times> nat set \<times> nat \<times> message2 list,
     ps_slot = PubSent None, ps_threads = {#MonWaiting#},
     ps_sent = [(m, True)], ps_returned = []\<rparr>"
  let ?t = "?s\<lparr>ps_pub := demo_publisher2\<lparr>p2_publishCount := 1\<rparr>, ps_slot := PubIdle, ps_returned := [None]\<rparr>"
  have r: "pub_reach memory_broker2 True (pub_start demo_publisher2 ?w) ?t"
    by (rule pub_go [OF demo_sent2 [OF m] _ finish [of _ None None False "demo_publisher2\<lparr>p2_publishCount := 1\<rparr>"]])
      (simp_all add: publish_end_def demo_publisher2_def)
  have s: "seconds second = Fin 1"
    by (simp add: seconds_def f64_of_int_finite signed_divide_int_def signed_modulo_int_def to_f64_finite)
  obtain fps volume rate where t: "fp_totals (print_final_report second [] (ps_pub ?t) 15) = Some (fps, volume, rate)"
    by (simp add: print_final_report_def per_second_def s publisher_stats2_def confirm_stats2_def Let_def)
  have "f_le rate (Fin 100)"
    using success_rate_in_range [OF demo_publisher2_new r, of 1 0, OF _ _ _ t] by (simp add: oks_def)
  then show ?thesis using t by blast
qed

end
