(* ===== verification/ConfigV1.thy ===== *)
theory ConfigV1
  imports MemControl
begin

section \<open>Configuration and sizing of the main program\<close>

text \<open>
  \<open>pkg/config/config.go\<close> and what \<open>cmd/edge-video/main.go\<close> derives from the configuration before it
  starts anything: the interval between frames, the sizes of the worker pool and the buffers, and
  the memory controller.  Reading the file is outside; the number of processors is an argument.
\<close>

record camera_config =
  cc_ID :: string
  cc_Name :: string
  cc_URL :: string

record amqp_config =
  ac_AmqpURL :: string
  ac_Exchange :: string
  ac_RoutingKeyPrefix :: string

record mqtt_config =
  mt_Broker :: string
  mt_TopicPrefix :: string

record compression_config =
  co_Enabled :: bool
  co_Level :: int

record optimization =
  op_MaxWorkers :: int
  op_BufferSize :: int
  op_WorkerQueueSize :: int
  op_CameraBufferSize :: int
  op_PersistentBufSize :: int
  op_FrameQuality :: int
  op_FrameResolution :: string
  op_UsePersistent :: bool
  op_CircuitMaxFailures :: int
  op_CircuitResetSec :: int

record redis_config =
  rd_Enabled :: bool
  rd_Address :: string
  rd_Username :: string
  rd_Password :: string
  rd_TTLSeconds :: int
  rd_Prefix :: string

record metadata_config =
  md_Enabled :: bool
  md_Exchange :: string
  md_RoutingKey :: string

record registration_config =
  rn_Enabled :: bool
  rn_APIURL :: string

record memory_config =
  me_Enabled :: bool
  me_MaxMemoryMB :: int
  me_WarningPercent :: f64
  me_CriticalPercent :: f64
  me_EmergencyPercent :: f64
  me_CheckInterval :: int
  me_GCTriggerPercent :: f64

record config =
  cg_TargetFPS :: f64
  cg_Protocol :: string
  cg_UseOptimizedCapture :: bool
  cg_AMQP :: amqp_config
  cg_MQTT :: mqtt_config
  cg_Redis :: redis_config
  cg_Metadata :: metadata_config
  cg_Registration :: registration_config
  cg_Compression :: compression_config
  cg_Optimization :: optimization
  cg_Memory :: memory_config
  cg_Cameras :: "camera_config list"

text \<open>What viper answers: the error of reading the file, and the error or the result of decoding it.\<close>

definition load_config :: "goerr option \<Rightarrow> goerr + config \<Rightarrow> goerr + config" where
  "load_config readErr decoded = (case readErr of Some e \<Rightarrow> Inl e | None \<Rightarrow>
     (case decoded of Inl e \<Rightarrow> Inl e | Inr cfg \<Rightarrow> Inr cfg))"

definition get_frame_interval :: "f64 \<Rightarrow> duration" where
  "get_frame_interval targetFPS =
     (if f_le targetFPS (Fin 0) then second div 2
      else f_to_i64 (f_div (f64_of_int second) targetFPS))"

text \<open>Workers, worker queue, camera buffer and persistent buffer.\<close>

definition pool_sizes :: "int \<Rightarrow> optimization \<Rightarrow> int \<times> int \<times> int \<times> int" where
  "pool_sizes numCPU opt =
     (let maxWorkers = (if op_MaxWorkers opt \<le> 0 then numCPU * 2 else op_MaxWorkers opt);
          workerQueueSize = (if op_WorkerQueueSize opt \<le> 0
            then (if op_BufferSize opt \<le> 0 then 200 else op_BufferSize opt) else op_WorkerQueueSize opt);
          cameraBufferSize = (if op_CameraBufferSize opt \<le> 0
            then (if op_BufferSize opt \<le> 0 then 200 else op_BufferSize opt) else op_CameraBufferSize opt);
          persistentBufferSize = (if op_PersistentBufSize opt \<le> 0
            then (if cameraBufferSize div 2 \<le> 0 then 25 else cameraBufferSize div 2)
            else op_PersistentBufSize opt)
      in (maxWorkers, workerQueueSize, cameraBufferSize, persistentBufferSize))"

definition setup_memory :: "memory_config \<Rightarrow> runtime_mem \<Rightarrow> time \<Rightarrow> time \<Rightarrow> controller option" where
  "setup_memory cfg rt now now' =
     (if \<not> me_Enabled cfg then None
      else let mc = new_controller (me_MaxMemoryMB cfg) rt now now' in
        Some (if f_lt (Fin 0) (me_WarningPercent cfg)
              then (let th = (mc_config mc)\<lparr>th_WarningPercent := me_WarningPercent cfg,
                          th_CriticalPercent := me_CriticalPercent cfg,
                          th_EmergencyPercent := me_EmergencyPercent cfg,
                          th_GCTriggerPercent := me_GCTriggerPercent cfg\<rparr>;
                        th' = (if 0 < me_CheckInterval cfg
                               then th\<lparr>th_CheckInterval := i64 (me_CheckInterval cfg * second)\<rparr> else th)
                    in update_config th' mc)
              else mc))"

subsection \<open>The interval between frames\<close>

lemma interval_eq:
  assumes "1 / 2 ^ 30 \<le> q" and "q \<le> 1000000000"
  shows "get_frame_interval (Fin q) = \<lfloor>rnd (1000000000 / q)\<rfloor>" and "1 \<le> rnd (1000000000 / q)"
    and "rnd (1000000000 / q) \<le> 2 ^ 60"
proof -
  have q: "0 < q" using assms(1) by (rule less_le_trans [rotated]) simp
  have r9: "rnd 1000000000 = 1000000000" using rnd_of_int [of 1000000000] by simp
  have one: "1 \<le> 1000000000 / q" using q assms(2) by simp
  then show 1: "1 \<le> rnd (1000000000 / q)" by (rule ieee.r_ge_1)
  have "1000000000 / q \<le> 1000000000 / (1 / 2 ^ 30)"
    using assms(1) q by (intro divide_left_mono) simp_all
  also have "\<dots> \<le> 2 ^ 60" by simp
  finally have up: "1000000000 / q \<le> 2 ^ 60" .
  then show 2: "rnd (1000000000 / q) \<le> 2 ^ 60" by (rule ieee.r_le_power)
  have "to_f64 (1000000000 / q) = Fin (rnd (1000000000 / q))"
    using q by (intro to_f64_finite le_power_1023 [OF _ up]) simp_all
  then have d: "f_div (f64_of_int second) (Fin q) = Fin (rnd (1000000000 / q))"
    using q r9 f64_of_int_finite [of second] by simp
  have "trunc (rnd (1000000000 / q)) = \<lfloor>rnd (1000000000 / q)\<rfloor>" using 1 by (simp add: trunc_def)
  moreover have "1 \<le> \<lfloor>rnd (1000000000 / q)\<rfloor>" using 1 by (simp add: le_floor_iff)
  moreover have "\<lfloor>rnd (1000000000 / q)\<rfloor> \<le> 2 ^ 60"
    using 2 by (metis floor_mono floor_of_int of_int_numeral of_int_power)
  ultimately have "f_to_i64 (Fin (rnd (1000000000 / q))) = \<lfloor>rnd (1000000000 / q)\<rfloor>"
    by (simp add: f_to_i64_def)
  then show "get_frame_interval (Fin q) = \<lfloor>rnd (1000000000 / q)\<rfloor>"
    using q d by (simp add: get_frame_interval_def)
qed

text \<open>For every target rate between one frame in 34 years and one per nanosecond the interval
  between frames is a positive duration, so neither the ticker nor the division of the persistent
  capture can panic, and a higher rate never gives a longer interval; without a positive rate the
  interval is half a second.\<close>

theorem frame_interval_positive_antitone:
  assumes "1 / 2 ^ 30 \<le> q" and "q \<le> q'" and "q' \<le> 1000000000"
  shows "0 < get_frame_interval (Fin q') \<and> get_frame_interval (Fin q') \<le> get_frame_interval (Fin q)
    \<and> get_frame_interval (Fin (- q)) = second div 2"
proof -
  have q: "0 < q" using assms(1) by (rule less_le_trans [rotated]) simp
  have le: "1000000000 / q' \<le> 1000000000 / q" using assms(2) q by (intro divide_left_mono) simp_all
  have b: "1 / 2 ^ 30 \<le> q'" "q \<le> 1000000000" using assms by simp_all
  have "\<lfloor>rnd (1000000000 / q')\<rfloor> \<le> \<lfloor>rnd (1000000000 / q)\<rfloor>" by (intro floor_mono rnd_mono le)
  moreover have "1 \<le> \<lfloor>rnd (1000000000 / q')\<rfloor>" using interval_eq(2) [OF b(1) assms(3)] by (simp add: le_floor_iff)
  ultimately show ?thesis
    using interval_eq(1) [OF b(1) assms(3)] interval_eq(1) [OF assms(1) b(2)] q
    by (simp add: get_frame_interval_def)
qed

theorem frame_interval_positive_antitone_witness:
  "0 < get_frame_interval (Fin 30) \<and> get_frame_interval (Fin 30) \<le> get_frame_interval (Fin 2)"
  using frame_interval_positive_antitone [of 2 30] by simp

text \<open>Beyond those rates the interval is no duration: zero, or the least \<open>int64\<close>.\<close>

lemma interval_of_extreme_rates:
  "get_frame_interval PInf = 0" "get_frame_interval NaN = min_i64"
proof -
  have "f64_of_int second = Fin (rnd 1000000000)" using f64_of_int_finite [of second] by simp
  then show "get_frame_interval PInf = 0" "get_frame_interval NaN = min_i64"
    by (simp_all add: get_frame_interval_def f_to_i64_def trunc_def)
qed

subsection \<open>Sizes and thresholds\<close>

lemma pool_sizes_positive:
  assumes "0 < numCPU" and "pool_sizes numCPU opt = (w, q, c, p)"
  shows "0 < w \<and> 0 < q \<and> 0 < c \<and> 0 < p"
  using assms by (auto simp: pool_sizes_def Let_def split: if_splits)

text \<open>
  A configuration that sets only the warning threshold leaves the others at zero, and zero is a
  threshold that every usage reaches: the controller is at the emergency level from its first
  round, and captures are paused.
\<close>

lemma warning_only_is_emergency:
  assumes "setup_memory cfg rt now now' = Some mc" and "f_lt (Fin 0) (me_WarningPercent cfg)"
    and "me_EmergencyPercent cfg = Fin 0"
    and "0 \<le> rt_Alloc rt'" and "rt_Alloc rt' < 2 ^ 64"
    and "0 < th_MaxMemoryMB (mc_config mc)" and "th_MaxMemoryMB (mc_config mc) < 2 ^ 64"
  shows "should_pause (snd (monitor_tick rt' t0 t1 t2 t3 mc))"
proof -
  have e: "th_EmergencyPercent (mc_config mc) = Fin 0" "\<not> mc_cancelled mc"
    using assms(1-3) by (auto simp: setup_memory_def update_config_def new_controller_def Let_def split: if_splits)
  define rt0 where "rt0 = rt'\<lparr>rt_Alloc := 0\<rparr>"
  have "f_le (usage_percent (mc_config mc) rt0) (usage_percent (mc_config mc) rt')"
    using assms(4-7) by (intro usage_mono) (simp_all add: rt0_def)
  moreover have "usage_percent (mc_config mc) rt0 = Fin 0"
    using assms(6,7) by (simp add: usage_percent_def rt0_def percent_finite rnd_of_int [of 0, simplified])
  ultimately show ?thesis
    by (simp add: should_pause_def tick_level [OF e(2)] mc_levels.at_least(1) [simplified] e(1) determine_level_def)
qed

text \<open>
  The automatic limit (\<open>max_memory_mb = 0\<close>) takes three quarters of what the Go runtime of the
  starting process has obtained, not of the machine's memory; a process that starts with less
  than 682 MB, as this one does, gets the floor of 512 MB on every machine.
\<close>

lemma automatic_limit_is_floor:
  assumes "0 \<le> rt_Sys rt" and "rt_Sys rt < 682 * 1024 * 1024"
  shows "default_max_memory rt = 512"
proof -
  let ?m = "rt_Sys rt div 1024 div 1024"
  have m: "0 \<le> ?m" "?m \<le> 681" using assms by simp_all
  then have r: "rnd (of_int ?m) = of_int ?m" by (intro rnd_of_int) simp
  have "(of_int ?m :: rat) \<le> of_int 681" using m(2) by (rule of_int_le_iff [THEN iffD2])
  then have "of_int ?m * (3 / 4) \<le> (of_int 511 :: rat)" by simp
  then have "rnd (of_int ?m * (3 / 4)) \<le> rnd (of_int 511)" by (rule rnd_mono)
  then have up: "rnd (of_int ?m * (3 / 4)) \<le> 511" using rnd_of_int [of 511] by simp
  have lo: "0 \<le> (of_int ?m :: rat) * (3 / 4)" using m(1) by simp
  then have lo': "0 \<le> rnd (of_int ?m * (3 / 4))" by (rule ieee.r_nonneg)
  have "to_f64 (of_int ?m * (3 / 4)) = Fin (rnd (of_int ?m * (3 / 4)))"
    using lo \<open>of_int ?m * (3 / 4) \<le> (of_int 511 :: rat)\<close>
    by (intro to_f64_finite le_power_1023 [of 9]) simp_all
  then have "f_mul (f64_of_int ?m) (Fin (3 / 4)) = Fin (rnd (of_int ?m * (3 / 4)))"
    using m r by (simp add: f64_of_int_finite)
  moreover have "\<lfloor>rnd (of_int ?m * (3 / 4))\<rfloor> \<le> 511" using up by (simp add: floor_le_iff)
  moreover have "0 \<le> \<lfloor>rnd (of_int ?m * (3 / 4))\<rfloor>" using lo' by simp
  ultimately show ?thesis using lo' by (simp add: default_max_memory_def f_to_i64_def trunc_def Let_def)
qed

text \<open>The configuration the examples of the later theories use.\<close>

definition demo_config :: config where
  "demo_config = \<lparr>cg_TargetFPS = Fin 2, cg_Protocol = ''amqp'', cg_UseOptimizedCapture = True,
     cg_AMQP = \<lparr>ac_AmqpURL = ''amqp://broker/v'', ac_Exchange = ''cameras'', ac_RoutingKeyPrefix = ''camera.''\<rparr>,
     cg_MQTT = \<lparr>mt_Broker = '''', mt_TopicPrefix = ''''\<rparr>,
     cg_Redis = \<lparr>rd_Enabled = False, rd_Address = '''', rd_Username = '''', rd_Password = '''', rd_TTLSeconds = 300,
       rd_Prefix = ''frames''\<rparr>,
     cg_Metadata = \<lparr>md_Enabled = True, md_Exchange = ''camera.metadata'', md_RoutingKey = ''camera.metadata.event''\<rparr>,
     cg_Registration = \<lparr>rn_Enabled = False, rn_APIURL = ''''\<rparr>, cg_Compression = \<lparr>co_Enabled = False, co_Level = 0\<rparr>,
     cg_Optimization = \<lparr>op_MaxWorkers = 20, op_BufferSize = 200, op_WorkerQueueSize = 0, op_CameraBufferSize = 0,
       op_PersistentBufSize = 0, op_FrameQuality = 5, op_FrameResolution = ''1280x720'', op_UsePersistent = True,
       op_CircuitMaxFailures = 5, op_CircuitResetSec = 60\<rparr>,
     cg_Memory = \<lparr>me_Enabled = False, me_MaxMemoryMB = 0, me_WarningPercent = Fin 0, me_CriticalPercent = Fin 0,
       me_EmergencyPercent = Fin 0, me_CheckInterval = 0, me_GCTriggerPercent = Fin 0\<rparr>,
     cg_Cameras = [\<lparr>cc_ID = ''cam1'', cc_Name = ''gate'', cc_URL = ''rtsp://camera/''\<rparr>]\<rparr>"

end
