(* ===== verification/GoUrl.thy ===== *)
theory GoUrl
  imports GoText "HOL-Library.Sublist"
begin

section \<open>The path of a URL\<close>

text \<open>
  What the code uses of \<open>net/url\<close> (Go 1.24): \<open>url.Parse\<close> as far as its error and the field \<open>Path\<close> go.
  The user, the host, the port and the fragment are checked as the library checks them, since a bad
  one makes the whole parse fail, but they are not kept.
\<close>

subsection \<open>Characters\<close>

abbreviation code :: "char \<Rightarrow> nat" where
  "code c \<equiv> of_char c"

definition is_letter :: "char \<Rightarrow> bool" where
  "is_letter c \<longleftrightarrow> 65 \<le> code c \<and> code c \<le> 90 \<or> 97 \<le> code c \<and> code c \<le> 122"

definition is_alnum :: "char \<Rightarrow> bool" where
  "is_alnum c \<longleftrightarrow> is_letter c \<or> is_digit c"

definition is_ctl :: "char \<Rightarrow> bool" where
  "is_ctl c \<longleftrightarrow> code c < 32 \<or> code c = 127"

definition is_hex :: "char \<Rightarrow> bool" where
  "is_hex c \<longleftrightarrow> is_digit c \<or> 97 \<le> code c \<and> code c \<le> 102 \<or> 65 \<le> code c \<and> code c \<le> 70"

definition unhex :: "char \<Rightarrow> nat" where
  "unhex c = (if is_digit c then code c - 48 else if 97 \<le> code c \<and> code c \<le> 102 then code c - 97 + 10
     else if 65 \<le> code c \<and> code c \<le> 70 then code c - 65 + 10 else 0)"

text \<open>\<open>shouldEscape\<close> in the mode of a host.\<close>

definition host_escape :: "char \<Rightarrow> bool" where
  "host_escape c \<longleftrightarrow> \<not> (is_alnum c \<or> c \<in> set ''!$&'' \<or> c = CHR 0x27 \<or> c \<in> set ''()*+,;=:[]<>'' \<or> c = CHR 0x22
     \<or> c \<in> set ''-_.~'')"

subsection \<open>Unescaping\<close>

datatype encoding = EncodePath | EncodeUserPassword | EncodeHost | EncodeZone | EncodeFragment

definition bad_escape :: "encoding \<Rightarrow> char \<Rightarrow> char \<Rightarrow> bool" where
  "bad_escape m h l \<longleftrightarrow>
     (let v = char_of (16 * unhex h + unhex l) in
        m = EncodeHost \<and> unhex h < 8 \<and> \<not> (h = CHR ''2'' \<and> l = CHR ''5'')
      \<or> m = EncodeZone \<and> \<not> (h = CHR ''2'' \<and> l = CHR ''5'') \<and> v \<noteq> CHR '' '' \<and> host_escape v)"

fun unescape :: "encoding \<Rightarrow> string \<Rightarrow> string option" where
  "unescape m [] = Some []"
| "unescape m (c # s) =
     (if c = CHR ''%'' then
        (case s of
           h # l # r \<Rightarrow>
             if is_hex h \<and> is_hex l \<and> \<not> bad_escape m h l
             then map_option ((#) (char_of (16 * unhex h + unhex l))) (unescape m r) else None
         | _ \<Rightarrow> None)
      else if (m = EncodeHost \<or> m = EncodeZone) \<and> code c < 128 \<and> host_escape c then None
      else map_option ((#) c) (unescape m s))"

subsection \<open>Cutting\<close>

text \<open>\<open>strings.Cut\<close> at one character: what is before and after its first occurrence.\<close>

definition cut :: "char \<Rightarrow> string \<Rightarrow> string \<times> string" where
  "cut c s = (takeWhile (\<lambda>x. x \<noteq> c) s, drop 1 (dropWhile (\<lambda>x. x \<noteq> c) s))"

lemma cut_first [simp]: "c \<notin> set a \<Longrightarrow> cut c (a @ c # b) = (a, b)"
  by (induction a) (auto simp: cut_def)

lemma cut_none [simp]: "c \<notin> set a \<Longrightarrow> cut c a = (a, [])"
  by (induction a) (auto simp: cut_def)

text \<open>The scheme and what follows it; \<open>None\<close> when the text begins with a colon.\<close>

fun scheme_of :: "string \<Rightarrow> string \<Rightarrow> string \<Rightarrow> (string \<times> string) option" where
  "scheme_of raw acc [] = Some ([], raw)"
| "scheme_of raw acc (c # s) =
     (if is_letter c then scheme_of raw (acc @ [c]) s
      else if is_digit c \<or> c \<in> set ''+-.'' then
        (if acc = [] then Some ([], raw) else scheme_of raw (acc @ [c]) s)
      else if c = CHR '':'' then (if acc = [] then None else Some (acc, s))
      else Some ([], raw))"

definition valid_optional_port :: "string \<Rightarrow> bool" where
  "valid_optional_port s \<longleftrightarrow> s = [] \<or> hd s = CHR '':'' \<and> list_all is_digit (tl s)"

definition valid_userinfo :: "string \<Rightarrow> bool" where
  "valid_userinfo s \<longleftrightarrow> list_all (\<lambda>c. is_alnum c \<or> c \<in> set ''-._:~!$&'' \<or> c = CHR 0x27 \<or> c \<in> set ''()*+,;=%@'') s"

definition unescapes :: "encoding \<Rightarrow> string \<Rightarrow> bool" where
  "unescapes m s \<longleftrightarrow> unescape m s \<noteq> None"

text \<open>Whether \<open>parseHost\<close> succeeds; \<open>zone_at\<close> is the first position of \<open>%25\<close>.\<close>

fun zone_at :: "string \<Rightarrow> nat option" where
  "zone_at [] = None"
| "zone_at (c # s) = (if prefix ''%25'' (c # s) then Some 0 else map_option Suc (zone_at s))"

definition host_ok :: "string \<Rightarrow> bool" where
  "host_ok host =
     (if prefix ''['' host then
        (let i = last_index_of (CHR '']'') host in
           if i < 0 then False
           else if \<not> valid_optional_port (drop (nat i + 1) host) then False
           else case zone_at (take (nat i) host) of
             Some z \<Rightarrow> unescapes EncodeHost (take z host) \<and> unescapes EncodeZone (take (nat i - z) (drop z host))
                 \<and> unescapes EncodeHost (drop (nat i) host)
           | None \<Rightarrow> unescapes EncodeHost host)
      else (let i = last_index_of (CHR '':'') host in
           if i \<noteq> -1 \<and> \<not> valid_optional_port (drop (nat i) host) then False else unescapes EncodeHost host))"

definition authority_ok :: "string \<Rightarrow> bool" where
  "authority_ok authority =
     (let i = last_index_of (CHR ''@'') authority in
      if i < 0 then host_ok authority
      else host_ok (drop (nat i + 1) authority) \<and>
        (let userinfo = take (nat i) authority in
           valid_userinfo userinfo \<and>
           (if CHR '':'' \<in> set userinfo
            then unescapes EncodeUserPassword (fst (cut (CHR '':'') userinfo))
               \<and> unescapes EncodeUserPassword (snd (cut (CHR '':'') userinfo))
            else unescapes EncodeUserPassword userinfo)))"

text \<open>\<open>parse\<close> without the fragment; the path, or \<open>None\<close> for an error.\<close>

definition strip_query :: "string \<Rightarrow> string" where
  "strip_query rest =
     (if suffix ''?'' rest \<and> length (filter (\<lambda>c. c = CHR ''?'') rest) = 1
      then butlast rest else fst (cut (CHR ''?'') rest))"

definition parse_path :: "string \<Rightarrow> string option" where
  "parse_path raw =
     (if list_ex is_ctl raw then None
      else if raw = ''*'' then Some ''*''
      else case scheme_of raw [] raw of
        None \<Rightarrow> None
      | Some (scheme, rest0) \<Rightarrow>
          let rest = strip_query rest0 in
          if \<not> prefix ''/'' rest \<and> scheme \<noteq> [] then Some []
          else if \<not> prefix ''/'' rest \<and> CHR '':'' \<in> set (fst (cut (CHR ''/'') rest)) then None
          else if (scheme \<noteq> [] \<or> \<not> prefix ''///'' rest) \<and> prefix ''//'' rest then
            (let auth = drop 2 rest; i = index_of (CHR ''/'') auth;
                 authority = (if 0 \<le> i then take (nat i) auth else auth);
                 path = (if 0 \<le> i then drop (nat i) auth else [])
             in if authority_ok authority then unescape EncodePath path else None)
          else unescape EncodePath rest)"

definition url_path :: "string \<Rightarrow> string option" where
  "url_path raw =
     (let (u, frag) = cut (CHR ''#'') raw in case parse_path u of
        None \<Rightarrow> None
      | Some path \<Rightarrow> if frag = [] \<or> unescapes EncodeFragment frag then Some path else None)"

end
