(* ===== verification/Registration.thy ===== *)
theory Registration
  imports ConfigV1 GoText
begin

section \<open>Registration with the API\<close>

text \<open>
  \<open>pkg/registration/client.go\<close>: the service announces its cameras to an HTTP API, at once and then
  every minute until it has succeeded.  What the HTTP client answers is an argument; the payload is
  the data of the request, its JSON text is left to \<open>encoding/json\<close>.
\<close>

record camera_info =
  ci_id :: string
  ci_url :: string

record payload =
  pl_cameras :: "camera_info list"
  pl_namespace :: string
  pl_rabbitmq_url :: string
  pl_routing_key :: string
  pl_exchange :: string
  pl_vhost :: string

record reg_client =
  rg_apiURL :: string
  rg_enabled :: bool

definition new_reg_client :: "string \<Rightarrow> bool \<Rightarrow> reg_client" where
  "new_reg_client apiURL enabled = \<lparr>rg_apiURL = apiURL, rg_enabled = enabled\<rparr>"

datatype http_outcome = NoRequest goerr | NotSent goerr | Status int

definition reg_payload :: "config \<Rightarrow> string \<Rightarrow> payload" where
  "reg_payload cfg vhost = \<lparr>pl_cameras = map (\<lambda>cam. \<lparr>ci_id = cc_ID cam, ci_url = cc_URL cam\<rparr>) (cg_Cameras cfg),
     pl_namespace = vhost, pl_rabbitmq_url = ac_AmqpURL (cg_AMQP cfg), pl_routing_key = ac_RoutingKeyPrefix (cg_AMQP cfg),
     pl_exchange = ac_Exchange (cg_AMQP cfg), pl_vhost = vhost\<rparr>"

text \<open>\<open>Register\<close>: its error, and the payloads it has given to the HTTP client.\<close>

definition register :: "reg_client \<Rightarrow> config \<Rightarrow> string \<Rightarrow> http_outcome \<Rightarrow> goerr option \<times> payload list" where
  "register c cfg vhost out =
     (if \<not> rg_enabled c then (None, [])
      else if rg_apiURL c = [] then (Some (errorf ''registration API URL is empty''), [])
      else let p = reg_payload cfg vhost in case out of
        NoRequest e \<Rightarrow> (Some (wrap_err ''failed to create request: '' e), [])
      | NotSent e \<Rightarrow> (Some (wrap_err ''failed to send registration request: '' e), [p])
      | Status code \<Rightarrow>
          if code < 200 \<or> 300 \<le> code
          then (Some (errorf (''registration failed with status code: '' @ fmt_d code)), [p])
          else (None, [p]))"

text \<open>
  The goroutine of \<open>RegisterWithRetry\<close>, event by event: the end of the context (\<open>None\<close>) or a tick with
  its outcome.  The result is what it sends and whether it still runs.
\<close>

fun reg_retry :: "reg_client \<Rightarrow> config \<Rightarrow> string \<Rightarrow> http_outcome option list \<Rightarrow> payload list \<times> bool" where
  "reg_retry c cfg vhost [] = ([], True)"
| "reg_retry c cfg vhost (None # evs) = ([], False)"
| "reg_retry c cfg vhost (Some out # evs) = (case register c cfg vhost out of
     (None, ps) \<Rightarrow> (ps, False)
   | (Some e, ps) \<Rightarrow> let (qs, r) = reg_retry c cfg vhost evs in (ps @ qs, r))"

definition register_with_retry :: "reg_client \<Rightarrow> config \<Rightarrow> string \<Rightarrow> http_outcome
    \<Rightarrow> http_outcome option list \<Rightarrow> payload list \<times> bool" where
  "register_with_retry c cfg vhost out evs =
     (if \<not> rg_enabled c then ([], False)
      else case register c cfg vhost out of
        (None, ps) \<Rightarrow> (ps, False)
      | (Some e, ps) \<Rightarrow> let (qs, r) = reg_retry c cfg vhost evs in (ps @ qs, r))"

subsection \<open>Until the first success\<close>

fun accepted :: "http_outcome \<Rightarrow> bool" where
  "accepted (Status code) \<longleftrightarrow> 200 \<le> code \<and> code < 300"
| "accepted _ \<longleftrightarrow> False"

fun reaches_api :: "http_outcome \<Rightarrow> bool" where
  "reaches_api (NoRequest e) \<longleftrightarrow> False"
| "reaches_api _ \<longleftrightarrow> True"

text \<open>The attempts that are made: up to the first that is accepted.\<close>

fun attempts :: "http_outcome list \<Rightarrow> http_outcome list" where
  "attempts [] = []"
| "attempts (out # outs) = (if accepted out then [out] else out # attempts outs)"

lemma register_outcome:
  assumes "rg_enabled c" and "rg_apiURL c \<noteq> []"
  shows "snd (register c cfg v out) = (if reaches_api out then [reg_payload cfg v] else [])"
    and "fst (register c cfg v out) = None \<longleftrightarrow> accepted out"
  using assms by (cases out; auto simp: register_def Let_def)+

lemma reg_retry_attempts:
  assumes "rg_enabled c" and "rg_apiURL c \<noteq> []"
  shows "reg_retry c cfg v (map Some outs) =
    (map (\<lambda>_. reg_payload cfg v) (filter reaches_api (attempts outs)), \<not> list_ex accepted outs)"
proof (induction outs)
  case (Cons out outs)
  obtain e ps where r: "register c cfg v out = (e, ps)" by (rule prod.exhaust)
  have "ps = (if reaches_api out then [reg_payload cfg v] else [])" "e = None \<longleftrightarrow> accepted out"
    using register_outcome [OF assms, of cfg v out] r by simp_all
  then show ?case using r Cons.IH by (cases e) (auto simp: case_prod_beta)
qed simp

text \<open>C30: Registration goes on until it has succeeded and no longer: the requests sent are one for every
  attempt up to the first that is answered with a status of the 200s (attempts that cannot even
  make a request send none), each with the same payload naming the virtual host and all cameras,
  and the goroutine is still running exactly when no attempt has succeeded.\<close>

theorem registered_until_accepted:
  assumes "rg_enabled c" and "rg_apiURL c \<noteq> []"
  shows "register_with_retry c cfg v out (map Some outs) =
    (map (\<lambda>_. reg_payload cfg v) (filter reaches_api (attempts (out # outs))), \<not> list_ex accepted (out # outs))"
proof -
  obtain e ps where r: "register c cfg v out = (e, ps)" by (rule prod.exhaust)
  have "ps = (if reaches_api out then [reg_payload cfg v] else [])" "e = None \<longleftrightarrow> accepted out"
    using register_outcome [OF assms, of cfg v out] r by simp_all
  then show ?thesis using r assms(1) reg_retry_attempts [OF assms, of cfg v outs]
    by (cases e) (auto simp: register_with_retry_def)
qed

theorem registered_until_accepted_witness:
  "length (fst (register_with_retry \<lparr>rg_apiURL = ''http://api/'', rg_enabled = True\<rparr> demo_config ''v''
     (NotSent (errorf ''refused'')) (map Some [Status 503, Status 201, Status 200]))) = 3"
  by (subst registered_until_accepted) simp_all

text \<open>Without the URL of the API no request is ever sent, and the goroutine never ends by itself.\<close>

lemma retries_without_url:
  assumes "rg_enabled c" and "rg_apiURL c = []"
  shows "register_with_retry c cfg v out (map Some outs) = ([], True)"
proof -
  have "reg_retry c cfg v (map Some outs) = ([], True)"
    using assms by (induction outs) (simp_all add: register_def)
  then show ?thesis using assms by (simp add: register_with_retry_def register_def)
qed

end
