(* ===== verification/MainV1.thy ===== *)
theory MainV1
  imports CaptureLoops Metadata RedisStore Registration Vhost
begin

section \<open>The main program of the first version\<close>

text \<open>
  \<open>cmd/edge-video/main.go\<close>: what the program makes of its configuration, the start of the cameras, and
  the callbacks that turn changes of a camera's state into events.  The callbacks run in goroutines
  of their own, each between two calls of the monitor; a step relation interleaves them with the
  monitor's operations.
\<close>

subsection \<open>From the configuration to the components\<close>

definition main_monitor :: "'h metadata_publisher \<Rightarrow> monitor" where
  "main_monitor meta =
     (let m = new_monitor (30 * second) in if mp_enabled meta then set_callbacks True True True m else m)"

definition uses_mqtt :: "config \<Rightarrow> bool" where
  "uses_mqtt cfg \<longleftrightarrow> cg_Protocol cfg = ''mqtt''"

text \<open>The metadata publisher: on the channel the AMQP publisher has now, or disabled without one.\<close>

definition main_metadata :: "('c, 'h, 'w) amqp_api \<Rightarrow> config \<Rightarrow> ('c, 'h) amqp_publisher option \<Rightarrow> 'w
    \<Rightarrow> 'h metadata_publisher \<times> 'w" where
  "main_metadata api cfg amqp w = (case amqp of
     Some p \<Rightarrow> new_metadata_publisher api (ap_channel p) (md_Exchange (cg_Metadata cfg))
                 (md_RoutingKey (cg_Metadata cfg)) (md_Enabled (cg_Metadata cfg)) w
   | None \<Rightarrow> new_metadata_publisher api None '''' '''' False w)"

definition main_vhost :: "config \<Rightarrow> string" where
  "main_vhost cfg = extract_vhost (ac_AmqpURL (cg_AMQP cfg))"

definition main_redis :: "'w \<Rightarrow> config \<Rightarrow> 'w redis_store" where
  "main_redis client cfg = new_redis_store client (rd_TTLSeconds (cg_Redis cfg)) (rd_Prefix (cg_Redis cfg))
     (main_vhost cfg) (rd_Enabled (cg_Redis cfg))"

definition main_registration :: "config \<Rightarrow> http_outcome \<Rightarrow> http_outcome option list \<Rightarrow> payload list \<times> bool" where
  "main_registration cfg out evs = register_with_retry
     (new_reg_client (rn_APIURL (cg_Registration cfg)) (rn_Enabled (cg_Registration cfg))) cfg (main_vhost cfg) out evs"

text \<open>
  The callbacks of the memory controller, numbered in the order they are registered, and the gauges
  a callback sets: the usage, the allocated megabytes and the level.
\<close>

definition register_memory_callbacks :: "controller \<Rightarrow> controller" where
  "register_memory_callbacks mc = register_callback MemoryEmergency 2 (register_callback MemoryCritical 1
     (register_callback MemoryWarning 0 mc))"

definition memory_gauges :: "nat \<Rightarrow> memory_stats \<Rightarrow> f64 \<times> f64 \<times> f64" where
  "memory_gauges cb stats = (ms_UsagePercent stats, f64_of_int (ms_Alloc stats div 1024 div 1024),
     f64_of_int (level_value (if cb = 0 then MemoryWarning else if cb = 1 then MemoryCritical else MemoryEmergency)))"

subsection \<open>Starting the cameras\<close>

definition camera_breaker :: "config \<Rightarrow> string \<Rightarrow> time \<Rightarrow> breaker" where
  "camera_breaker cfg cam now =
     (let t = i64 (op_CircuitResetSec (cg_Optimization cfg) * second);
          resetTimeout = (if t = 0 then 60 * second else t);
          n = op_CircuitMaxFailures (cg_Optimization cfg);
          maxFailures = (if n = 0 then 5 else n)
      in new_breaker cam maxFailures resetTimeout now)"

text \<open>What the start of a camera reads from outside: the clocks and the outcome of starting FFmpeg.\<close>

record camera_start =
  st_breaker :: time
  st_capture :: "time \<times> time"
  st_outcome :: start_outcome
  st_monitor :: "time \<times> time"

definition camera_capture :: "int \<Rightarrow> config \<Rightarrow> camera_config \<Rightarrow> camera_start \<Rightarrow> capture_v1 option" where
  "camera_capture numCPU cfg cam st =
     (case pool_sizes numCPU (cg_Optimization cfg) of (workers, queue, cameraBufferSize, persistentBufferSize) \<Rightarrow>
      case new_frame_buffer cameraBufferSize of
        None \<Rightarrow> None
      | Some fb \<Rightarrow> new_capture (cc_ID cam) (cc_URL cam) (get_frame_interval (cg_TargetFPS cfg)) fb
          (camera_breaker cfg (cc_ID cam) (st_breaker st)) (op_UsePersistent (cg_Optimization cfg))
          persistentBufferSize (st_capture st))"

text \<open>
  What \<open>Start\<close> leaves running: the classic loop, or the persistent loop, whose first statement makes
  the ticker of its rounds; \<open>time.NewTicker\<close> panics when the interval is not positive, and a panic of
  that goroutine ends the program.
\<close>

definition loop_begins :: "loop_mode \<Rightarrow> capture_v1 \<Rightarrow> bool" where
  "loop_begins mode c = (case mode of PersistentLoop \<Rightarrow> 0 < cv_interval c | ClassicLoop \<Rightarrow> True)"

text \<open>The loop over the cameras; a panic, of the main goroutine or of a loop it has started, is \<open>None\<close>.\<close>

fun start_captures :: "int \<Rightarrow> config \<Rightarrow> (camera_config \<times> camera_start) list \<Rightarrow> monitor
    \<Rightarrow> ((loop_mode \<times> capture_v1) list \<times> monitor) option" where
  "start_captures numCPU cfg [] m = Some ([], m)"
| "start_captures numCPU cfg ((cam, st) # cams) m =
     (let m1 = register_camera (cc_ID cam) m in case camera_capture numCPU cfg cam st of
        None \<Rightarrow> None
      | Some c \<Rightarrow>
          let ((mode, es), c') = capture_start True (st_outcome st) c;
              m2 = final mon_step m1 (mon_ops (cc_ID cam) (st_monitor st) es)
          in if \<not> loop_begins mode c' then None
             else map_option (\<lambda>(cs, m'). ((mode, c') # cs, m')) (start_captures numCPU cfg cams m2))"

subsection \<open>The callbacks of the monitor\<close>

definition down_message :: string where
  "down_message = ''C'' @ [CHR 0xC3, CHR 0xA2] @ ''mera tornou-se inativa ap'' @ [CHR 0xC3, CHR 0xB3]
     @ ''s m'' @ [CHR 0xC3, CHR 0xBA] @ ''ltiplas falhas''"

definition up_message :: string where
  "up_message = ''C'' @ [CHR 0xC3, CHR 0xA2] @ ''mera reconectada e operando normalmente''"

definition alert_message :: string where
  "alert_message = ''ALERTA: Nenhuma c'' @ [CHR 0xC3, CHR 0xA2] @ ''mera ativa detectada. Sistema em estado cr''
     @ [CHR 0xC3, CHR 0xAD] @ ''tico.''"

text \<open>
  A goroutine of a callback: before it reads the monitor, or with the arguments it will give to the
  metadata publisher.
\<close>

datatype callback = CbAllInactive | CbDown string | CbUp string
  | SendCamera string camera_state int "goerr option" string | SendSystem int int int string

fun callback_of :: "mon_event \<Rightarrow> callback list" where
  "callback_of CallAllInactive = [CbAllInactive]"
| "callback_of (CallCameraDown cam) = [CbDown cam]"
| "callback_of (CallCameraUp cam) = [CbUp cam]"
| "callback_of _ = []"

definition callbacks_of :: "mon_event list \<Rightarrow> callback list" where
  "callbacks_of evs = concat (map callback_of evs)"

fun callback_read :: "callback \<Rightarrow> monitor \<Rightarrow> callback list option" where
  "callback_read CbAllInactive m =
     (let allStatus = get_all_status m;
          inactiveCount = int (length (filter (\<lambda>(k, st). \<not> cs_IsActive st) allStatus))
      in Some [SendSystem (int (length allStatus)) 0 inactiveCount alert_message])"
| "callback_read (CbDown cam) m = Some (case get_status cam m of
     None \<Rightarrow> []
   | Some st \<Rightarrow> [SendCamera cam CameraStateInactive (cs_ConsecutiveFailures st) (cs_LastError st) down_message])"
| "callback_read (CbUp cam) m = Some [SendCamera cam CameraStateActive 0 None up_message]"
| "callback_read _ m = None"

fun callback_send :: "('h, 'w) json_publish \<Rightarrow> time \<Rightarrow> 'h metadata_publisher \<Rightarrow> callback \<Rightarrow> 'w
    \<Rightarrow> (goerr option \<times> 'w) option" where
  "callback_send pub now meta (SendCamera cam st failures lastError msg) w =
     publish_camera_status pub now cam st failures lastError msg meta w"
| "callback_send pub now meta (SendSystem cams active inactive msg) w =
     publish_system_status pub now cams active inactive msg meta w"
| "callback_send pub now meta _ w = None"

text \<open>
  The monitor, the library's state, the goroutines of the callbacks, and what they have handed to the
  metadata publisher, in order, each with the error it answered (\<open>None\<close>: the event was published).
  The error is only logged: such an event is lost.
\<close>

record 'w status_sys =
  su_monitor :: monitor
  su_world :: 'w
  su_pending :: "callback multiset"
  su_sent :: "(callback \<times> goerr option) list"

text \<open>\<open>regs\<close> are the cameras that may be registered.\<close>

inductive status_action :: "('h, 'w) json_publish \<Rightarrow> 'h metadata_publisher \<Rightarrow> string set
    \<Rightarrow> 'w status_sys \<Rightarrow> 'w status_sys \<Rightarrow> bool" for pub meta regs where
  monitored: "mon_step (su_monitor s) e = (evs, m) \<Longrightarrow> is_register e \<longrightarrow> op_camera e \<in> regs \<Longrightarrow>
    status_action pub meta regs s
      (s\<lparr>su_monitor := m, su_pending := su_pending s + mset (callbacks_of evs)\<rparr>)"
| reads: "su_pending s = add_mset c P \<Longrightarrow> callback_read c (su_monitor s) = Some cs \<Longrightarrow>
    status_action pub meta regs s (s\<lparr>su_pending := P + mset cs\<rparr>)"
| sends: "su_pending s = add_mset c P \<Longrightarrow> callback_send pub now meta c (su_world s) = Some (err, w) \<Longrightarrow>
    status_action pub meta regs s
      (s\<lparr>su_pending := P, su_world := w, su_sent := su_sent s @ [(c, err)]\<rparr>)"

definition status_start :: "monitor \<Rightarrow> 'w \<Rightarrow> 'w status_sys" where
  "status_start m w = \<lparr>su_monitor = m, su_world = w, su_pending = {#}, su_sent = []\<rparr>"

subsection \<open>Every change is reported exactly once\<close>

fun reports_up :: "string \<Rightarrow> callback \<Rightarrow> bool" where
  "reports_up cam (CbUp c) \<longleftrightarrow> c = cam"
| "reports_up cam (SendCamera c st n e msg) \<longleftrightarrow> c = cam \<and> st = CameraStateActive"
| "reports_up cam _ \<longleftrightarrow> False"

fun reports_down :: "string \<Rightarrow> callback \<Rightarrow> bool" where
  "reports_down cam (CbDown c) \<longleftrightarrow> c = cam"
| "reports_down cam (SendCamera c st n e msg) \<longleftrightarrow> c = cam \<and> st = CameraStateInactive"
| "reports_down cam _ \<longleftrightarrow> False"

text \<open>The events handed to the metadata publisher.\<close>

abbreviation handed :: "'w status_sys \<Rightarrow> callback list" where
  "handed s \<equiv> map fst (su_sent s)"

definition changes :: "(callback \<Rightarrow> bool) \<Rightarrow> 'w status_sys \<Rightarrow> int" where
  "changes P s = int (size (filter_mset P (su_pending s + mset (handed s))))"

definition status_inv :: "string \<Rightarrow> 'w status_sys \<Rightarrow> bool" where
  "status_inv cam s \<longleftrightarrow> mo_onCameraUp (su_monitor s) \<and> mo_onCameraDown (su_monitor s)
     \<and> get_status cam (su_monitor s) \<noteq> None
     \<and> changes (reports_up cam) s = changes (reports_down cam) s + (if is_active cam (su_monitor s) then 1 else 0)"

lemma reports_of_transitions:
  "size (filter_mset (reports_up cam) (mset (callbacks_of evs))) = length (filter id (transitions cam evs))"
  "size (filter_mset (reports_down cam) (mset (callbacks_of evs))) = length (filter Not (transitions cam evs))"
proof (induction evs)
  case (Cons e evs)
  { case 1 show ?case using Cons by (cases e) (simp_all add: callbacks_of_def) }
  { case 2 show ?case using Cons by (cases e) (simp_all add: callbacks_of_def) }
qed (simp_all add: callbacks_of_def)

lemma status_kept:
  assumes "get_status cam m \<noteq> None"
  shows "get_status cam (snd (mon_step m e)) \<noteq> None"
proof (cases "op_camera e = cam")
  case True
  then show ?thesis using assms by (cases e) (auto simp: own_camera_simps)
next
  case False
  then show ?thesis using assms other_camera [OF False, of m] by simp
qed

lemma read_reports:
  assumes "callback_read c m = Some cs" and "get_status cam m \<noteq> None"
  shows "size (filter_mset (reports_up cam) (mset cs)) = (if reports_up cam c then 1 else 0)"
    and "size (filter_mset (reports_down cam) (mset cs)) = (if reports_down cam c then 1 else 0)"
  using assms by (cases c; auto simp: Let_def split: option.splits)+

lemma status_inv_step:
  assumes "status_action pub meta regs s s'" and "cam \<notin> regs" and "status_inv cam s"
  shows "status_inv cam s'"
  using assms(1)
proof cases
  case (monitored e evs m)
  let ?ts = "transitions cam evs"
  have e: "evs = fst (mon_step (su_monitor s) e)" "m = snd (mon_step (su_monitor s) e)" using monitored(2) by simp_all
  have "e \<noteq> Register cam" using monitored(3) assms(2) by auto
  then have t: "?ts = (if is_active cam m = is_active cam (su_monitor s) then [] else [is_active cam m])"
    using step_transitions [of "su_monitor s" e cam] assms(3) unfolding e by (simp add: status_inv_def)
  have c: "changes (reports_up cam) s' = changes (reports_up cam) s + int (length (filter id ?ts))"
    "changes (reports_down cam) s' = changes (reports_down cam) s + int (length (filter Not ?ts))"
    unfolding monitored(1) changes_def by (simp_all add: reports_of_transitions)
  have k: "get_status cam m \<noteq> None" "mo_onCameraUp m" "mo_onCameraDown m"
    using assms(3) status_kept unfolding e by (simp_all add: status_inv_def)
  show ?thesis using assms(3) k t unfolding status_inv_def c by (simp add: monitored(1) split: if_splits)
next
  case (reads c P cs)
  have "changes (reports_up cam) s' = changes (reports_up cam) s"
    "changes (reports_down cam) s' = changes (reports_down cam) s"
    using read_reports [OF reads(3), of cam] assms(3) reads(2) unfolding reads(1) changes_def
    by (simp_all add: status_inv_def)
  then show ?thesis using assms(3) unfolding status_inv_def by (simp add: reads(1))
next
  case (sends c P now err w)
  have "changes (reports_up cam) s' = changes (reports_up cam) s"
    "changes (reports_down cam) s' = changes (reports_down cam) s"
    using sends(2) unfolding sends(1) changes_def by simp_all
  then show ?thesis using assms(3) unfolding status_inv_def by (simp add: sends(1))
qed

lemma filtered_length: "size (filter_mset P (mset xs)) = length (filter P xs)"
  by (simp flip: mset_filter)


subsection \<open>Events in the wrong order\<close>

text \<open>A metadata publisher whose library takes everything.\<close>

definition demo_meta :: "unit metadata_publisher" where
  "demo_meta = \<lparr>mp_channel = Some (), mp_exchange = ''x'', mp_routingKey = ''meta'', mp_enabled = True\<rparr>"

definition take_all :: "(unit, unit) json_publish" where
  "take_all h m w = (None, w)"

definition demo_status_ops :: "mon_op list" where
  "demo_status_ops = [Success ''c'' 1 1, Failure ''c'' None, Failure ''c'' None, Failure ''c'' None, Success ''c'' 2 2]"

text \<open>A schedule: the monitor's operations, and the callbacks that take their next step.\<close>

datatype sched = Mon mon_op | Step callback

fun status_exec :: "('h, 'w) json_publish \<Rightarrow> 'h metadata_publisher \<Rightarrow> sched list \<Rightarrow> 'w status_sys \<Rightarrow> 'w status_sys option" where
  "status_exec pub meta [] s = Some s"
| "status_exec pub meta (Mon e # es) s =
     (if is_register e then None
      else status_exec pub meta es (s\<lparr>su_monitor := snd (mon_step (su_monitor s) e),
             su_pending := su_pending s + mset (callbacks_of (fst (mon_step (su_monitor s) e)))\<rparr>))"
| "status_exec pub meta (Step c # es) s =
     (if c \<notin># su_pending s then None
      else case callback_read c (su_monitor s) of
        Some cs \<Rightarrow> status_exec pub meta es (s\<lparr>su_pending := su_pending s - {#c#} + mset cs\<rparr>)
      | None \<Rightarrow> (case callback_send pub 0 meta c (su_world s) of
          None \<Rightarrow> None
        | Some (err, w) \<Rightarrow> status_exec pub meta es (s\<lparr>su_pending := su_pending s - {#c#}, su_world := w,
            su_sent := su_sent s @ [(c, err)]\<rparr>)))"

lemma status_exec_run:
  "status_exec pub meta es s = Some s' \<Longrightarrow> (status_action pub meta regs)\<^sup>*\<^sup>* s s'"
proof (induction es arbitrary: s)
  case (Cons x es)
  have go: "(status_action pub meta regs)\<^sup>*\<^sup>* s s'"
    if "status_action pub meta regs s t" "status_exec pub meta es t = Some s'" for t
    using that Cons.IH by (meson converse_rtranclp_into_rtranclp)
  show ?case
  proof (cases x)
    case (Mon e)
    have e: "\<not> is_register e" using Cons.prems Mon by (auto split: if_splits)
    show ?thesis
      by (rule go [OF monitored [of s e, OF surjective_pairing]]) (use Cons.prems Mon e in simp_all)
  next
    case (Step c)
    then have m: "su_pending s = add_mset c (su_pending s - {#c#})" using Cons.prems by (auto split: if_splits)
    show ?thesis
    proof (cases "callback_read c (su_monitor s)")
      case None
      then obtain err w where w: "callback_send pub 0 meta c (su_world s) = Some (err, w)"
        using Cons.prems Step by (auto split: if_splits option.splits)
      show ?thesis by (rule go [OF sends [OF m w]]) (use Cons.prems Step None w in \<open>simp split: if_splits\<close>)
    next
      case (Some cs)
      show ?thesis by (rule go [OF reads [OF m Some]]) (use Cons.prems Step Some in \<open>simp split: if_splits\<close>)
    qed
  qed
qed simp

abbreviation up_event :: callback where
  "up_event \<equiv> SendCamera ''c'' CameraStateActive 0 None up_message"

abbreviation down_event :: "int \<Rightarrow> callback" where
  "down_event n \<equiv> SendCamera ''c'' CameraStateInactive n None down_message"

definition demo_schedule :: "sched list" where
  "demo_schedule = map Mon demo_status_ops @ [Step (CbUp ''c''), Step up_event, Step CbAllInactive,
     Step (SendSystem 1 0 0 alert_message), Step (CbUp ''c''), Step up_event, Step (CbDown ''c''), Step (down_event 0)]"

lemma demo_status_run:
  "\<exists>s. (status_action take_all demo_meta {})\<^sup>*\<^sup>* (status_start demo_monitor ()) s \<and> su_pending s = {#}
    \<and> su_sent s = [(up_event, None), (SendSystem 1 0 0 alert_message, None), (up_event, None), (down_event 0, None)]
    \<and> is_active ''c'' (su_monitor s)"
proof -
  have "\<exists>s. status_exec take_all demo_meta demo_schedule (status_start demo_monitor ()) = Some s \<and> su_pending s = {#}
    \<and> su_sent s = [(up_event, None), (SendSystem 1 0 0 alert_message, None), (up_event, None), (down_event 0, None)]
    \<and> is_active ''c'' (su_monitor s)"
    by (simp add: demo_schedule_def demo_status_ops_def status_start_def demo_monitor_def mon_defs callbacks_of_def
        new_monitor_def set_callbacks_def count_active_cameras_def get_status_def get_all_status_def is_active_def
        take_all_def demo_meta_def publish_camera_status_def publish_system_status_def publish_json_def)
  then show ?thesis using status_exec_run by blast
qed

text \<open>
  The last event about a camera that is up may say that it is down, without a single failure; the
  alarm that no camera is active may count no inactive one.
\<close>

lemma late_events_contradict:
  "\<exists>s. (status_action take_all demo_meta {})\<^sup>*\<^sup>* (status_start demo_monitor ()) s \<and> su_pending s = {#}
    \<and> is_active ''c'' (su_monitor s) \<and> last (su_sent s) = (down_event 0, None)
    \<and> (SendSystem 1 0 0 alert_message, None) \<in> set (su_sent s)"
  using demo_status_run by fastforce


subsection \<open>Every camera starts\<close>

lemma capture_start_ops:
  assumes "capture_start True out c = ((mode, es), c')"
  shows "case mode of
      PersistentLoop \<Rightarrow> mon_ops cam ts es = [Success cam (fst ts) (snd ts)]
    | ClassicLoop \<Rightarrow> mon_ops cam ts es = [] \<or> (\<exists>err. mon_ops cam ts es = [Failure cam err])"
  using assms
  by (cases "cv_usePersistent c") (auto simp: capture_start_def split: option.splits prod.splits loop_mode.splits)

lemma other_final:
  "\<forall>e \<in> set es. op_camera e \<noteq> c \<Longrightarrow> get_status c (final mon_step m es) = get_status c m"
  by (induction es arbitrary: m) (simp_all add: other_camera del: mon_step.simps)

lemma start_status:
  assumes "capture_start True out c = ((mode, es), c')" and "m' = final mon_step (register_camera cam m) (mon_ops cam ts es)"
  shows "\<exists>st. get_status cam m' = Some st \<and> (cs_IsActive st \<longleftrightarrow> mode = PersistentLoop)"
    and "c2 \<noteq> cam \<Longrightarrow> get_status c2 m' = get_status c2 m"
proof -
  have r: "get_status cam (register_camera cam m) = Some \<lparr>cs_CameraID = cam, cs_IsActive = False,
      cs_LastSuccessfulCapture = zero_time, cs_ConsecutiveFailures = 0, cs_LastError = None\<rparr>"
    using own_camera(1) [of cam m] by simp
  show "\<exists>st. get_status cam m' = Some st \<and> (cs_IsActive st \<longleftrightarrow> mode = PersistentLoop)"
    using capture_start_ops [OF assms(1), of cam ts] r unfolding assms(2)
    by (cases mode) (auto simp: own_camera_simps)
  show "get_status c2 m' = get_status c2 m" if "c2 \<noteq> cam"
  proof -
    have "\<forall>e \<in> set (mon_ops cam ts es). op_camera e \<noteq> c2"
      using capture_start_ops [OF assms(1), of cam ts] that by (cases mode) auto
    then show ?thesis using other_camera [of "Register cam" c2 m] that unfolding assms(2) by (simp add: other_final)
  qed
qed

lemma camera_capture_some:
  assumes "0 < numCPU" and "get_frame_interval (cg_TargetFPS cfg) \<noteq> 0"
  obtains c where "camera_capture numCPU cfg cam st = Some c" and "cv_ID c = cc_ID cam"
    and "cv_interval c = get_frame_interval (cg_TargetFPS cfg)"
proof -
  obtain w q b p where s: "pool_sizes numCPU (cg_Optimization cfg) = (w, q, b, p)" by (rule prod_cases4)
  then have "0 < b" using pool_sizes_positive [OF assms(1)] by blast
  then show thesis using that s assms(2)
    by (cases "op_UsePersistent (cg_Optimization cfg)")
      (simp_all add: camera_capture_def new_frame_buffer_def new_capture_def persistent_fps_def Let_def)
qed



text \<open>
  In persistent mode the first camera whose process starts ends the program when the interval is not
  positive, as it is for a target rate that is not a number.
\<close>

lemma start_without_interval_panics:
  assumes "get_frame_interval (cg_TargetFPS cfg) \<le> 0" and "op_UsePersistent (cg_Optimization cfg)"
    and "st_outcome st = Started"
  shows "start_captures numCPU cfg ((cam, st) # cams) m = None"
proof (cases "camera_capture numCPU cfg cam st")
  case (Some c)
  then obtain p where p: "cv_usePersistent c" "cv_persistentCapture c = Some p" "\<not> pp_running p"
      "cv_interval c = get_frame_interval (cg_TargetFPS cfg)"
    using assms(2)
    by (auto simp: camera_capture_def new_capture_def new_persistent_capture_def Let_def
        split: prod.splits option.splits if_splits)
  then show ?thesis using Some assms(1,3)
    by (auto simp: capture_start_def start_capture_def start_ffmpeg2_def loop_begins_def Let_def split: prod.splits)
qed simp

lemma nan_rate_panics:
  assumes "cg_TargetFPS cfg = NaN" and "op_UsePersistent (cg_Optimization cfg)" and "st_outcome st = Started"
  shows "start_captures numCPU cfg ((cam, st) # cams) m = None"
  by (rule start_without_interval_panics) (use assms interval_of_extreme_rates(2) in simp_all)

end
