(* ===== verification/Publishers.thy ===== *)
theory Publishers
  imports MainV1
begin

section \<open>The publishers of the first version\<close>

text \<open>
  \<open>pkg/mq\<close>: the publisher for MQTT (\<open>mqtt.go\<close>), the interface \<open>Publisher\<close> that it and the publisher
  for AMQP implement (\<open>publisher.go\<close>), and the choice \<open>main\<close> makes between them.  The MQTT client is a
  parameter.  A token of the client may never complete: \<open>Wait\<close> does then not return, \<open>None\<close>.  A
  completed token is what \<open>Wait\<close> and \<open>Error\<close> answer.

  The interface is the locale \<open>publisher\<close>: what a publication writes to the broker.  Its lemma follows
  a whole sequence of publications, and \<open>pubs\<close> interprets it on the value \<open>main\<close> passes to the cameras.
\<close>

subsection \<open>MQTT\<close>

record mqtt_options =
  mo_broker :: string
  mo_autoReconnect :: bool
  mo_connectRetry :: bool

record mqtt_message =
  mm_topic :: string
  mm_qos :: int
  mm_retained :: bool
  mm_payload :: "byte list"

type_synonym token = "(bool \<times> goerr option) option"

record 'w mqtt_api =
  mq_connect :: "mqtt_options \<Rightarrow> 'w \<Rightarrow> token \<times> 'w"
  mq_publish :: "mqtt_message \<Rightarrow> 'w \<Rightarrow> token \<times> 'w"
  mq_disconnect :: "int \<Rightarrow> 'w \<Rightarrow> 'w"

record mqtt_publisher =
  mqp_topicPrefix :: string

definition new_mqtt_publisher :: "'w mqtt_api \<Rightarrow> string \<Rightarrow> string \<Rightarrow> 'w \<Rightarrow> ((goerr + mqtt_publisher) \<times> 'w) option" where
  "new_mqtt_publisher api broker topicPrefix w =
     (case mq_connect api \<lparr>mo_broker = broker, mo_autoReconnect = True, mo_connectRetry = True\<rparr> w of
        (None, w') \<Rightarrow> None
      | (Some (True, Some e), w') \<Rightarrow> Some (Inl (wrap_err ''mqtt connect: '' e), w')
      | (Some _, w') \<Rightarrow> Some (Inr \<lparr>mqp_topicPrefix = topicPrefix\<rparr>, w'))"

definition mqtt_publish :: "'w mqtt_api \<Rightarrow> string \<Rightarrow> byte list \<Rightarrow> mqtt_publisher \<Rightarrow> 'w
    \<Rightarrow> (goerr option \<times> 'w) option" where
  "mqtt_publish api cameraID payload p w =
     (case mq_publish api \<lparr>mm_topic = mqp_topicPrefix p @ cameraID, mm_qos = 1, mm_retained = False,
         mm_payload = payload\<rparr> w of
        (None, w') \<Rightarrow> None
      | (Some (sent, err), w') \<Rightarrow>
          if \<not> sent then Some (Some (errorf (''o cliente MQTT n'' @ [CHR 0xC3, CHR 0xA3] @ ''o conseguiu enviar a mensagem'')), w')
          else (case err of
              Some e \<Rightarrow> Some (Some (wrap_err ''falha ao publicar no MQTT: '' e), w')
            | None \<Rightarrow> Some (None, w')))"

definition mqtt_close :: "'w mqtt_api \<Rightarrow> 'w \<Rightarrow> goerr option \<times> 'w" where
  "mqtt_close api w = (None, mq_disconnect api 250 w)"

subsection \<open>The value of the interface\<close>

text \<open>Both brokers share the state \<open>'w\<close>.  What a publication reads from outside: the context and the clock.\<close>

datatype ('c, 'h) publisher_value = AMQPPublisher "('c, 'h) amqp_publisher" | MQTTPublisher mqtt_publisher

type_synonym publish_env = "(nat \<Rightarrow> goerr option) \<times> (nat \<Rightarrow> time)"

definition main_publisher :: "('c, 'h, 'w) amqp_api \<Rightarrow> 'w mqtt_api \<Rightarrow> config \<Rightarrow> 'w
    \<Rightarrow> ((goerr + ('c, 'h) publisher_value) \<times> 'w) option" where
  "main_publisher amqp mqtt cfg w =
     (if uses_mqtt cfg
      then (case new_mqtt_publisher mqtt (mt_Broker (cg_MQTT cfg)) (mt_TopicPrefix (cg_MQTT cfg)) w of
          None \<Rightarrow> None
        | Some (Inl e, w') \<Rightarrow> Some (Inl e, w')
        | Some (Inr p, w') \<Rightarrow> Some (Inr (MQTTPublisher p), w'))
      else (case new_amqp_publisher amqp (ac_AmqpURL (cg_AMQP cfg)) (ac_Exchange (cg_AMQP cfg))
            (ac_RoutingKeyPrefix (cg_AMQP cfg)) w of
          (Inl e, sleeps, w') \<Rightarrow> Some (Inl e, w')
        | (Inr p, sleeps, w') \<Rightarrow> Some (Inr (AMQPPublisher p), w')))"

fun value_publish :: "('c, 'h, 'w) amqp_api \<Rightarrow> 'w mqtt_api \<Rightarrow> publish_env \<Rightarrow> string \<Rightarrow> byte list
    \<Rightarrow> ('c, 'h) publisher_value \<times> 'w \<Rightarrow> (goerr option \<times> ('c, 'h) publisher_value \<times> 'w) option" where
  "value_publish amqp mqtt env cam payload (AMQPPublisher p, w) =
     (case publish amqp (fst env) (snd env) cam payload (p, w) of (e, (p', w')) \<Rightarrow> Some (e, AMQPPublisher p', w'))"
| "value_publish amqp mqtt env cam payload (MQTTPublisher p, w) =
     (case mqtt_publish mqtt cam payload p w of None \<Rightarrow> None | Some (e, w') \<Rightarrow> Some (e, MQTTPublisher p, w'))"

fun value_close :: "('c, 'h, 'w) amqp_api \<Rightarrow> 'w mqtt_api \<Rightarrow> ('c, 'h) publisher_value \<times> 'w
    \<Rightarrow> goerr option \<times> ('c, 'h) publisher_value \<times> 'w" where
  "value_close amqp mqtt (AMQPPublisher p, w) =
     (case close_publisher amqp (p, w) of (e, (p', w')) \<Rightarrow> (e, AMQPPublisher p', w'))"
| "value_close amqp mqtt (MQTTPublisher p, w) = (case mqtt_close mqtt w of (e, w') \<Rightarrow> (e, MQTTPublisher p, w'))"

subsection \<open>The interface\<close>

text \<open>
  A sequence of publications as the workers make them: the frames whose publication reported no
  error, as their destination and bytes, and the state after it; \<open>None\<close> when one does not return.
\<close>

fun publish_frames :: "('e \<Rightarrow> string \<Rightarrow> byte list \<Rightarrow> 's \<Rightarrow> (goerr option \<times> 's) option)
    \<Rightarrow> ('s \<Rightarrow> string \<Rightarrow> string) \<Rightarrow> ('e \<times> string \<times> byte list) list \<Rightarrow> 's \<Rightarrow> ((string \<times> byte list) list \<times> 's) option" where
  "publish_frames send dest [] s = Some ([], s)"
| "publish_frames send dest ((env, cam, payload) # jobs) s = (case send env cam payload s of
     None \<Rightarrow> None
   | Some (e, s1) \<Rightarrow> (case publish_frames send dest jobs s1 of
       None \<Rightarrow> None
     | Some (ok, s2) \<Rightarrow> Some (if e = None then (dest s cam, payload) # ok else ok, s2)))"

text \<open>
  The contract: when the library under it keeps its own (\<open>lawful\<close>), a publication only appends to
  what was written to the broker; it has written its message if it reports no error, and whatever
  else it writes was given to the library before and is still to be confirmed (\<open>pending\<close>).
\<close>

locale publisher =
  fixes lawful :: bool
    and send :: "'e \<Rightarrow> string \<Rightarrow> byte list \<Rightarrow> 's \<Rightarrow> (goerr option \<times> 's) option"
    and written :: "'s \<Rightarrow> (string \<times> byte list) list"
    and pending :: "'s \<Rightarrow> (string \<times> byte list) set"
    and dest :: "'s \<Rightarrow> string \<Rightarrow> string"
  assumes send_written: "lawful \<Longrightarrow> send env cam payload s = Some (r, s') \<Longrightarrow>
      \<exists>ms. written s' = written s @ ms \<and> set ms \<subseteq> insert (dest s cam, payload) (pending s)
        \<and> (r = None \<longrightarrow> (dest s cam, payload) \<in> set ms)"
    and send_pending: "lawful \<Longrightarrow> send env cam payload s = Some (r, s') \<Longrightarrow>
      pending s' \<subseteq> insert (dest s cam, payload) (pending s)"
    and send_dest: "lawful \<Longrightarrow> send env cam payload s = Some (r, s') \<Longrightarrow> dest s' = dest s"
begin

abbreviation messages :: "'s \<Rightarrow> ('e \<times> string \<times> byte list) list \<Rightarrow> (string \<times> byte list) set" where
  "messages s jobs \<equiv> (\<lambda>(env, cam, payload). (dest s cam, payload)) ` set jobs"

lemma frames_written:
  assumes "lawful" and "publish_frames send dest jobs s = Some (ok, s')"
  shows "\<exists>ms. written s' = written s @ ms \<and> subseq ok ms \<and> set ms \<subseteq> pending s \<union> messages s jobs"
  using assms(2)
proof (induction jobs arbitrary: s ok)
  case (Cons f jobs)
  obtain env cam payload where f: "f = (env, cam, payload)" by (cases f)
  let ?m = "(dest s cam, payload)"
  obtain r s1 where 1: "send env cam payload s = Some (r, s1)"
    using Cons.prems f by (auto split: option.splits)
  obtain ok1 where 2: "publish_frames send dest jobs s1 = Some (ok1, s')"
    and ok: "ok = (if r = None then ?m # ok1 else ok1)"
    using Cons.prems f 1 by (auto split: option.splits)
  obtain ns where n: "written s1 = written s @ ns" "set ns \<subseteq> insert ?m (pending s)" "r = None \<longrightarrow> ?m \<in> set ns"
    using send_written [OF assms(1) 1] by blast
  obtain ms where ms: "written s' = written s1 @ ms" "subseq ok1 ms" "set ms \<subseteq> pending s1 \<union> messages s1 jobs"
    using Cons.IH [OF 2] by blast
  have "subseq ok (ns @ ms)"
  proof (cases "r = None")
    case True
    then have "subseq ([?m] @ ok1) (ns @ ms)" using n(3) ms(2) by (intro list_emb_append_mono) (simp add: subseq_singleton_left)
    then show ?thesis using True ok by simp
  next
    case False
    then have "ok = ok1" using ok by simp
    then show ?thesis using ms(2) by (simp add: list_emb_append2)
  qed
  moreover have "set (ns @ ms) \<subseteq> pending s \<union> messages s (f # jobs)"
    using n(2) ms(3) send_pending [OF assms(1) 1] send_dest [OF assms(1) 1] f by auto
  ultimately show ?case using n(1) ms(1) by (intro exI [of _ "ns @ ms"]) simp
qed simp

end

subsection \<open>Both publishers keep the contract\<close>

text \<open>
  The documented behaviour of the MQTT client for messages of quality of service 1: a token completes
  without an error when the broker has acknowledged the message; a message that was given to the
  client and not acknowledged is kept and may be written (again) later, and nothing else is written.
\<close>

definition mqtt_laws :: "'w mqtt_api \<Rightarrow> ('w \<Rightarrow> mqtt_message list) \<Rightarrow> ('w \<Rightarrow> mqtt_message set) \<Rightarrow> bool" where
  "mqtt_laws api mlog kept \<longleftrightarrow>
     (\<forall>opts w. mlog (snd (mq_connect api opts w)) = mlog w \<and> kept (snd (mq_connect api opts w)) = kept w)
   \<and> (\<forall>m w r w'. mq_publish api m w = (r, w') \<longrightarrow> mm_qos m = 1 \<longrightarrow>
        (\<exists>ms. mlog w' = mlog w @ ms \<and> set ms \<subseteq> insert m (kept w) \<and> (r = Some (True, None) \<longrightarrow> m \<in> set ms))
        \<and> kept w' \<subseteq> insert m (kept w))"

definition amqp_pair :: "message \<Rightarrow> string \<times> byte list" where
  "amqp_pair m = (msg_routingKey m, msg_body m)"

definition mqtt_pair :: "mqtt_message \<Rightarrow> string \<times> byte list" where
  "mqtt_pair m = (mm_topic m, mm_payload m)"

fun value_written :: "('w \<Rightarrow> message list) \<Rightarrow> ('w \<Rightarrow> mqtt_message list) \<Rightarrow> ('c, 'h) publisher_value \<times> 'w
    \<Rightarrow> (string \<times> byte list) list" where
  "value_written alog mlog (AMQPPublisher p, w) = map amqp_pair (alog w)"
| "value_written alog mlog (MQTTPublisher p, w) = map mqtt_pair (mlog w)"

fun value_pending :: "('w \<Rightarrow> mqtt_message set) \<Rightarrow> ('c, 'h) publisher_value \<times> 'w \<Rightarrow> (string \<times> byte list) set" where
  "value_pending kept (AMQPPublisher p, w) = {}"
| "value_pending kept (MQTTPublisher p, w) = mqtt_pair ` kept w"

fun value_dest :: "('c, 'h) publisher_value \<times> 'w \<Rightarrow> string \<Rightarrow> string" where
  "value_dest (AMQPPublisher p, w) cam = ap_routingKeyPrefix p @ cam"
| "value_dest (MQTTPublisher p, w) cam = mqp_topicPrefix p @ cam"

lemma amqp_publish_written:
  assumes "amqp_laws api alog" and "publish api ctx now cam payload (p, w) = (r, (p', w'))"
  shows "\<exists>ms. map amqp_pair (alog w') = map amqp_pair (alog w) @ ms
      \<and> set ms \<subseteq> {(ap_routingKeyPrefix p @ cam, payload)} \<and> (r = None \<longrightarrow> (ap_routingKeyPrefix p @ cam, payload) \<in> set ms)"
    and "ap_routingKeyPrefix p' = ap_routingKeyPrefix p"
proof -
  obtain ms where ms: "alog w' = alog w @ ms" "copies p (ap_routingKeyPrefix p @ cam) payload ms" "r = None \<longrightarrow> ms \<noteq> []"
      "same_target p p'"
    using publish_attempts_delivery [OF assms(1)] assms(2) unfolding publish_def delivers_def by fastforce
  have "\<forall>m \<in> set ms. amqp_pair m = (ap_routingKeyPrefix p @ cam, payload)"
    using ms(2) by (simp add: copies_def amqp_pair_def)
  then show "\<exists>ms. map amqp_pair (alog w') = map amqp_pair (alog w) @ ms
      \<and> set ms \<subseteq> {(ap_routingKeyPrefix p @ cam, payload)} \<and> (r = None \<longrightarrow> (ap_routingKeyPrefix p @ cam, payload) \<in> set ms)"
    using ms(1,3) by (intro exI [of _ "map amqp_pair ms"]) (cases ms; auto)
  show "ap_routingKeyPrefix p' = ap_routingKeyPrefix p" using ms(4) by (simp add: same_target_def)
qed

lemma mqtt_publish_written:
  assumes "mqtt_laws api mlog kept" and "mqtt_publish api cam payload p w = Some (r, w')"
  shows "\<exists>ms. map mqtt_pair (mlog w') = map mqtt_pair (mlog w) @ ms
      \<and> set ms \<subseteq> insert (mqp_topicPrefix p @ cam, payload) (mqtt_pair ` kept w)
      \<and> (r = None \<longrightarrow> (mqp_topicPrefix p @ cam, payload) \<in> set ms)"
    and "mqtt_pair ` kept w' \<subseteq> insert (mqp_topicPrefix p @ cam, payload) (mqtt_pair ` kept w)"
proof -
  let ?m = "\<lparr>mm_topic = mqp_topicPrefix p @ cam, mm_qos = 1, mm_retained = False, mm_payload = payload\<rparr>"
  have q: "mm_qos ?m = 1" and m: "mqtt_pair ?m = (mqp_topicPrefix p @ cam, payload)" by (simp_all add: mqtt_pair_def)
  obtain t w1 where 1: "mq_publish api ?m w = (t, w1)" by (rule prod.exhaust)
  have w1: "w1 = w'" and ok: "r = None \<longrightarrow> t = Some (True, None)"
    using assms(2) 1 by (auto simp: mqtt_publish_def split: option.splits if_splits prod.splits)
  have 2: "(\<exists>ms. mlog w' = mlog w @ ms \<and> set ms \<subseteq> insert ?m (kept w) \<and> (t = Some (True, None) \<longrightarrow> ?m \<in> set ms))
      \<and> kept w' \<subseteq> insert ?m (kept w)"
    using assms(1) 1 w1 q unfolding mqtt_laws_def by blast
  then obtain ms where ms: "mlog w' = mlog w @ ms" "set ms \<subseteq> insert ?m (kept w)" "t = Some (True, None) \<longrightarrow> ?m \<in> set ms"
    by blast
  have "mqtt_pair ` set ms \<subseteq> insert (mqtt_pair ?m) (mqtt_pair ` kept w)" using ms(2) by blast
  moreover have "r = None \<longrightarrow> mqtt_pair ?m \<in> mqtt_pair ` set ms" using ms(3) ok by blast
  ultimately show "\<exists>ms. map mqtt_pair (mlog w') = map mqtt_pair (mlog w) @ ms
      \<and> set ms \<subseteq> insert (mqp_topicPrefix p @ cam, payload) (mqtt_pair ` kept w)
      \<and> (r = None \<longrightarrow> (mqp_topicPrefix p @ cam, payload) \<in> set ms)"
    using ms(1) unfolding m by (intro exI [of _ "map mqtt_pair ms"]) simp
  have "mqtt_pair ` kept w' \<subseteq> insert (mqtt_pair ?m) (mqtt_pair ` kept w)" using 2 by blast
  then show "mqtt_pair ` kept w' \<subseteq> insert (mqp_topicPrefix p @ cam, payload) (mqtt_pair ` kept w)" unfolding m .
qed

lemma value_publish_cases:
  assumes "value_publish amqp mqtt env cam payload s = Some (r, s')"
  obtains p w p' w' where "s = (AMQPPublisher p, w)" "s' = (AMQPPublisher p', w')"
      "publish amqp (fst env) (snd env) cam payload (p, w) = (r, (p', w'))"
    | p w w' where "s = (MQTTPublisher p, w)" "s' = (MQTTPublisher p, w')" "mqtt_publish mqtt cam payload p w = Some (r, w')"
  using assms by (cases "(amqp, mqtt, env, cam, payload, s)" rule: value_publish.cases)
    (auto split: prod.splits option.splits)

interpretation pubs: publisher "amqp_laws amqp alog \<and> mqtt_laws mqtt mlog kept" "value_publish amqp mqtt"
  "value_written alog mlog" "value_pending kept" value_dest for amqp mqtt alog mlog kept
proof unfold_locales
  fix env cam payload s r s'
  assume l: "amqp_laws amqp alog \<and> mqtt_laws mqtt mlog kept"
    and p: "value_publish amqp mqtt env cam payload s = Some (r, s')"
  show "\<exists>ms. value_written alog mlog s' = value_written alog mlog s @ ms
      \<and> set ms \<subseteq> insert (value_dest s cam, payload) (value_pending kept s)
      \<and> (r = None \<longrightarrow> (value_dest s cam, payload) \<in> set ms)"
    using p
  proof (cases rule: value_publish_cases)
    case (1 p w p' w')
    then show ?thesis using amqp_publish_written(1) [OF conjunct1 [OF l] 1(3)] by simp
  next
    case (2 p w w')
    then show ?thesis using mqtt_publish_written(1) [OF conjunct2 [OF l] 2(3)] by simp
  qed
  show "value_pending kept s' \<subseteq> insert (value_dest s cam, payload) (value_pending kept s)"
    using p
  proof (cases rule: value_publish_cases)
    case (2 p w w')
    then show ?thesis using mqtt_publish_written(2) [OF conjunct2 [OF l] 2(3)] by simp
  qed simp
  show "value_dest s' = value_dest s"
    using p
  proof (cases rule: value_publish_cases)
    case (1 p w p' w')
    then show ?thesis using amqp_publish_written(2) [OF conjunct1 [OF l] 1(3)] by (auto simp: fun_eq_iff)
  qed (auto simp: fun_eq_iff)
qed

subsection \<open>From the configuration to the broker\<close>

definition broker_written :: "('w \<Rightarrow> message list) \<Rightarrow> ('w \<Rightarrow> mqtt_message list) \<Rightarrow> config \<Rightarrow> 'w
    \<Rightarrow> (string \<times> byte list) list" where
  "broker_written alog mlog cfg w =
     (if uses_mqtt cfg then map mqtt_pair (mlog w) else map amqp_pair (alog w))"

definition broker_pending :: "('w \<Rightarrow> mqtt_message set) \<Rightarrow> config \<Rightarrow> 'w \<Rightarrow> (string \<times> byte list) set" where
  "broker_pending kept cfg w = (if uses_mqtt cfg then mqtt_pair ` kept w else {})"

definition key_prefix :: "config \<Rightarrow> string" where
  "key_prefix cfg = (if uses_mqtt cfg then mt_TopicPrefix (cg_MQTT cfg) else ac_RoutingKeyPrefix (cg_AMQP cfg))"

lemma new_amqp_publisher_quiet:
  assumes "amqp_laws api alog" and "new_amqp_publisher api url exch pfx w = (Inr p, sleeps, w')"
  shows "alog w' = alog w" and "ap_routingKeyPrefix p = pfx"
proof -
  let ?p = "\<lparr>ap_conn = None, ap_channel = None, ap_exchange = exch, ap_routingKeyPrefix = pfx,
      ap_amqpURL = url, ap_closed = False\<rparr>"
  have "snd (snd (connect_attempts api (replicate 10 (5 * second)) None (?p, w))) = (p, w')"
    using assms(2) by (auto simp: new_amqp_publisher_def Let_def split: prod.splits option.splits)
  then have "quiet alog (?p, w) (p, w')" using quiet_attempts [OF assms(1)] by metis
  then show "alog w' = alog w" "ap_routingKeyPrefix p = pfx" by (simp_all add: quiet_def same_target_def)
qed

lemma new_mqtt_publisher_quiet:
  assumes "mqtt_laws api mlog kept" and "new_mqtt_publisher api broker pfx w = Some (Inr p, w')"
  shows "mlog w' = mlog w" and "kept w' = kept w" and "mqp_topicPrefix p = pfx"
proof -
  let ?o = "\<lparr>mo_broker = broker, mo_autoReconnect = True, mo_connectRetry = True\<rparr>"
  have "w' = snd (mq_connect api ?o w)" and "mqp_topicPrefix p = pfx"
    using assms(2) by (auto simp: new_mqtt_publisher_def split: prod.splits option.splits bool.splits)
  moreover have "mlog (snd (mq_connect api ?o w)) = mlog w" "kept (snd (mq_connect api ?o w)) = kept w"
    using assms(1) unfolding mqtt_laws_def by blast+
  ultimately show "mlog w' = mlog w" "kept w' = kept w" "mqp_topicPrefix p = pfx" by simp_all
qed

lemma main_publisher_start:
  assumes "amqp_laws amqp alog \<and> mqtt_laws mqtt mlog kept" and "main_publisher amqp mqtt cfg w = Some (Inr v, w1)"
  shows "value_written alog mlog (v, w1) = broker_written alog mlog cfg w"
    and "value_pending kept (v, w1) = broker_pending kept cfg w"
    and "value_dest (v, w1) cam = key_prefix cfg @ cam"
    and "(case v of AMQPPublisher p \<Rightarrow> False | MQTTPublisher p \<Rightarrow> True) = uses_mqtt cfg"
proof -
  have "value_written alog mlog (v, w1) = broker_written alog mlog cfg w
      \<and> value_pending kept (v, w1) = broker_pending kept cfg w \<and> value_dest (v, w1) cam = key_prefix cfg @ cam
      \<and> (case v of AMQPPublisher p \<Rightarrow> False | MQTTPublisher p \<Rightarrow> True) = uses_mqtt cfg"
  proof (cases "uses_mqtt cfg")
    case True
    then obtain p where v: "v = MQTTPublisher p"
        and "new_mqtt_publisher mqtt (mt_Broker (cg_MQTT cfg)) (mt_TopicPrefix (cg_MQTT cfg)) w = Some (Inr p, w1)"
      using assms(2) by (auto simp: main_publisher_def split: option.splits prod.splits sum.splits)
    note q = new_mqtt_publisher_quiet [OF conjunct2 [OF assms(1)] this(2)]
    show ?thesis using True v q by (simp add: broker_written_def broker_pending_def key_prefix_def)
  next
    case False
    then obtain p sl where v: "v = AMQPPublisher p"
        and "new_amqp_publisher amqp (ac_AmqpURL (cg_AMQP cfg)) (ac_Exchange (cg_AMQP cfg))
            (ac_RoutingKeyPrefix (cg_AMQP cfg)) w = (Inr p, sl, w1)"
      using assms(2) by (auto simp: main_publisher_def split: option.splits prod.splits sum.splits)
    note q = new_amqp_publisher_quiet [OF conjunct1 [OF assms(1)] this(2)]
    show ?thesis using False v q by (simp add: broker_written_def broker_pending_def key_prefix_def)
  qed
  then show "value_written alog mlog (v, w1) = broker_written alog mlog cfg w"
    "value_pending kept (v, w1) = broker_pending kept cfg w" "value_dest (v, w1) cam = key_prefix cfg @ cam"
    "(case v of AMQPPublisher p \<Rightarrow> False | MQTTPublisher p \<Rightarrow> True) = uses_mqtt cfg" by blast+
qed

lemma publish_frames_value:
  assumes "publish_frames (value_publish amqp mqtt) dest jobs s = Some (ok, s')"
  shows "(case fst s' of AMQPPublisher p \<Rightarrow> False | MQTTPublisher p \<Rightarrow> True)
    = (case fst s of AMQPPublisher p \<Rightarrow> False | MQTTPublisher p \<Rightarrow> True)"
  using assms
proof (induction jobs arbitrary: s ok)
  case (Cons f jobs)
  obtain env cam payload where f: "f = (env, cam, payload)" by (cases f)
  obtain r s1 ok1 where 1: "value_publish amqp mqtt env cam payload s = Some (r, s1)"
    and 2: "publish_frames (value_publish amqp mqtt) dest jobs s1 = Some (ok1, s')"
    using Cons.prems f by (auto split: option.splits)
  show ?case using Cons.IH [OF 2] 1 by (auto elim!: value_publish_cases)
qed simp

lemma written_of_value:
  "(case fst s of AMQPPublisher p \<Rightarrow> False | MQTTPublisher p \<Rightarrow> True) = uses_mqtt cfg \<Longrightarrow>
   value_written alog mlog s = broker_written alog mlog cfg (snd s)"
  by (cases s; cases "fst s") (auto simp: broker_written_def)


text \<open>An MQTT broker that confirms every message but the first, which it has written all the same.\<close>

definition demo_mqtt :: "(message list \<times> mqtt_message list) mqtt_api" where
  "demo_mqtt = \<lparr>mq_connect = (\<lambda>opts w. (Some (True, None), w)),
     mq_publish = (\<lambda>m w. (Some (True, if snd w = [] then Some (errorf ''connection lost'') else None), (fst w, snd w @ [m]))),
     mq_disconnect = (\<lambda>n w. w)\<rparr>"

definition demo_amqp :: "(unit, unit, message list \<times> mqtt_message list) amqp_api" where
  "demo_amqp = \<lparr>amqp_dial = (\<lambda>u w. (Inr (), w)), amqp_channel = (\<lambda>c w. (Inr (), w)),
     amqp_declare = (\<lambda>h x w. (None, w)), amqp_publish = (\<lambda>h m w. (None, (fst w @ [m], snd w))),
     amqp_close_channel = (\<lambda>h w. (None, w)), amqp_close_conn = (\<lambda>c w. (None, w))\<rparr>"

lemma demo_brokers_laws: "amqp_laws demo_amqp fst \<and> mqtt_laws demo_mqtt snd (\<lambda>_. {})"
  by (auto simp: amqp_laws_def mqtt_laws_def demo_amqp_def demo_mqtt_def split: if_splits)

definition mqtt_config_demo :: config where
  "mqtt_config_demo = demo_config\<lparr>cg_Protocol := ''mqtt'', cg_MQTT := \<lparr>mt_Broker = ''tcp://broker:1883'', mt_TopicPrefix = ''cams/''\<rparr>\<rparr>"

abbreviation demo_jobs :: "(publish_env \<times> string \<times> byte list) list" where
  "demo_jobs \<equiv> [((\<lambda>_. None, \<lambda>_. 0), ''a'', [1]), ((\<lambda>_. None, \<lambda>_. 0), ''b'', [2])]"

lemma demo_main_publisher:
  "main_publisher demo_amqp demo_mqtt mqtt_config_demo ([], []) = Some (Inr (MQTTPublisher \<lparr>mqp_topicPrefix = ''cams/''\<rparr>), ([], []))"
  by (simp add: main_publisher_def mqtt_config_demo_def uses_mqtt_def new_mqtt_publisher_def demo_mqtt_def)


end
