(* ===== verification/JobV1.thy ===== *)
theory JobV1
  imports Publishers
begin

section \<open>The jobs of the first version\<close>

text \<open>
  \<open>FrameProcessJob.Process\<close> of \<open>pkg/camera/camera.go\<close> on the components \<open>main\<close> gives it: the publisher, the
  Redis store and the metadata publisher.  The workers process many jobs at once; a step is a call
  of one component by one of them, so that the calls of all jobs interleave.  A call that does not
  return or panics (\<open>None\<close>) makes no step.  The sequence of saves and the announcements are recorded.
\<close>

record ('c, 'h, 'w, 'r) job_api =
  ja_amqp :: "('c, 'h, 'w) amqp_api"
  ja_mqtt :: "'w mqtt_api"
  ja_redis :: "'r redis_api"
  ja_json :: "('h, 'w) json_publish"

datatype job_pc = JPublish frame | JSave frame | JAnnounce frame string | JDone frame "goerr option"

record ('c, 'h, 'w, 'r) job_sys =
  jy_pub :: "('c, 'h) publisher_value"
  jy_broker :: 'w
  jy_store :: "'r redis_store"
  jy_jobs :: "job_pc list"
  jy_saves :: "(string \<times> time \<times> byte list) list"
  jy_announced :: "(string \<times> string \<times> byte list) list"

fun job_action :: "('c, 'h, 'w, 'r) job_api \<Rightarrow> 'h metadata_publisher \<Rightarrow> publish_env \<Rightarrow> job_pc
    \<Rightarrow> ('c, 'h, 'w, 'r) job_sys \<Rightarrow> (job_pc \<times> ('c, 'h, 'w, 'r) job_sys) option" where
  "job_action api meta env (JPublish f) s =
     (case value_publish (ja_amqp api) (ja_mqtt api) env (fr_CameraID f) (fr_Data f) (jy_pub s, jy_broker s) of
        None \<Rightarrow> None
      | Some (e, v, w) \<Rightarrow> Some (
          if e \<noteq> None then JDone f e else if rs_enabled (jy_store s) then JSave f else JDone f None,
          s\<lparr>jy_pub := v, jy_broker := w\<rparr>))"
| "job_action api meta env (JSave f) s =
     (case save_frame (ja_redis api) (fr_CameraID f) (fr_Timestamp f) (fr_Data f) (jy_store s) of (res, r) \<Rightarrow>
        Some (case res of Inl e \<Rightarrow> JDone f (Some e)
            | Inr key \<Rightarrow> if mp_enabled meta then JAnnounce f key else JDone f None,
          s\<lparr>jy_store := r, jy_saves := jy_saves s @ [(fr_CameraID f, fr_Timestamp f, fr_Data f)]\<rparr>))"
| "job_action api meta env (JAnnounce f key) s =
     (case publish_metadata (ja_json api) (fr_CameraID f) (fr_Timestamp f) key 1280 720 (int (length (fr_Data f)))
         ''jpeg'' meta (jy_broker s) of
        None \<Rightarrow> None
      | Some (e, w) \<Rightarrow> Some (JDone f e,
          s\<lparr>jy_broker := w, jy_announced := jy_announced s @ [(fr_CameraID f, key, fr_Data f)]\<rparr>))"
| "job_action api meta env (JDone f e) s = None"

inductive job_step :: "('c, 'h, 'w, 'r) job_api \<Rightarrow> 'h metadata_publisher \<Rightarrow> ('c, 'h, 'w, 'r) job_sys
    \<Rightarrow> ('c, 'h, 'w, 'r) job_sys \<Rightarrow> bool" for api meta where
  taken: "job_step api meta s (s\<lparr>jy_jobs := jy_jobs s @ [JPublish f]\<rparr>)"
| acts: "i < length (jy_jobs s) \<Longrightarrow> job_action api meta env (jy_jobs s ! i) s = Some (pc, s') \<Longrightarrow>
    job_step api meta s (s'\<lparr>jy_jobs := (jy_jobs s)[i := pc]\<rparr>)"

definition job_start :: "('c, 'h) publisher_value \<Rightarrow> 'w \<Rightarrow> 'r redis_store \<Rightarrow> ('c, 'h, 'w, 'r) job_sys" where
  "job_start v w r = \<lparr>jy_pub = v, jy_broker = w, jy_store = r, jy_jobs = [], jy_saves = [], jy_announced = []\<rparr>"

subsection \<open>The job as a sequence of calls\<close>

text \<open>
  The steps of one job end as \<open>process_steps\<close> says for the answers its calls got.
\<close>

fun job_run :: "('c, 'h, 'w, 'r) job_api \<Rightarrow> 'h metadata_publisher \<Rightarrow> publish_env \<Rightarrow> nat \<Rightarrow> job_pc
    \<Rightarrow> ('c, 'h, 'w, 'r) job_sys \<Rightarrow> goerr option option" where
  "job_run api meta env n (JDone f e) s = Some e"
| "job_run api meta env 0 pc s = None"
| "job_run api meta env (Suc n) pc s = (case job_action api meta env pc s of
     None \<Rightarrow> None | Some (pc', s') \<Rightarrow> job_run api meta env n pc' s')"

lemma job_run_steps:
  assumes "job_run api meta env 3 (JPublish f) s = Some e"
  shows "\<exists>ou. ou_redis_enabled ou = rs_enabled (jy_store s) \<and> ou_meta_enabled ou = mp_enabled meta
    \<and> e = fst (process_steps ou f)"
proof -
  obtain r v w where p: "value_publish (ja_amqp api) (ja_mqtt api) env (fr_CameraID f) (fr_Data f) (jy_pub s, jy_broker s)
      = Some (r, v, w)"
    using assms by (auto simp: numeral_3_eq_3 split: option.splits)
  obtain res st where sv: "save_frame (ja_redis api) (fr_CameraID f) (fr_Timestamp f) (fr_Data f) (jy_store s) = (res, st)"
    by (rule prod.exhaust)
  let ?a = "\<lambda>key. publish_metadata (ja_json api) (fr_CameraID f) (fr_Timestamp f) key 1280 720
      (int (length (fr_Data f))) ''jpeg'' meta w"
  let ?ou = "\<lparr>ou_publish = r, ou_redis_enabled = rs_enabled (jy_store s), ou_save = res, ou_meta_enabled = mp_enabled meta,
      ou_announce = (case res of Inr key \<Rightarrow> (case ?a key of Some (x, _) \<Rightarrow> x | None \<Rightarrow> None) | _ \<Rightarrow> None)\<rparr>"
  have "e = fst (process_steps ?ou f)"
    using assms p sv by (auto simp: numeral_3_eq_3 process_steps_def Let_def split: option.splits sum.splits if_splits)
  then show ?thesis by (intro exI [of _ ?ou]) simp
qed

subsection \<open>What is announced can be fetched\<close>

text \<open>The metadata travel on the same connections: publishing them writes no frame.\<close>

definition json_laws :: "('h, 'w) json_publish \<Rightarrow> ('w \<Rightarrow> message list) \<Rightarrow> ('w \<Rightarrow> mqtt_message list) \<Rightarrow> bool" where
  "json_laws json alog mlog \<longleftrightarrow> (\<forall>h m w. alog (snd (json h m w)) = alog w \<and> mlog (snd (json h m w)) = mlog w)"

text \<open>A key is good for a frame's bytes when one of the saves so far has returned it for them.\<close>

definition saved_as :: "'r redis_api \<Rightarrow> 'r redis_store \<Rightarrow> (string \<times> time \<times> byte list) list \<Rightarrow> string \<Rightarrow> byte list \<Rightarrow> bool" where
  "saved_as redis r0 fs key data \<longleftrightarrow> (\<exists>i < length fs. fst (save_all redis fs r0) ! i = Inr key \<and> snd (snd (fs ! i)) = data)"

lemma save_all_snoc:
  "save_all redis (fs @ [(cam, ts, d)]) r =
     (fst (save_all redis fs r) @ [fst (save_frame redis cam ts d (snd (save_all redis fs r)))],
      snd (save_frame redis cam ts d (snd (save_all redis fs r))))"
  by (induction fs arbitrary: r) (auto simp: case_prod_beta)

lemma length_save_all: "length (fst (save_all redis fs r)) = length fs"
  by (induction fs arbitrary: r) (auto simp: case_prod_beta)

lemma saved_as_mono: "saved_as redis r0 fs key d \<Longrightarrow> saved_as redis r0 (fs @ [f]) key d"
  unfolding saved_as_def by (cases f) (force simp: save_all_snoc nth_append length_save_all)

lemma saved_as_new:
  assumes "fst (save_frame redis cam ts d (snd (save_all redis fs r0))) = Inr key"
  shows "saved_as redis r0 (fs @ [(cam, ts, d)]) key d"
  unfolding saved_as_def using assms
  by (intro exI [of _ "length fs"]) (simp add: save_all_snoc nth_append length_save_all)

lemma saved_as_stored:
  assumes "redis_laws redis value" and "ready r0" and "length fs \<le> 99999" and "saved_as redis r0 fs key d"
  shows "stored value key (snd (save_all redis fs r0)) = Some d"
proof -
  obtain i where i: "i < length fs" "fst (save_all redis fs r0) ! i = Inr key" "snd (snd (fs ! i)) = d"
    using assms(4) by (auto simp: saved_as_def)
  have "distinct (trace kg_step (rs_keyGenerator r0) (key_calls fs))"
    using assms(2,3) by (intro keys_distinct [of "kg_config (rs_keyGenerator r0)"]) (auto simp: ready_def key_calls_def)
  from save_all_kept [OF assms(1,2) _ this i(1,2)] show ?thesis using i(3) by (metis prod.collapse)
qed

text \<open>What has happened to a frame at each place of its job.\<close>

definition job_claims :: "(string \<Rightarrow> byte list \<Rightarrow> bool) \<Rightarrow> (string \<Rightarrow> byte list \<Rightarrow> bool) \<Rightarrow> job_pc \<Rightarrow> bool" where
  "job_claims published saved pc = (case pc of
     JPublish f \<Rightarrow> True
   | JSave f \<Rightarrow> published (fr_CameraID f) (fr_Data f)
   | JAnnounce f key \<Rightarrow> published (fr_CameraID f) (fr_Data f) \<and> saved key (fr_Data f)
   | JDone f e \<Rightarrow> True)"

definition announcement_claims :: "(string \<Rightarrow> byte list \<Rightarrow> bool) \<Rightarrow> (string \<Rightarrow> byte list \<Rightarrow> bool)
    \<Rightarrow> string \<times> string \<times> byte list \<Rightarrow> bool" where
  "announcement_claims published saved a = (case a of (cam, key, data) \<Rightarrow> published cam data \<and> saved key data)"

definition jobs_inv :: "'r redis_api \<Rightarrow> 'r redis_store \<Rightarrow> ('w \<Rightarrow> message list) \<Rightarrow> ('w \<Rightarrow> mqtt_message list)
    \<Rightarrow> (string \<Rightarrow> string) \<Rightarrow> ('c, 'h, 'w, 'r) job_sys \<Rightarrow> bool" where
  "jobs_inv redis r0 alog mlog dest s \<longleftrightarrow>
     jy_store s = snd (save_all redis (jy_saves s) r0) \<and> value_dest (jy_pub s, jy_broker s) = dest
   \<and> (let published = (\<lambda>cam data. (dest cam, data) \<in> set (value_written alog mlog (jy_pub s, jy_broker s)));
          saved = saved_as redis r0 (jy_saves s) in
        list_all (job_claims published saved) (jy_jobs s)
      \<and> list_all (announcement_claims published saved) (jy_announced s))"

lemma claims_mono:
  assumes "\<And>c d. p c d \<Longrightarrow> p' c d" and "\<And>k d. q k d \<Longrightarrow> q' k d"
  shows "list_all (job_claims p q) js \<Longrightarrow> list_all (job_claims p' q') js"
    and "list_all (announcement_claims p q) as \<Longrightarrow> list_all (announcement_claims p' q') as"
  using assms by (auto simp: list_all_iff job_claims_def announcement_claims_def split: job_pc.splits)

lemma list_all_update: "list_all P xs \<Longrightarrow> P x \<Longrightarrow> list_all P (xs[i := x])"
  using set_update_subset_insert [of xs i x] by (auto simp: list_all_iff)

lemma jobs_inv_publish:
  assumes "amqp_laws (ja_amqp api) alog \<and> mqtt_laws (ja_mqtt api) mlog kept"
    and "jobs_inv (ja_redis api) r0 alog mlog dest s" and "jy_jobs s ! i = JPublish f"
    and "job_action api meta env (JPublish f) s = Some (pc, s')"
  shows "jobs_inv (ja_redis api) r0 alog mlog dest (s'\<lparr>jy_jobs := (jy_jobs s)[i := pc]\<rparr>)"
proof -
  obtain e v w where p: "value_publish (ja_amqp api) (ja_mqtt api) env (fr_CameraID f) (fr_Data f) (jy_pub s, jy_broker s)
      = Some (e, v, w)" and s': "s' = s\<lparr>jy_pub := v, jy_broker := w\<rparr>"
    and pc: "pc = (if e \<noteq> None then JDone f e else if rs_enabled (jy_store s) then JSave f else JDone f None)"
    using assms(4) by (auto split: option.splits)
  let ?W = "value_written alog mlog (jy_pub s, jy_broker s)"
  obtain ms where ms: "value_written alog mlog (v, w) = ?W @ ms"
      "e = None \<longrightarrow> (value_dest (jy_pub s, jy_broker s) (fr_CameraID f), fr_Data f) \<in> set ms"
    using pubs.send_written [OF assms(1) p] by blast
  have d: "value_dest (v, w) = dest" "value_dest (jy_pub s, jy_broker s) = dest"
    using pubs.send_dest [OF assms(1) p] assms(2) by (simp_all add: jobs_inv_def)
  let ?p = "\<lambda>cam data. (dest cam, data) \<in> set ?W" and ?q = "saved_as (ja_redis api) r0 (jy_saves s)"
  let ?p' = "\<lambda>cam data. (dest cam, data) \<in> set (value_written alog mlog (v, w))"
  have "list_all (job_claims ?p ?q) (jy_jobs s)" "list_all (announcement_claims ?p ?q) (jy_announced s)"
    using assms(2) by (simp_all add: jobs_inv_def Let_def)
  then have "list_all (job_claims ?p' ?q) (jy_jobs s)" "list_all (announcement_claims ?p' ?q) (jy_announced s)"
    using claims_mono [of ?p ?p' ?q ?q] ms(1) by simp_all
  moreover have "job_claims ?p' ?q pc" using pc ms d(2) by (simp add: job_claims_def)
  ultimately show ?thesis using assms(2) d(1) s'
    by (simp add: jobs_inv_def Let_def list_all_update)
qed

lemma jobs_inv_save:
  assumes "jobs_inv (ja_redis api) r0 alog mlog dest s" and "i < length (jy_jobs s)" and "jy_jobs s ! i = JSave f"
    and "job_action api meta env (JSave f) s = Some (pc, s')"
  shows "jobs_inv (ja_redis api) r0 alog mlog dest (s'\<lparr>jy_jobs := (jy_jobs s)[i := pc]\<rparr>)"
proof -
  let ?call = "(fr_CameraID f, fr_Timestamp f, fr_Data f)"
  have st: "jy_store s = snd (save_all (ja_redis api) (jy_saves s) r0)" using assms(1) by (simp add: jobs_inv_def)
  obtain res r where sv: "save_frame (ja_redis api) (fr_CameraID f) (fr_Timestamp f) (fr_Data f) (jy_store s) = (res, r)"
    by (rule prod.exhaust)
  have s': "s' = s\<lparr>jy_store := r, jy_saves := jy_saves s @ [?call]\<rparr>"
    and pc: "pc = (case res of Inl e \<Rightarrow> JDone f (Some e)
      | Inr key \<Rightarrow> if mp_enabled meta then JAnnounce f key else JDone f None)"
    using assms(4) sv by simp_all
  let ?p = "\<lambda>cam data. (dest cam, data) \<in> set (value_written alog mlog (jy_pub s, jy_broker s))"
  let ?q = "saved_as (ja_redis api) r0 (jy_saves s)" and ?q' = "saved_as (ja_redis api) r0 (jy_saves s @ [?call])"
  have all: "list_all (job_claims ?p ?q) (jy_jobs s)" "list_all (announcement_claims ?p ?q) (jy_announced s)"
    using assms(1) by (simp_all add: jobs_inv_def Let_def)
  then have "list_all (job_claims ?p ?q') (jy_jobs s)" "list_all (announcement_claims ?p ?q') (jy_announced s)"
    using claims_mono [of ?p ?p ?q ?q'] saved_as_mono by blast+
  moreover have "?p (fr_CameraID f) (fr_Data f)"
    using all(1) assms(2,3) by (force simp: list_all_length job_claims_def)
  then have "job_claims ?p ?q' pc"
    using pc sv saved_as_new [of "ja_redis api" "fr_CameraID f" "fr_Timestamp f" "fr_Data f" "jy_saves s" r0]
    by (auto simp: job_claims_def st split: sum.splits)
  moreover have "r = snd (save_all (ja_redis api) (jy_saves s @ [?call]) r0)"
    using sv by (simp add: save_all_snoc flip: st)
  ultimately show ?thesis using assms(1) s' by (simp add: jobs_inv_def Let_def list_all_update)
qed

lemma jobs_inv_announce:
  assumes "json_laws (ja_json api) alog mlog"
    and "jobs_inv (ja_redis api) r0 alog mlog dest s" and "i < length (jy_jobs s)" and "jy_jobs s ! i = JAnnounce f key"
    and "job_action api meta env (JAnnounce f key) s = Some (pc, s')"
  shows "jobs_inv (ja_redis api) r0 alog mlog dest (s'\<lparr>jy_jobs := (jy_jobs s)[i := pc]\<rparr>)"
proof -
  obtain e w where p: "publish_metadata (ja_json api) (fr_CameraID f) (fr_Timestamp f) key 1280 720
      (int (length (fr_Data f))) ''jpeg'' meta (jy_broker s) = Some (e, w)"
    and s': "s' = s\<lparr>jy_broker := w, jy_announced := jy_announced s @ [(fr_CameraID f, key, fr_Data f)]\<rparr>" and pc: "pc = JDone f e"
    using assms(5) by (auto split: option.splits)
  have "alog w = alog (jy_broker s)" "mlog w = mlog (jy_broker s)"
    using p assms(1) unfolding publish_metadata_def publish_json_def json_laws_def
    by (auto split: if_splits option.splits) (metis snd_conv)+
  then have same: "value_written alog mlog (jy_pub s, w) = value_written alog mlog (jy_pub s, jy_broker s)"
      "value_dest (jy_pub s, w) = value_dest (jy_pub s, jy_broker s)"
    by (cases "jy_pub s"; auto simp: fun_eq_iff)+
  let ?p = "\<lambda>cam data. (dest cam, data) \<in> set (value_written alog mlog (jy_pub s, jy_broker s))"
  let ?q = "saved_as (ja_redis api) r0 (jy_saves s)"
  have all: "list_all (job_claims ?p ?q) (jy_jobs s)" "list_all (announcement_claims ?p ?q) (jy_announced s)"
    using assms(2) by (simp_all add: jobs_inv_def Let_def)
  moreover have "announcement_claims ?p ?q (fr_CameraID f, key, fr_Data f)"
    using all(1) assms(3,4) by (force simp: list_all_length job_claims_def announcement_claims_def)
  moreover have "job_claims ?p ?q pc" by (simp add: pc job_claims_def)
  ultimately show ?thesis using assms(2) same s' by (simp add: jobs_inv_def Let_def list_all_update)
qed

lemma jobs_inv_step:
  assumes "amqp_laws (ja_amqp api) alog \<and> mqtt_laws (ja_mqtt api) mlog kept" and "json_laws (ja_json api) alog mlog"
    and "job_step api meta s s'" and "jobs_inv (ja_redis api) r0 alog mlog dest s"
  shows "jobs_inv (ja_redis api) r0 alog mlog dest s'"
  using assms(3)
proof cases
  case (taken f)
  then show ?thesis using assms(4) by (simp add: jobs_inv_def Let_def job_claims_def)
next
  case (acts i env pc t)
  show ?thesis
  proof (cases "jy_jobs s ! i")
    case (JPublish f)
    then show ?thesis using jobs_inv_publish [OF assms(1,4) JPublish] acts(3) by (simp add: acts(1))
  next
    case (JSave f)
    then show ?thesis using jobs_inv_save [OF assms(4) acts(2) JSave] acts(3) by (simp add: acts(1))
  next
    case (JAnnounce f key)
    then show ?thesis using jobs_inv_announce [OF assms(2,4) acts(2) JAnnounce] acts(3) by (simp add: acts(1))
  next
    case (JDone f e)
    then show ?thesis using acts(3) by simp
  qed
qed

lemma jobs_inv_run:
  assumes "(job_step api meta)\<^sup>*\<^sup>* s s'" and "jobs_inv (ja_redis api) r0 alog mlog dest s"
    and "amqp_laws (ja_amqp api) alog \<and> mqtt_laws (ja_mqtt api) mlog kept" and "json_laws (ja_json api) alog mlog"
  shows "jobs_inv (ja_redis api) r0 alog mlog dest s'"
  using assms(1,2) by (induction) (blast intro: jobs_inv_step [OF assms(3,4)])+


text \<open>A frame through all its steps, with one connection error of Redis.\<close>

definition demo_job_api :: "(unit, unit, message list \<times> mqtt_message list, nat \<times> (string \<rightharpoonup> byte list)) job_api" where
  "demo_job_api = \<lparr>ja_amqp = demo_amqp, ja_mqtt = demo_mqtt, ja_redis = memory_redis, ja_json = (\<lambda>h m w. (None, w))\<rparr>"

lemma demo_job_laws:
  "amqp_laws (ja_amqp demo_job_api) fst \<and> mqtt_laws (ja_mqtt demo_job_api) snd (\<lambda>_. {})"
  "json_laws (ja_json demo_job_api) fst snd" "redis_laws (ja_redis demo_job_api) (\<lambda>k w. snd w k)"
  using demo_brokers_laws memory_redis_laws by (simp_all add: demo_job_api_def json_laws_def)

abbreviation demo_redis_store :: "(nat \<times> (string \<rightharpoonup> byte list)) redis_store" where
  "demo_redis_store \<equiv> new_redis_store (1, Map.empty) 60 ''frames'' ''client'' True"

abbreviation demo_job_start :: "(unit, unit, message list \<times> mqtt_message list, nat \<times> (string \<rightharpoonup> byte list)) job_sys" where
  "demo_job_start \<equiv> job_start (AMQPPublisher demo_publisher) ([], []) demo_redis_store"

lemma demo_job_runs:
  "\<exists>s key. (job_step demo_job_api demo_meta)\<^sup>*\<^sup>* demo_job_start s \<and> length (jy_saves s) = 1
    \<and> jy_announced s = [(''cam1'', key, [7])]"
proof -
  let ?f = "\<lparr>fr_CameraID = ''cam1'', fr_Data = [7], fr_Timestamp = 5, fr_Release = None\<rparr> :: frame"
  let ?env = "(\<lambda>_. None, \<lambda>_. 0) :: publish_env"
  let ?s0 = demo_job_start
  let ?s1 = "?s0\<lparr>jy_jobs := [JPublish ?f]\<rparr>"
  have 1: "job_step demo_job_api demo_meta ?s0 ?s1"
    using taken [of demo_job_api demo_meta ?s0 ?f] by (simp add: job_start_def)
  obtain w where "value_publish demo_amqp demo_mqtt ?env ''cam1'' [7] (AMQPPublisher demo_publisher, ([], []))
      = Some (None, AMQPPublisher demo_publisher, w)"
    by (simp add: publish_def numeral_2_eq_2 ensure_channel_def demo_publisher_def Publishers.demo_amqp_def)
  moreover have "rs_enabled demo_redis_store" by (simp add: new_redis_store_def Let_def)
  ultimately have "job_action demo_job_api demo_meta ?env (JPublish ?f) ?s1
      = Some (JSave ?f, ?s1\<lparr>jy_broker := w\<rparr>)"
    by (simp add: demo_job_api_def job_start_def)
  then have 2: "job_step demo_job_api demo_meta ?s1 (?s1\<lparr>jy_broker := w, jy_jobs := [JSave ?f]\<rparr>)"
    using acts [of 0 ?s1 demo_job_api demo_meta ?env "JSave ?f" "?s1\<lparr>jy_broker := w\<rparr>"] by simp
  let ?s2 = "?s1\<lparr>jy_broker := w, jy_jobs := [JSave ?f]\<rparr>"
  have "rs_client demo_redis_store = Some (1, Map.empty)" by (simp add: new_redis_store_def Let_def)
  then obtain key r where k: "save_frame memory_redis ''cam1'' 5 [7] demo_redis_store = (Inr key, r)"
    using save_after_one_error [OF memory_store_ready] by blast
  let ?t3 = "?s2\<lparr>jy_store := r, jy_saves := [(''cam1'', 5, [7])]\<rparr>"
  have "job_action demo_job_api demo_meta ?env (JSave ?f) ?s2 = Some (JAnnounce ?f key, ?t3)"
    using k by (simp add: demo_job_api_def job_start_def demo_meta_def)
  then have 3: "job_step demo_job_api demo_meta ?s2 (?t3\<lparr>jy_jobs := [JAnnounce ?f key]\<rparr>)"
    using acts [of 0 ?s2 demo_job_api demo_meta ?env "JAnnounce ?f key" ?t3] by simp
  let ?s3 = "?t3\<lparr>jy_jobs := [JAnnounce ?f key]\<rparr>" and ?t4 = "?t3\<lparr>jy_announced := [(''cam1'', key, [7])]\<rparr>"
  have "job_action demo_job_api demo_meta ?env (JAnnounce ?f key) ?s3
      = Some (JDone ?f None, ?s3\<lparr>jy_announced := [(''cam1'', key, [7])]\<rparr>)"
    by (simp add: demo_job_api_def job_start_def demo_meta_def publish_metadata_def publish_json_def)
  then have 4: "job_step demo_job_api demo_meta ?s3
      (?s3\<lparr>jy_announced := [(''cam1'', key, [7])], jy_jobs := [JDone ?f None]\<rparr>)"
    using acts [of 0 ?s3 demo_job_api demo_meta ?env "JDone ?f None" "?s3\<lparr>jy_announced := [(''cam1'', key, [7])]\<rparr>"] by simp
  note S = rtranclp.rtrancl_into_rtrancl [of "job_step demo_job_api demo_meta"]
  let ?s4 = "?s3\<lparr>jy_announced := [(''cam1'', key, [7])], jy_jobs := [JDone ?f None]\<rparr>"
  have "(job_step demo_job_api demo_meta)\<^sup>*\<^sup>* ?s0 ?s4"
    using S [OF S [OF S [OF S [OF rtranclp.rtrancl_refl 1] 2] 3] 4] .
  moreover have "length (jy_saves ?s4) = 1" "jy_announced ?s4 = [(''cam1'', key, [7])]" by simp_all
  ultimately show ?thesis by blast
qed


end
