(* ===== verification/CameraLineV2.thy ===== *)
theory CameraLineV2
  imports MainV2
begin

section \<open>From FFmpeg to the broker in v2\<close>

text \<open>
  A camera stream with its FFmpeg processes and its publisher, as \<open>main\<close> starts them: the goroutines of
  \<open>v2/src/camera_stream.go\<close> that start and read FFmpeg, reconnect and run the publish loop, the
  goroutine each frame is published in, and the goroutines of \<open>v2/src/publisher.go\<close>.  A goroutine that
  has its frame waits for the publisher's lock; \<open>publish_call\<close> is the part of \<open>Publish\<close> up to the call of
  the library.  What the reader does with a byte is one action, as is a round of the retry loop.  A
  panic ends the process.
\<close>

definition publish_call :: "string \<Rightarrow> byte list \<Rightarrow> time \<Rightarrow> ('c, 'h, 'w) pub_sys \<Rightarrow> ('c, 'h, 'w) pub_sys option" where
  "publish_call cam frame start s =
     (if ps_slot s \<noteq> PubIdle then None
      else case publish_begin cam frame start (ps_pub s) of
        (Inl e, p) \<Rightarrow> Some (s\<lparr>ps_pub := p, ps_returned := ps_returned s @ [Some e]\<rparr>)
      | (Inr (Some h, m), p) \<Rightarrow> Some (s\<lparr>ps_pub := p, ps_slot := PubSending h m\<rparr>)
      | (Inr (None, m), p) \<Rightarrow> Some (s\<lparr>ps_pub := p, ps_slot := PubPanic\<rparr>))"

text \<open>An action of the publisher that is not the beginning of a call.\<close>

definition own_action :: "('c, 'h, 'w) amqp2_api \<Rightarrow> bool \<Rightarrow> ('c, 'h, 'w) pub_sys \<Rightarrow> ('c, 'h, 'w) pub_sys \<Rightarrow> bool" where
  "own_action api notify s s' \<longleftrightarrow> pub_action api notify s s'
     \<and> (ps_slot s = PubIdle \<longrightarrow> ps_slot s' = PubIdle \<and> ps_returned s' = ps_returned s)"

lemma publish_call_action: "publish_call cam frame start s = Some s' \<Longrightarrow> pub_action api notify s s'"
  by (auto simp: publish_call_def split: if_splits prod.splits sum.splits option.splits
      intro: rejected [where api = api and notify = notify] begun [where api = api and notify = notify]
        no_channel [where api = api and notify = notify])

subsection \<open>The camera: FFmpeg, its reader, the reconnection and the publish loop\<close>

text \<open>
  Every start of FFmpeg makes a process: whether it still runs, the buffer of the goroutine that reads
  it (a local variable of \<open>readFrames\<close>), and, for the proofs, what that goroutine has read.  The
  goroutines of \<open>startFFmpeg\<close>, \<open>readFrames\<close> and \<open>retryFFmpegWithBackoff\<close> stand before the start of the
  process, before the test of the context and before the read that follows it (with the number of
  their process), after the failure was recorded, in the retry loop, and before its deferred reset of
  \<open>retrying\<close>; \<open>publishLoop\<close> is before its test of the context, in the round after it, or over.
\<close>

record ffmpeg_proc =
  pr_running :: bool
  pr_frameBuffer :: "byte list"
  pr_read :: "byte list"

datatype line_pc = LnStarting | LnTesting nat | LnReading nat | LnFailed | LnRetrying | LnRetryReturning

datatype loop_pc = LoopTesting | LoopTaking | LoopOver

record cam_line =
  cl_stream :: camera_stream
  cl_threads :: "line_pc multiset"
  cl_procs :: "ffmpeg_proc list"
  cl_loop :: loop_pc

definition fresh_proc :: ffmpeg_proc where
  "fresh_proc = \<lparr>pr_running = True, pr_frameBuffer = [], pr_read = []\<rparr>"

text \<open>A byte of process \<open>p\<close> and what the reader does with it.\<close>

definition proc_byte :: "time \<Rightarrow> byte \<Rightarrow> ffmpeg_proc \<Rightarrow> camera_stream \<Rightarrow> ffmpeg_proc \<times> camera_stream" where
  "proc_byte now b p s = (let (fb, s') = read_byte now b (pr_frameBuffer p, s)
     in (p\<lparr>pr_frameBuffer := fb, pr_read := pr_read p @ [b]\<rparr>, s'))"

text \<open>
  An action of a camera, with the frames the publish loop hands to a goroutine and their start: any
  goroutine does its next atomic action, a process ends by itself (also after it was killed), or
  \<open>Stop\<close> is called.  A pipe, the start of the process and a read may fail at any time.  \<open>Start\<close> of a
  command refuses once its context is over.
\<close>

inductive cam_action :: "(duration \<Rightarrow> string) \<Rightarrow> cam_line \<Rightarrow> (byte list \<times> time) list \<Rightarrow> cam_line \<Rightarrow> bool"
  for sd where
  pipe_fails: "cl_threads c = add_mset LnStarting T \<Longrightarrow> cam_action sd c [] (c\<lparr>cl_threads := T\<rparr>)"
| start_fails: "cl_threads c = add_mset LnStarting T \<Longrightarrow>
    cam_action sd c [] (c\<lparr>cl_stream := record_stream_failure sd ta tr err (cl_stream c), cl_threads := add_mset LnFailed T\<rparr>)"
| starts: "cl_threads c = add_mset LnStarting T \<Longrightarrow> \<not> sm_cancelled (cl_stream c) \<Longrightarrow>
    cam_action sd c [] (c\<lparr>cl_threads := add_mset (LnTesting (length (cl_procs c))) T, cl_procs := cl_procs c @ [fresh_proc]\<rparr>)"
| reader_stops: "cl_threads c = add_mset (LnTesting i) T \<Longrightarrow> sm_cancelled (cl_stream c) \<Longrightarrow>
    cam_action sd c [] (c\<lparr>cl_threads := T\<rparr>)"
| reader_goes_on: "cl_threads c = add_mset (LnTesting i) T \<Longrightarrow> \<not> sm_cancelled (cl_stream c) \<Longrightarrow>
    cam_action sd c [] (c\<lparr>cl_threads := add_mset (LnReading i) T\<rparr>)"
| reads_byte: "cl_threads c = add_mset (LnReading i) T \<Longrightarrow> i < length (cl_procs c) \<Longrightarrow>
    proc_byte now b (cl_procs c ! i) (cl_stream c) = (p, s) \<Longrightarrow>
    cam_action sd c [] (c\<lparr>cl_stream := s, cl_threads := add_mset (LnTesting i) T, cl_procs := (cl_procs c)[i := p]\<rparr>)"
| read_fails: "cl_threads c = add_mset (LnReading i) T \<Longrightarrow> \<not> sm_cancelled (cl_stream c) \<Longrightarrow>
    cam_action sd c [] (c\<lparr>cl_stream := record_stream_failure sd ta tr err (cl_stream c), cl_threads := add_mset LnFailed T\<rparr>)"
| read_ends: "cl_threads c = add_mset (LnReading i) T \<Longrightarrow> sm_cancelled (cl_stream c) \<Longrightarrow>
    cam_action sd c [] (c\<lparr>cl_threads := T\<rparr>)"
| schedules: "cl_threads c = add_mset LnFailed T \<Longrightarrow> \<not> sm_retrying (cl_stream c) \<Longrightarrow>
    cam_action sd c [] (c\<lparr>cl_stream := (cl_stream c)\<lparr>sm_retrying := True\<rparr>, cl_threads := add_mset LnRetrying T\<rparr>)"
| already_retrying: "cl_threads c = add_mset LnFailed T \<Longrightarrow> sm_retrying (cl_stream c) \<Longrightarrow>
    cam_action sd c [] (c\<lparr>cl_threads := T\<rparr>)"
| retry_cancelled: "cl_threads c = add_mset LnRetrying T \<Longrightarrow> retry_round now (cl_stream c) = RetryReturn \<Longrightarrow>
    cam_action sd c [] (c\<lparr>cl_threads := add_mset LnRetryReturning T\<rparr>)"
| retry_again: "cl_threads c = add_mset LnRetrying T \<Longrightarrow> retry_round now (cl_stream c) = RetryAgain d \<Longrightarrow>
    cam_action sd c [] c"
| retry_starts: "cl_threads c = add_mset LnRetrying T \<Longrightarrow> retry_round now (cl_stream c) = RetryStart \<Longrightarrow>
    cam_action sd c [] (c\<lparr>cl_threads := add_mset LnStarting (add_mset LnRetryReturning T)\<rparr>)"
| retry_done: "cl_threads c = add_mset LnRetryReturning T \<Longrightarrow>
    cam_action sd c [] (c\<lparr>cl_stream := (cl_stream c)\<lparr>sm_retrying := False\<rparr>, cl_threads := T\<rparr>)"
| proc_exits: "i < length (cl_procs c) \<Longrightarrow>
    cam_action sd c [] (c\<lparr>cl_procs := (cl_procs c)[i := (cl_procs c ! i)\<lparr>pr_running := False\<rparr>]\<rparr>)"
| loop_ends: "cl_loop c = LoopTesting \<Longrightarrow> sm_cancelled (cl_stream c) \<Longrightarrow> cam_action sd c [] (c\<lparr>cl_loop := LoopOver\<rparr>)"
| loop_goes_on: "cl_loop c = LoopTesting \<Longrightarrow> \<not> sm_cancelled (cl_stream c) \<Longrightarrow>
    cam_action sd c [] (c\<lparr>cl_loop := LoopTaking\<rparr>)"
| takes_nothing: "cl_loop c = LoopTaking \<Longrightarrow> publish_take now (cl_stream c) = (None, s) \<Longrightarrow>
    cam_action sd c [] (c\<lparr>cl_stream := s, cl_loop := LoopTesting\<rparr>)"
| takes: "cl_loop c = LoopTaking \<Longrightarrow> publish_take now (cl_stream c) = (Some (frame, n, start), s) \<Longrightarrow>
    cam_action sd c [(frame, start)] (c\<lparr>cl_stream := s, cl_loop := LoopTesting\<rparr>)"
| stops: "cam_action sd c [] (c\<lparr>cl_stream := stop_stream (cl_stream c)\<rparr>)"

text \<open>\<open>Start\<close>: its two goroutines, unless the stream was started before.\<close>

definition cam_start :: "camera_stream \<Rightarrow> cam_line" where
  "cam_start s = (let (started, s') = start_stream s in
     \<lparr>cl_stream = s', cl_threads = (if started then {#LnStarting#} else {#}), cl_procs = [],
      cl_loop = (if started then LoopTesting else LoopOver)\<rparr>)"

subsection \<open>The camera with its publisher\<close>

text \<open>
  The goroutines the frames were handed to and that have not called \<open>Publish\<close> yet (they may do so in
  any order), and, for the proofs, all frames handed over so far, with their start.
\<close>

record ('c, 'h, 'w) line_sys =
  ln_cam :: cam_line
  ln_flying :: "(byte list \<times> time) multiset"
  ln_pub :: "('c, 'h, 'w) pub_sys"
  ln_taken :: "(byte list \<times> time) list"

inductive line_action :: "('c, 'h, 'w) amqp2_api \<Rightarrow> bool \<Rightarrow> (duration \<Rightarrow> string)
    \<Rightarrow> ('c, 'h, 'w) line_sys \<Rightarrow> ('c, 'h, 'w) line_sys \<Rightarrow> bool" for api notify sd where
  cams: "ps_slot (ln_pub l) \<noteq> PubPanic \<Longrightarrow> cam_action sd (ln_cam l) fts c \<Longrightarrow>
    line_action api notify sd l (l\<lparr>ln_cam := c, ln_flying := ln_flying l + mset fts, ln_taken := ln_taken l @ fts\<rparr>)"
| calls: "ln_flying l = add_mset (frame, start) F \<Longrightarrow>
    publish_call (sm_ID (cl_stream (ln_cam l))) frame start (ln_pub l) = Some s' \<Longrightarrow>
    line_action api notify sd l (l\<lparr>ln_flying := F, ln_pub := s'\<rparr>)"
| works: "ps_slot (ln_pub l) \<noteq> PubPanic \<Longrightarrow> own_action api notify (ln_pub l) s' \<Longrightarrow>
    line_action api notify sd l (l\<lparr>ln_pub := s'\<rparr>)"

definition line_start :: "camera_stream \<Rightarrow> ('c, 'h) publisher2 \<Rightarrow> 'w \<Rightarrow> ('c, 'h, 'w) line_sys" where
  "line_start s p w = \<lparr>ln_cam = cam_start s, ln_flying = {#}, ln_pub = pub_start p w, ln_taken = []\<rparr>"

subsection \<open>What the publisher holds\<close>

fun sending :: "'h pub_slot \<Rightarrow> message2 list" where
  "sending (PubSending h m) = [m]"
| "sending _ = []"

definition given :: "('c, 'h, 'w) pub_sys \<Rightarrow> message2 list" where
  "given s = map fst (ps_sent s) @ sending (ps_slot s)"

lemma own_action_given: "own_action api notify s s' \<Longrightarrow> given s' = given s"
  unfolding own_action_def
proof (elim conjE)
  assume a: "pub_action api notify s s'"
    and i: "ps_slot s = PubIdle \<longrightarrow> ps_slot s' = PubIdle \<and> ps_returned s' = ps_returned s"
  show "given s' = given s"
    using a by cases (use i in \<open>auto simp: given_def\<close>)
qed

lemma publish_call_given:
  assumes "publish_call cam frame start s = Some s'"
  shows "given s' = given s \<or> (\<exists>m. given s' = given s @ [m] \<and> m2_body m = frame \<and> m2_camera_id m = cam
    \<and> m2_timestamp m = start)"
  using assms
  by (auto simp: publish_call_def publish_begin_def given_def split: if_splits option.splits)

subsection \<open>From the processes to the publish loop\<close>

text \<open>The valid images a process has delivered to its reader.\<close>

definition images_of :: "ffmpeg_proc \<Rightarrow> byte list list" where
  "images_of p = filter valid_image (fst (scan [] (pr_read p)))"

definition cam_images :: "cam_line \<Rightarrow> byte list multiset" where
  "cam_images c = mset (concat (map images_of (cl_procs c)))"

definition cam_inv :: "camera_stream \<Rightarrow> (byte list \<times> time) list \<Rightarrow> cam_line \<Rightarrow> bool" where
  "cam_inv s0 taken c \<longleftrightarrow> stream_ok (cl_stream c) \<and> sm_ID (cl_stream c) = sm_ID s0
     \<and> (\<forall>p \<in> set (cl_procs c). pr_frameBuffer p = snd (scan [] (pr_read p)))
     \<and> mset (queued (cl_stream c)) + mset (map fst taken) \<subseteq># cam_images c"

lemma scan_one: "scan fb [b] = (case scan_byte b fb of (None, fb') \<Rightarrow> ([], fb') | (Some f, fb') \<Rightarrow> ([f], fb'))"
  by (simp split: prod.split option.split)

lemma candidate_ID: "sm_ID (take_candidate now f s) = sm_ID s"
proof -
  have "sm_ID (put_buffer b s) = sm_ID s" "sm_ID (snd (get_buffer s)) = sm_ID s" for b s
    by (simp_all add: put_buffer_def get_buffer_def split: send.splits recv.splits)
  then show ?thesis by (simp add: take_candidate_def case_prod_beta Let_def split: send.splits)
qed

text \<open>A candidate image is queued as it is, or not at all.\<close>

lemma candidate_queued:
  assumes "stream_ok s"
  shows "stream_ok (take_candidate now f s)
    \<and> mset (queued (take_candidate now f s)) \<subseteq># mset (queued s) + mset (filter valid_image [f])"
proof (cases rule: take_candidate_cases [OF assms, of f now, case_names invalid queued dropped])
  case (invalid p)
  then show ?thesis by simp
next
  case (queued p)
  then show ?thesis using assms by (simp add: stream_ok_def chan_ok_def)
next
  case (dropped p)
  then show ?thesis using assms by (simp add: stream_ok_def)
qed

lemma proc_byte_images:
  assumes "proc_byte now b p s = (p', s')" and "stream_ok s" and "pr_frameBuffer p = snd (scan [] (pr_read p))"
  shows "stream_ok s' \<and> sm_ID s' = sm_ID s \<and> pr_frameBuffer p' = snd (scan [] (pr_read p'))
    \<and> (\<exists>new. images_of p' = images_of p @ new \<and> mset (queued s') \<subseteq># mset (queued s) + mset new)"
proof -
  obtain fs fb where scan: "scan [] (pr_read p) = (fs, fb)" by (rule prod.exhaust)
  then have p: "pr_frameBuffer p = fb" using assms(3) by simp
  show ?thesis
  proof (cases "ends_eoi (fb @ [b])")
    case True
    then have "s' = take_candidate now (fb @ [b]) s" "pr_frameBuffer p' = []" "pr_read p' = pr_read p @ [b]"
      using assms(1) p by (auto simp: proc_byte_def read_byte_def scan_byte_eq)
    moreover have "images_of p' = images_of p @ filter valid_image [fb @ [b]]" "snd (scan [] (pr_read p')) = []"
      using scan True calculation(3) by (simp_all add: images_of_def scan_append scan_byte_eq)
    ultimately show ?thesis using candidate_queued [OF assms(2)] candidate_ID by metis
  next
    case False
    then have "s' = s" "pr_frameBuffer p' = fb @ [b]" "pr_read p' = pr_read p @ [b]"
      using assms(1) p by (auto simp: proc_byte_def read_byte_def scan_byte_eq)
    moreover have "images_of p' = images_of p" "snd (scan [] (pr_read p')) = fb @ [b]"
      using scan False calculation(3) by (simp_all add: images_of_def scan_append scan_byte_eq)
    ultimately show ?thesis using assms(2) by simp
  qed
qed

lemma images_update:
  assumes "i < length ps" and "images_of p = images_of (ps ! i) @ new"
  shows "mset (concat (map images_of (ps[i := p]))) = mset (concat (map images_of ps)) + mset new"
proof -
  have "map images_of ps = map images_of (take i ps) @ images_of (ps ! i) # map images_of (drop (Suc i) ps)"
    by (subst id_take_nth_drop [OF assms(1)]) simp
  then show ?thesis using assms by (simp add: upd_conv_take_nth_drop)
qed

lemma cam_inv_step:
  assumes "cam_action sd c fts c'" and "cam_inv s0 taken c"
  shows "cam_inv s0 (taken @ fts) c'"
  using assms
proof cases
  case (reads_byte i T now b p s)
  let ?p = "cl_procs c ! i"
  have "pr_frameBuffer ?p = snd (scan [] (pr_read ?p))" using reads_byte(4) assms(2) by (simp add: cam_inv_def)
  then obtain new where n: "stream_ok s" "sm_ID s = sm_ID (cl_stream c)" "pr_frameBuffer p = snd (scan [] (pr_read p))"
    "images_of p = images_of ?p @ new" "mset (queued s) \<subseteq># mset (queued (cl_stream c)) + mset new"
    using proc_byte_images [OF reads_byte(5)] assms(2) by (auto simp: cam_inv_def)
  have "mset (queued s) + mset (map fst taken) \<subseteq># (mset (queued (cl_stream c)) + mset (map fst taken)) + mset new"
    using n(5) by (simp add: ac_simps subset_mset.add_mono)
  also have "\<dots> \<subseteq># cam_images c + mset new" using assms(2) by (simp add: cam_inv_def)
  also have "\<dots> = cam_images (c\<lparr>cl_procs := (cl_procs c)[i := p]\<rparr>)"
    using images_update [OF reads_byte(4) n(4)] by (simp add: cam_images_def)
  finally show ?thesis using assms(2) n(1-3) reads_byte(1,2)
    by (auto simp: cam_inv_def cam_images_def dest!: set_update_subset_insert [THEN subsetD])
next
  case (proc_exits i)
  have "images_of ((cl_procs c ! i)\<lparr>pr_running := False\<rparr>) = images_of (cl_procs c ! i) @ []" by (simp add: images_of_def)
  from images_update [OF proc_exits(3) this] show ?thesis using assms(2) proc_exits(1-3)
    by (auto simp: cam_inv_def cam_images_def dest!: set_update_subset_insert [THEN subsetD])
next
  case (takes now frame n start s)
  then have s: "queued (cl_stream c) \<noteq> []" "frame = last (queued (cl_stream c))" "queued s = []" "stream_ok s"
    "sm_ID s = sm_ID (cl_stream c)"
    using assms(2) by (auto simp: cam_inv_def publish_take_eq stream_ok_def chan_ok_def split: if_splits)
  have "frame \<in># mset (queued (cl_stream c))" using s(1,2) by simp
  then have "{#frame#} + mset (map fst taken) \<subseteq># mset (queued (cl_stream c)) + mset (map fst taken)" by simp
  also have "\<dots> \<subseteq># cam_images c" using assms(2) by (simp add: cam_inv_def)
  finally show ?thesis using assms(2) s(3-5) takes(1,2) by (simp add: cam_inv_def cam_images_def)
qed (auto simp: cam_inv_def cam_images_def images_of_def fresh_proc_def record_stream_failure_def stop_stream_def
       stream_ok_def publish_take_eq split: if_splits)

subsection \<open>Only images of the camera reach the broker\<close>

definition stamp :: "message2 \<Rightarrow> byte list \<times> time" where
  "stamp m = (m2_body m, m2_timestamp m)"

definition line_inv :: "camera_stream \<Rightarrow> string \<Rightarrow> string \<Rightarrow> ('w \<Rightarrow> message2 list) \<Rightarrow> message2 list
    \<Rightarrow> ('c, 'h, 'w) line_sys \<Rightarrow> bool" where
  "line_inv s0 x k wire base l \<longleftrightarrow> cam_inv s0 (ln_taken l) (ln_cam l)
     \<and> mset (map stamp (given (ln_pub l))) + ln_flying l \<subseteq># mset (ln_taken l)
     \<and> (\<forall>m \<in> set (given (ln_pub l)). m2_camera_id m = sm_ID s0)
     \<and> counted x k (ln_pub l) \<and> logged wire base (ln_pub l)"

lemma line_inv_calls:
  fixes api :: "('c, 'h, 'w) amqp2_api" and l :: "('c, 'h, 'w) line_sys"
  assumes "ln_flying l = add_mset (frame, start) F"
    and "publish_call (sm_ID (cl_stream (ln_cam l))) frame start (ln_pub l) = Some s'"
    and "amqp2_log_laws api wire" and "line_inv s0 x k wire base l"
  shows "line_inv s0 x k wire base (l\<lparr>ln_flying := F, ln_pub := s'\<rparr>)"
proof -
  have a: "pub_action api False (ln_pub l) s'" by (rule publish_call_action [OF assms(2)])
  have c: "counted x k s'" "logged wire base s'"
    using assms(4) counted_step [OF a] logged_step [OF assms(3) a] by (simp_all add: line_inv_def)
  have i: "cam_inv s0 (ln_taken l) (ln_cam l)" "\<forall>m \<in> set (given (ln_pub l)). m2_camera_id m = sm_ID s0"
    and q: "add_mset (frame, start) (mset (map stamp (given (ln_pub l))) + F) \<subseteq># mset (ln_taken l)"
    using assms(4) by (simp_all add: line_inv_def assms(1))
  have q': "mset (map stamp (given (ln_pub l))) + F \<subseteq># mset (ln_taken l)"
    by (rule subset_mset.trans [OF _ q]) simp
  have id: "sm_ID (cl_stream (ln_cam l)) = sm_ID s0" using i(1) by (simp add: cam_inv_def)
  have "mset (map stamp (given s')) + F \<subseteq># mset (ln_taken l) \<and> (\<forall>m \<in> set (given s'). m2_camera_id m = sm_ID s0)"
    using publish_call_given [OF assms(2)] i(2) q q' id by (auto simp: stamp_def)
  then show ?thesis using i(1) c by (simp add: line_inv_def)
qed

lemma line_inv_step:
  assumes "amqp2_log_laws api wire" and "line_action api notify sd l l'" and "line_inv s0 x k wire base l"
  shows "line_inv s0 x k wire base l'"
  using assms(2)
proof cases
  case (cams fts c)
  then show ?thesis using cam_inv_step [OF cams(3)] assms(3) by (simp add: line_inv_def flip: add.assoc)
next
  case (calls frame start F s')
  then show ?thesis using line_inv_calls [OF calls(2,3) assms(1,3)] by simp
next
  case (works s')
  then have a: "pub_action api notify (ln_pub l) s'" "given s' = given (ln_pub l)"
    using own_action_given by (auto simp: own_action_def)
  then show ?thesis using assms(3) counted_step [OF a(1)] logged_step [OF assms(1) a(1)] works(1)
    by (simp add: line_inv_def)
qed

lemma subseq_mset: "subseq xs ys \<Longrightarrow> mset xs \<subseteq># mset ys"
proof (induction rule: list_emb.induct)
  case (list_emb_Cons xs ys y)
  then show ?case using subset_mset.trans [of "mset xs" "mset ys" "mset (y # ys)"] by simp
qed simp_all

lemma line_inv_start:
  assumes "stream_ok s0" and "queued s0 = []" and "p2_publishCount p = 0" and "p2_publishErrors p = 0"
  shows "line_inv s0 (p2_exchange p) (p2_routingKey p) wire (wire w) (line_start s0 p w)"
  using assms
  by (simp add: line_inv_def line_start_def cam_start_def start_stream_def cam_inv_def cam_images_def given_def
      counted_def logged_def stream_ok_def)

text \<open>C5: Only images of the camera reach the broker: whatever the goroutines of the stream and of its
  publisher do, through failures and restarts of FFmpeg, \<open>Stop\<close> and reconnections to the broker, the
  messages written since the start carry frames that the publish loop took from the queue, each with
  the time at which that frame was taken, and no such frame is written twice; the frames taken are
  valid images, each cut from the bytes of one FFmpeg process of this camera, none taken more often
  than those processes delivered it; and every message bears the camera's ID, exchange and routing
  key.\<close>

theorem broker_gets_camera_images:
  assumes "amqp2_log_laws api wire" and "stream_ok s0" and "queued s0 = []" and "p2_publishCount p = 0" and "p2_publishErrors p = 0"
    and "(line_action api notify sd)\<^sup>*\<^sup>* (line_start s0 p w) l"
  shows "\<exists>L. wire (ps_world (ln_pub l)) = wire w @ L
    \<and> mset (map (\<lambda>m. (m2_body m, m2_timestamp m)) L) \<subseteq># mset (ln_taken l)
    \<and> mset (map fst (ln_taken l)) \<subseteq>#
        mset (concat (map (\<lambda>pr. filter valid_image (fst (scan [] (pr_read pr)))) (cl_procs (ln_cam l))))
    \<and> (\<forall>m \<in> set L. m2_camera_id m = sm_ID s0 \<and> m2_exchange m = p2_exchange p \<and> m2_routingKey m = p2_routingKey p)"
proof -
  note line_inv_start [OF assms(2-5), where w = w and wire = wire]
  with assms(6) have i: "line_inv s0 (p2_exchange p) (p2_routingKey p) wire (wire w) l"
    by (induction) (blast intro: line_inv_step [OF assms(1)])+
  then obtain L where L: "wire (ps_world (ln_pub l)) = wire w @ L" "subseq L (map fst (ps_sent (ln_pub l)))"
    by (auto simp: line_inv_def logged_def)
  let ?sent = "map fst (ps_sent (ln_pub l))"
  have "mset (map stamp L) \<subseteq># mset (map stamp ?sent)"
    using image_mset_subseteq_mono [OF subseq_mset [OF L(2)]] by (simp only: mset_map)
  also have "\<dots> \<subseteq># mset (map stamp (given (ln_pub l))) + ln_flying l"
    by (simp add: given_def add.assoc)
  also have "\<dots> \<subseteq># mset (ln_taken l)" using i by (simp add: line_inv_def)
  finally have 1: "mset (map stamp L) \<subseteq># mset (ln_taken l)" .
  have "mset (map fst (ln_taken l)) \<subseteq># mset (queued (cl_stream (ln_cam l))) + mset (map fst (ln_taken l))" by simp
  also have "\<dots> \<subseteq># cam_images (ln_cam l)" using i by (simp add: line_inv_def cam_inv_def)
  finally have 2: "mset (map fst (ln_taken l)) \<subseteq># cam_images (ln_cam l)" .
  have "set L \<subseteq> set ?sent" using set_mset_mono [OF subseq_mset [OF L(2)]] by simp
  then have sub: "m \<in> set (given (ln_pub l))" "m \<in> fst ` set (ps_sent (ln_pub l))" if "m \<in> set L" for m
    using that by (auto simp: given_def)
  have cnt: "counted (p2_exchange p) (p2_routingKey p) (ln_pub l)"
    using i unfolding line_inv_def by (elim conjE)
  have c: "\<forall>m \<in> fst ` set (ps_sent (ln_pub l)). frame_message2 (ps_pub (ln_pub l)) m"
    using cnt unfolding counted_def by (elim conjE)
  have c': "p2_exchange (ps_pub (ln_pub l)) = p2_exchange p" "p2_routingKey (ps_pub (ln_pub l)) = p2_routingKey p"
    using cnt by (simp_all add: counted_def)
  have g: "\<forall>m \<in> set (given (ln_pub l)). m2_camera_id m = sm_ID s0"
    using i unfolding line_inv_def by (elim conjE)
  have "m2_camera_id m = sm_ID s0 \<and> m2_exchange m = p2_exchange p \<and> m2_routingKey m = p2_routingKey p"
    if "m \<in> set L" for m
    using bspec [OF c sub(2) [OF that]] c' bspec [OF g sub(1) [OF that]] by (simp add: frame_message2_def)
  then show ?thesis using L(1) 1 2
    unfolding stamp_def cam_images_def images_of_def by blast
qed

subsection \<open>One reader at a time, and no more processes than failures allow\<close>

text \<open>The camera seen by the model of the reconnection, which knows no processes.\<close>

fun pc_of :: "line_pc \<Rightarrow> stream_pc" where
  "pc_of LnStarting = Starting"
| "pc_of (LnTesting i) = Reading"
| "pc_of (LnReading i) = Reading"
| "pc_of LnFailed = Failed"
| "pc_of LnRetrying = Retrying"
| "pc_of LnRetryReturning = RetryReturning"

definition cam_abs :: "cam_line \<Rightarrow> camera_stream \<times> stream_pc multiset" where
  "cam_abs c = (cl_stream c, image_mset pc_of (cl_threads c))"

lemma proc_byte_stream:
  "proc_byte now b p s = (p', s') \<Longrightarrow> s' = s \<or> (\<exists>f. s' = take_candidate now f s)"
  by (auto simp: proc_byte_def read_byte_def split: prod.splits option.splits)

lemma cam_action_refines:
  assumes "cam_action sd c fts c'"
  shows "cam_abs c' = cam_abs c \<or> stream_sys_step sd (cam_abs c) (cam_abs c')"
  using assms
proof cases
  case (pipe_fails T)
  then show ?thesis using stream_sys_step.pipe_error by (simp add: cam_abs_def)
next
  case (start_fails T ta tr err)
  then show ?thesis using stream_sys_step.start_error by (simp add: cam_abs_def)
next
  case (starts T)
  then show ?thesis using stream_sys_step.started by (simp add: cam_abs_def)
next
  case (reader_stops i T)
  then show ?thesis using stream_sys_step.reader_stops by (simp add: cam_abs_def)
next
  case (reads_byte i T now b p s)
  then show ?thesis using proc_byte_stream [OF reads_byte(5)] stream_sys_step.image by (fastforce simp: cam_abs_def)
next
  case (read_fails i T ta tr err)
  then show ?thesis using stream_sys_step.read_error by (simp add: cam_abs_def)
next
  case (read_ends i T)
  then show ?thesis using stream_sys_step.reader_stops by (simp add: cam_abs_def)
next
  case (schedules T)
  then show ?thesis using stream_sys_step.schedule by (simp add: cam_abs_def)
next
  case (already_retrying T)
  then show ?thesis using stream_sys_step.already_retrying by (simp add: cam_abs_def)
next
  case (retry_cancelled T now)
  then show ?thesis using stream_sys_step.retry_cancelled by (simp add: cam_abs_def)
next
  case (retry_starts T now)
  then show ?thesis using stream_sys_step.retry_start by (simp add: cam_abs_def)
next
  case (retry_done T)
  then show ?thesis using stream_sys_step.retry_done by (simp add: cam_abs_def)
next
  case (takes_nothing now s)
  then show ?thesis using stream_sys_step.publish [of sd "cl_stream c" _ now] by (simp add: cam_abs_def)
next
  case (takes now frame n start s)
  then show ?thesis using stream_sys_step.publish [of sd "cl_stream c" _ now] by (simp add: cam_abs_def)
next
  case stops
  then show ?thesis using stream_sys_step.stop by (simp add: cam_abs_def)
qed (simp_all add: cam_abs_def)

text \<open>
  With a breaker that counts failures only, the processes made so far are no more than the failures and
  the process being read, until the camera is stopped, and never more than the breaker allows.
\<close>

definition cam_bounded :: "int \<Rightarrow> cam_line \<Rightarrow> bool" where
  "cam_bounded n c \<longleftrightarrow> threads_ok (cam_abs c) \<and> gives_up (cam_abs c)
     \<and> cfg_MaxFailures (v2_config (sm_circuitBreaker (cl_stream c))) = n
     \<and> (\<not> sm_cancelled (cl_stream c) \<longrightarrow>
         int (length (cl_procs c)) \<le> v2_failures (sm_circuitBreaker (cl_stream c)) + int (count (snd (cam_abs c)) Reading))
     \<and> int (length (cl_procs c)) \<le> n"

lemma failure_counted:
  assumes "failing_breaker (sm_circuitBreaker s)" and "v2_state (sm_circuitBreaker s) = StateClosed"
  shows "v2_failures (sm_circuitBreaker (record_stream_failure sd ta tr err s)) = v2_failures (sm_circuitBreaker s) + 1"
  using assms
  by (auto simp: failing_breaker_def record_stream_failure_def execute_def allow_request_def
      on_failure_def transition_to_def increase_backoff_def Let_def)

lemma closed_while_reading:
  assumes "gives_up (s, P)" and "Starting \<in># P \<or> Reading \<in># P"
  shows "failing_breaker (sm_circuitBreaker s)" and "v2_state (sm_circuitBreaker s) = StateClosed"
    and "v2_failures (sm_circuitBreaker s) < cfg_MaxFailures (v2_config (sm_circuitBreaker s))"
proof -
  show f: "failing_breaker (sm_circuitBreaker s)" using assms(1) by (simp add: gives_up_def)
  have "v2_state (sm_circuitBreaker s) \<noteq> StateOpen" using assms by (auto simp: gives_up_def count_eq_zero_iff)
  then show "v2_state (sm_circuitBreaker s) = StateClosed"
      "v2_failures (sm_circuitBreaker s) < cfg_MaxFailures (v2_config (sm_circuitBreaker s))"
    using f by (cases "v2_state (sm_circuitBreaker s)"; auto simp: failing_breaker_def)+
qed

lemma cam_bounded_step:
  assumes "cam_action sd c fts c'" and "cam_bounded n c"
  shows "cam_bounded n c'"
proof -
  have t: "threads_ok (cam_abs c)" and g: "gives_up (cam_abs c)" using assms(2) by (simp_all add: cam_bounded_def)
  have abs: "threads_ok (cam_abs c')" "gives_up (cam_abs c')"
    "v2_config (sm_circuitBreaker (cl_stream c')) = v2_config (sm_circuitBreaker (cl_stream c))"
  proof -
    have r: "stream_reach sd (cam_abs c) (cam_abs c')"
      using cam_action_refines [OF assms(1)] by (auto intro: stream_reach.intros)
    show "threads_ok (cam_abs c')" by (rule threads_ok_reach [OF r t])
    show "gives_up (cam_abs c')" by (rule gives_up_reach [OF r t g])
    show "v2_config (sm_circuitBreaker (cl_stream c')) = v2_config (sm_circuitBreaker (cl_stream c))"
      using stream_config_reach [OF r] by (simp add: cam_abs_def)
  qed
  let ?f = "\<lambda>c. v2_failures (sm_circuitBreaker (cl_stream c))"
  have b: "\<not> sm_cancelled (cl_stream c) \<longrightarrow> int (length (cl_procs c)) \<le> ?f c + int (count (snd (cam_abs c)) Reading)"
      "int (length (cl_procs c)) \<le> n"
    using assms(2) by (simp_all add: cam_bounded_def)
  have fin: ?thesis
    if "\<not> sm_cancelled (cl_stream c') \<longrightarrow> int (length (cl_procs c')) \<le> ?f c' + int (count (snd (cam_abs c')) Reading)"
      "int (length (cl_procs c')) \<le> n"
    using abs assms(2) that by (simp add: cam_bounded_def)
  from assms(1) show ?thesis
  proof cases
    case (start_fails T ta tr err)
    then have "?f c' = ?f c + 1" using g closed_while_reading failure_counted by (simp add: cam_abs_def)
    then show ?thesis using b start_fails by (intro fin) (auto simp: cam_abs_def)
  next
    case (starts T)
    then have "count (image_mset pc_of T) Reading = 0" "?f c < n"
      using t closed_while_reading(3) [of "cl_stream c" "image_mset pc_of (cl_threads c)"] g assms(2)
      by (auto simp: cam_abs_def threads_ok_def ffmpeg_threads_def cam_bounded_def)
    then show ?thesis using b starts by (intro fin) (auto simp: cam_abs_def)
  next
    case (read_fails i T ta tr err)
    then have "?f c' = ?f c + 1" using g closed_while_reading failure_counted by (simp add: cam_abs_def)
    then show ?thesis using b read_fails by (intro fin) (auto simp: cam_abs_def)
  next
    case (reads_byte i T now b p s)
    then have "?f c' = ?f c" "sm_cancelled s = sm_cancelled (cl_stream c)"
      using proc_byte_stream [OF reads_byte(5)] by auto
    then show ?thesis using b reads_byte by (intro fin) (auto simp: cam_abs_def)
  next
    case (takes_nothing now s)
    then show ?thesis using b by (intro fin) (auto simp: cam_abs_def publish_take_eq split: if_splits)
  next
    case (takes now frame m start s)
    then show ?thesis using b by (intro fin) (auto simp: cam_abs_def publish_take_eq split: if_splits)
  qed (use b in \<open>(intro fin; simp add: cam_abs_def stop_stream_def)+\<close>)
qed

lemma line_cam_invariant:
  assumes "\<And>c fts c'. cam_action sd c fts c' \<Longrightarrow> I c \<Longrightarrow> I c'" and "I (cam_start s0)"
    and "(line_action api notify sd)\<^sup>*\<^sup>* (line_start s0 p w) l"
  shows "I (ln_cam l)"
  using assms(3)
proof induction
  case base
  then show ?case using assms(2) by (simp add: line_start_def)
next
  case (step l l')
  from step.hyps(2) show ?case by cases (use step.IH assms(1) in auto)
qed

text \<open>C40: A camera with the circuit breaker enabled starts at most max_failures FFmpeg processes in its whole
  life, whatever its goroutines and those of its publisher do: every process but the first is preceded
  by a failure, the failures are never forgotten, and at the last one the circuit opens for good.  At any
  moment at most one goroutine of the stream starts or reads a process, or waits to do so.\<close>

theorem ffmpeg_starts_bounded:
  assumes "\<not> sm_running s0" and "\<not> sm_retrying s0" and "v2_state (sm_circuitBreaker s0) = StateClosed"
    and "v2_failures (sm_circuitBreaker s0) = 0" and "v2_totalFailures (sm_circuitBreaker s0) = 0"
    and "cfg_Enabled (v2_config (sm_circuitBreaker s0))"
    and "0 < cfg_MaxFailures (v2_config (sm_circuitBreaker s0))"
    and "cfg_MaxFailures (v2_config (sm_circuitBreaker s0)) \<le> max_i64"
    and "(line_action api notify sd)\<^sup>*\<^sup>* (line_start s0 p w) l"
  shows "int (length (cl_procs (ln_cam l))) \<le> cfg_MaxFailures (v2_config (sm_circuitBreaker s0))
    \<and> size {#pc \<in># cl_threads (ln_cam l). pc \<noteq> LnRetryReturning#} \<le> 1"
proof -
  have start: "cam_bounded (cfg_MaxFailures (v2_config (sm_circuitBreaker s0))) (cam_start s0)"
    using assms(1-8) by (simp add: cam_bounded_def cam_abs_def cam_start_def start_stream_def threads_ok_def
        ffmpeg_threads_def gives_up_def failing_breaker_def)
  have b: "cam_bounded (cfg_MaxFailures (v2_config (sm_circuitBreaker s0))) (ln_cam l)"
    by (rule line_cam_invariant [where I = "cam_bounded (cfg_MaxFailures (v2_config (sm_circuitBreaker s0)))"
          and ?s0.0 = s0, OF _ start assms(9)]) (rule cam_bounded_step)
  have n: "size {#pc \<in># T. pc \<noteq> LnRetryReturning#}
      = ffmpeg_threads (image_mset pc_of T) + count (image_mset pc_of T) Retrying" for T
  proof (induction T)
    case (add x T)
    then show ?case by (cases x) (simp_all add: ffmpeg_threads_def)
  qed (simp add: ffmpeg_threads_def)
  show ?thesis using b n [of "cl_threads (ln_cam l)"] by (simp add: cam_bounded_def cam_abs_def threads_ok_def)
qed

lemma line_cam:
  assumes "ps_slot (ln_pub l) \<noteq> PubPanic" and "(\<lambda>c c'. cam_action sd c [] c')\<^sup>*\<^sup>* (ln_cam l) c"
  shows "(line_action api notify sd)\<^sup>*\<^sup>* l (l\<lparr>ln_cam := c\<rparr>)"
  using assms(2)
proof induction
  case (step c c')
  have "line_action api notify sd (l\<lparr>ln_cam := c\<rparr>) (l\<lparr>ln_cam := c'\<rparr>)"
    using cams [of "l\<lparr>ln_cam := c\<rparr>" sd "[]" c' api notify] assms(1) step.hyps(2) by simp
  with step.IH show ?case by (rule rtranclp.rtrancl_into_rtrancl [of "line_action api notify sd"])
qed simp

text \<open>A camera whose first process has been started.\<close>

definition first_started :: "camera_stream \<Rightarrow> cam_line" where
  "first_started s = \<lparr>cl_stream = s\<lparr>sm_running := True\<rparr>, cl_threads = {#LnTesting 0#}, cl_procs = [fresh_proc],
     cl_loop = LoopTesting\<rparr>"

lemma start_first:
  assumes "\<not> sm_running s" and "\<not> sm_cancelled s"
  shows "cam_action sd (cam_start s) [] (first_started s)"
proof -
  have "cl_threads (cam_start s) = add_mset LnStarting {#}" "\<not> sm_cancelled (cl_stream (cam_start s))"
    using assms by (simp_all add: cam_start_def start_stream_def)
  from starts [OF this, of sd] show ?thesis
    using assms(1) by (simp add: cam_start_def start_stream_def first_started_def)
qed

theorem ffmpeg_starts_bounded_witness:
  "\<exists>l. (line_action memory_broker2 True (\<lambda>_. []))\<^sup>*\<^sup>* (line_start one_failure_stream demo_publisher2 (1, {0}, 0, [])) l
    \<and> length (cl_procs (ln_cam l)) = 1 \<and> size {#pc \<in># cl_threads (ln_cam l). pc \<noteq> LnRetryReturning#} \<le> 1"
proof -
  let ?l = "line_start one_failure_stream demo_publisher2 (1, {0}, 0, [])
    :: (nat, unit, nat \<times> nat set \<times> nat \<times> message2 list) line_sys"
  have r: "\<not> sm_running one_failure_stream" "\<not> sm_cancelled one_failure_stream"
    by (simp_all add: one_failure_stream_def new_camera_stream_def)
  have "(\<lambda>c c'. cam_action (\<lambda>_. []) c [] c')\<^sup>*\<^sup>* (ln_cam ?l) (first_started one_failure_stream)"
    using start_first [OF r] by (simp add: line_start_def r_into_rtranclp)
  moreover have "ps_slot (ln_pub ?l) \<noteq> PubPanic" by (simp add: line_start_def pub_start_def)
  ultimately have l: "(line_action memory_broker2 True (\<lambda>_. []))\<^sup>*\<^sup>* ?l (?l\<lparr>ln_cam := first_started one_failure_stream\<rparr>)"
    using line_cam by blast
  from ffmpeg_starts_bounded [OF r(1) one_failure_stream_facts(1-5) _ _ l] one_failure_stream_facts(6)
  show ?thesis using l by (intro exI [of _ "?l\<lparr>ln_cam := first_started one_failure_stream\<rparr>"])
      (simp add: first_started_def)
qed

subsection \<open>Two processes at a time\<close>

text \<open>
  A failed read neither kills the process nor waits for it: when FFmpeg has only closed its output, the
  next process is started beside it, and both run until the camera is stopped.
\<close>

lemma two_ffmpeg_processes:
  "\<exists>c. (\<lambda>c c'. cam_action sd c [] c')\<^sup>*\<^sup>* (cam_start demo_stream) c
    \<and> length (filter pr_running (cl_procs c)) = 2 \<and> \<not> sm_cancelled (cl_stream c)"
proof -
  let ?step = "\<lambda>c c'. cam_action sd c [] c'"
  let ?r = "record_stream_failure sd (1, 1) (1, 1) (errorf ''EOF'')"
  let ?c1 = "first_started demo_stream"
  let ?c2 = "?c1\<lparr>cl_threads := {#LnReading 0#}\<rparr>"
  let ?c3 = "?c1\<lparr>cl_stream := ?r (cl_stream ?c1), cl_threads := {#LnFailed#}\<rparr>"
  let ?c4 = "?c1\<lparr>cl_stream := (?r (cl_stream ?c1))\<lparr>sm_retrying := True\<rparr>, cl_threads := {#LnRetrying#}\<rparr>"
  let ?c5 = "?c4\<lparr>cl_threads := {#LnStarting, LnRetryReturning#}\<rparr>"
  let ?c6 = "?c4\<lparr>cl_threads := {#LnTesting 1, LnRetryReturning#}, cl_procs := [fresh_proc, fresh_proc]\<rparr>"
  have r: "\<not> sm_running demo_stream" by (simp add: demo_stream_def new_camera_stream_def)
  have closed: "v2_state (sm_circuitBreaker (cl_stream ?c4)) = StateClosed"
    by (simp add: first_started_def record_stream_failure_def execute_def demo_stream_def new_camera_stream_def
        new_circuit_breaker_def fill_cb_config_def default_cb_config_def Let_def)
  have 1: "?step (cam_start demo_stream) ?c1" using start_first [OF r demo_stream_facts(3)] by simp
  have 2: "?step ?c1 ?c2" using reader_goes_on [of ?c1 0 "{#}" sd] by (simp add: first_started_def)
  have 3: "?step ?c2 ?c3" using read_fails [of ?c2 0 "{#}" sd "(1, 1)" "(1, 1)" "errorf ''EOF''"]
    by (simp add: first_started_def)
  have 4: "?step ?c3 ?c4" using schedules [of ?c3 "{#}" sd] by (simp add: first_started_def)
  have "retry_round 2 (cl_stream ?c4) = RetryStart"
    using closed by (simp add: retry_round_def stats2_def Let_def first_started_def)
  then have 5: "?step ?c4 ?c5" using retry_starts [of ?c4 "{#}" 2 sd] by simp
  have 6: "?step ?c5 ?c6" using starts [of ?c5 "{#LnRetryReturning#}" sd] by (simp add: first_started_def)
  note S = rtranclp.rtrancl_into_rtrancl [of ?step]
  have "?step\<^sup>*\<^sup>* (cam_start demo_stream) ?c6"
    using S [OF S [OF S [OF S [OF S [OF r_into_rtranclp [of ?step, OF 1] 2] 3] 4] 5] 6] .
  moreover have "length (filter pr_running (cl_procs ?c6)) = 2" "\<not> sm_cancelled (cl_stream ?c6)"
    by (simp_all add: fresh_proc_def first_started_def)
  ultimately show ?thesis by blast
qed

subsection \<open>One image on its way\<close>

lemma cam_reads:
  assumes "cl_threads c = {#LnTesting i#}" and "i < length (cl_procs c)" and "\<not> sm_cancelled (cl_stream c)"
    and "final stream_step (pr_frameBuffer (cl_procs c ! i), cl_stream c) (map (ByteIn t) bs) = (fb, s)"
  shows "\<exists>p. (\<lambda>c c'. cam_action sd c [] c')\<^sup>*\<^sup>* c (c\<lparr>cl_stream := s, cl_procs := (cl_procs c)[i := p]\<rparr>)"
  using assms
proof (induction bs arbitrary: c)
  case Nil
  then have "c\<lparr>cl_stream := s, cl_procs := (cl_procs c)[i := cl_procs c ! i]\<rparr> = c" by (cases c) simp
  then show ?case by (intro exI [of _ "cl_procs c ! i"]) simp
next
  case (Cons b bs)
  let ?step = "\<lambda>c c'. cam_action sd c [] c'"
  let ?c1 = "c\<lparr>cl_threads := {#LnReading i#}\<rparr>"
  obtain p1 s1 where b: "proc_byte t b (cl_procs c ! i) (cl_stream c) = (p1, s1)" by (rule prod.exhaust)
  let ?c2 = "c\<lparr>cl_stream := s1, cl_procs := (cl_procs c)[i := p1]\<rparr>"
  have 1: "?step c ?c1" using reader_goes_on [of c i "{#}" sd] Cons.prems(1,3) by simp
  have "c\<lparr>cl_stream := s1, cl_threads := {#LnTesting i#}, cl_procs := (cl_procs c)[i := p1]\<rparr> = ?c2"
    using Cons.prems(1) by (cases c) simp
  moreover have "?step ?c1 (c\<lparr>cl_stream := s1, cl_threads := {#LnTesting i#}, cl_procs := (cl_procs c)[i := p1]\<rparr>)"
    using reads_byte [of ?c1 i "{#}" t b p1 s1 sd] Cons.prems(2) b by simp
  ultimately have 2: "?step ?c1 ?c2" by (simp only:)
  have "sm_cancelled s1 = sm_cancelled (cl_stream c)" using proc_byte_stream [OF b] by auto
  moreover have "(pr_frameBuffer p1, s1) = read_byte t b (pr_frameBuffer (cl_procs c ! i), cl_stream c)"
    using b by (auto simp: proc_byte_def split: prod.splits)
  ultimately obtain p where "?step\<^sup>*\<^sup>* ?c2 (?c2\<lparr>cl_stream := s, cl_procs := (cl_procs ?c2)[i := p]\<rparr>)"
    using Cons.IH [of ?c2] Cons.prems by auto
  with 1 2 show ?case by (intro exI [of _ p]) (auto intro: converse_rtranclp_into_rtranclp)
qed

lemma demo_taken:
  "\<exists>c c'. (\<lambda>c c'. cam_action sd c [] c')\<^sup>*\<^sup>* (cam_start demo_stream) c \<and> cam_action sd c [(tiny_image, 3)] c'
    \<and> sm_ID (cl_stream c') = ''cam1''"
proof -
  let ?step = "\<lambda>c c'. cam_action sd c [] c'"
  let ?c1 = "first_started demo_stream"
  define s0 where "s0 = demo_stream\<lparr>sm_running := True\<rparr>"
  have s0: "stream_ok s0" "queued s0 = []" "ch_cap (sm_frameChan s0) = 5" "sm_ID s0 = ''cam1''"
    using demo_stream_facts(1) unfolding s0_def stream_ok_def by (simp_all add: demo_stream_def new_camera_stream_def)
  define s where "s = take_candidate 2 tiny_image s0"
  have q: "queued s = [tiny_image]"
    using s0(2,3) tiny_image_valid(2) unfolding s_def
    by (cases rule: take_candidate_cases [OF s0(1), of tiny_image 2]) auto
  have r: "\<not> sm_running demo_stream" by (simp add: demo_stream_def new_camera_stream_def)
  have "final stream_step (pr_frameBuffer (cl_procs ?c1 ! 0), cl_stream ?c1) (map (ByteIn 2) tiny_image) = ([], s)"
    using run_bytes_segment(2) [OF tiny_image_valid(1), of s0 2]
    by (simp add: first_started_def fresh_proc_def s_def s0_def)
  then obtain p where p: "?step\<^sup>*\<^sup>* ?c1 (?c1\<lparr>cl_stream := s, cl_procs := (cl_procs ?c1)[0 := p]\<rparr>)"
    using cam_reads [of ?c1 0 2 tiny_image "[]" s sd] demo_stream_facts(3)
    by (auto simp: first_started_def)
  let ?c2 = "?c1\<lparr>cl_stream := s, cl_procs := (cl_procs ?c1)[0 := p]\<rparr>"
  have "?step ?c2 (?c2\<lparr>cl_loop := LoopTaking\<rparr>)"
    using loop_goes_on [of ?c2 sd] demo_stream_facts(3) by (simp add: first_started_def s_def s0_def)
  with p have "?step\<^sup>*\<^sup>* ?c1 (?c2\<lparr>cl_loop := LoopTaking\<rparr>)" by (rule rtranclp.rtrancl_into_rtrancl [of ?step])
  then have run: "?step\<^sup>*\<^sup>* (cam_start demo_stream) (?c2\<lparr>cl_loop := LoopTaking\<rparr>)"
    by (rule converse_rtranclp_into_rtranclp [of ?step, OF start_first [OF r demo_stream_facts(3)]])
  obtain n s' where t: "publish_take 3 s = (Some (tiny_image, n, 3), s')" "sm_ID s' = ''cam1''"
    using q s0(4) candidate_ID [of 2 tiny_image s0] by (simp add: publish_take_eq s_def)
  then have "cam_action sd (?c2\<lparr>cl_loop := LoopTaking\<rparr>) [(tiny_image, 3)]
      (?c2\<lparr>cl_loop := LoopTaking, cl_stream := s', cl_loop := LoopTesting\<rparr>)"
    using takes [of "?c2\<lparr>cl_loop := LoopTaking\<rparr>" 3 tiny_image n 3 s' sd] by simp
  then show ?thesis using run t(2) by (intro exI conjI) (assumption, assumption, simp)
qed

lemma demo_line:
  "\<exists>l m. (line_action memory_broker2 True sd)\<^sup>*\<^sup>* (line_start demo_stream demo_publisher2 (1, {0}, 0, [])) l
    \<and> ps_world (ln_pub l) = (1, {0}, 0, [m]) \<and> ln_taken l = [(tiny_image, 3)]"
proof -
  let ?l0 = "line_start demo_stream demo_publisher2 (1, {0}, 0, []) :: (nat, unit, nat \<times> nat set \<times> nat \<times> message2 list) line_sys"
  have st: "ln_cam ?l0 = cam_start demo_stream" "ln_flying ?l0 = {#}" "ln_taken ?l0 = []"
    "ln_pub ?l0 = pub_start demo_publisher2 (1, {0}, 0, [])" "ps_slot (ln_pub ?l0) \<noteq> PubPanic"
    by (simp_all add: line_start_def pub_start_def)
  obtain c c' where c: "(\<lambda>c c'. cam_action sd c [] c')\<^sup>*\<^sup>* (ln_cam ?l0) c" "cam_action sd c [(tiny_image, 3)] c'"
    "sm_ID (cl_stream c') = ''cam1''" using demo_taken [of sd] st(1) by auto
  have 0: "(line_action memory_broker2 True sd)\<^sup>*\<^sup>* ?l0 (?l0\<lparr>ln_cam := c\<rparr>)" by (rule line_cam [OF st(5) c(1)])
  let ?l1 = "?l0\<lparr>ln_cam := c', ln_flying := {#(tiny_image, 3)#}, ln_taken := [(tiny_image, 3)]\<rparr>"
  have 1: "line_action memory_broker2 True sd (?l0\<lparr>ln_cam := c\<rparr>) ?l1"
    using cams [of "?l0\<lparr>ln_cam := c\<rparr>" sd "[(tiny_image, 3)]" c' memory_broker2 True] c(2) st by simp
  obtain m where m: "publish_begin ''cam1'' tiny_image 3 demo_publisher2 = (Inr (Some (), m), demo_publisher2)"
    by (simp add: publish_begin_def demo_publisher2_def)
  let ?p = "(pub_start demo_publisher2 (1, {0}, 0, []))\<lparr>ps_slot := PubSending () m\<rparr>"
  have "publish_call (sm_ID (cl_stream (ln_cam ?l1))) tiny_image 3 (ln_pub ?l1) = Some ?p"
    using m c(3) st(4) by (simp add: publish_call_def pub_start_def)
  then have 2: "line_action memory_broker2 True sd ?l1 (?l1\<lparr>ln_flying := {#}, ln_pub := ?p\<rparr>)"
    by (intro calls) simp_all
  let ?l2 = "?l1\<lparr>ln_flying := {#}, ln_pub := ?p\<rparr>"
  let ?q = "?p\<lparr>ps_world := (1, {0}, 0, [m]), ps_slot := PubSent None, ps_sent := [(m, True)]\<rparr>"
  have "pub_action memory_broker2 True ?p ?q"
    using send [of ?p "()" m memory_broker2 None "(1, {0}, 0, [m])" True] by (simp add: memory_broker2_def pub_start_def)
  then have "own_action memory_broker2 True (ln_pub ?l2) ?q" by (simp add: own_action_def)
  then have 3: "line_action memory_broker2 True sd ?l2 (?l2\<lparr>ln_pub := ?q\<rparr>)" by (intro works) simp_all
  note S = rtranclp.rtrancl_into_rtrancl [of "line_action memory_broker2 True sd"]
  have "(line_action memory_broker2 True sd)\<^sup>*\<^sup>* ?l0 (?l2\<lparr>ln_pub := ?q\<rparr>)"
    using S [OF S [OF S [OF 0 1] 2] 3] .
  moreover have "ps_world (ln_pub (?l2\<lparr>ln_pub := ?q\<rparr>)) = (1, {0}, 0, [m])" "ln_taken (?l2\<lparr>ln_pub := ?q\<rparr>) = [(tiny_image, 3)]"
    by simp_all
  ultimately show ?thesis by blast
qed

theorem broker_gets_camera_images_witness:
  "\<exists>l m. (line_action memory_broker2 True (\<lambda>_. []))\<^sup>*\<^sup>* (line_start demo_stream demo_publisher2 (1, {0}, 0, [])) l
    \<and> ps_world (ln_pub l) = (1, {0}, 0, [m]) \<and> m2_body m = tiny_image \<and> m2_timestamp m = 3 \<and> m2_camera_id m = ''cam1''"
proof -
  obtain l m where l: "(line_action memory_broker2 True (\<lambda>_. []))\<^sup>*\<^sup>* (line_start demo_stream demo_publisher2 (1, {0}, 0, [])) l"
    "ps_world (ln_pub l) = (1, {0}, 0, [m])" "ln_taken l = [(tiny_image, 3)]" using demo_line by blast
  have q: "queued demo_stream = []" "p2_publishCount demo_publisher2 = 0" "p2_publishErrors demo_publisher2 = 0"
    by (simp_all add: demo_publisher2_def)
  obtain L where L: "broker2_log (ps_world (ln_pub l)) = broker2_log (1, {0}, 0, []) @ L"
    "mset (map (\<lambda>m. (m2_body m, m2_timestamp m)) L) \<subseteq># mset (ln_taken l)"
    "\<forall>m \<in> set L. m2_camera_id m = sm_ID demo_stream"
    using broker_gets_camera_images [OF memory_broker2_laws(2) demo_stream_facts(1) q l(1)] by blast
  have "L = [m]" using L(1) l(2) by (simp add: broker2_log_def)
  then have "m2_body m = tiny_image \<and> m2_timestamp m = 3 \<and> m2_camera_id m = ''cam1''"
    using L(2,3) l(3) by (auto simp: demo_stream_def new_camera_stream_def)
  then show ?thesis using l by blast
qed

end
