(* ===== verification/Compress.thy ===== *)
theory Compress
  imports JpegScan
begin

section \<open>Compression\<close>

text \<open>
  \<open>pkg/util/compress.go\<close>: two wrappers of the zstd library, which is a parameter: the encoders \<open>'e\<close>,
  writers \<open>'z\<close> and readers \<open>'r\<close>, each call with its error.  A writer writes into the buffer of the
  caller while data is given to it and when it is closed.
\<close>

record ('e, 'z, 'r) zstd_api =
  zs_encoder :: "int \<Rightarrow> goerr + 'e"
  zs_writer :: "goerr + 'z"
  zs_write :: "byte list \<Rightarrow> 'z \<Rightarrow> goerr option \<times> byte list \<times> 'z"
  zs_close :: "'z \<Rightarrow> goerr option \<times> byte list"
  zs_reader :: "byte list \<Rightarrow> goerr + 'r"
  zs_read :: "'r \<Rightarrow> goerr option \<times> byte list"

record 'e compressor =
  cp_encoder :: 'e
  cp_level :: int

definition new_compressor :: "('e, 'z, 'r) zstd_api \<Rightarrow> int \<Rightarrow> goerr + 'e compressor" where
  "new_compressor api level = (case zs_encoder api level of
     Inl e \<Rightarrow> Inl (wrap_err ''zstd new writer: '' e)
   | Inr enc \<Rightarrow> Inr \<lparr>cp_encoder = enc, cp_level = level\<rparr>)"

text \<open>The error of closing the writer is dropped, and the encoder is not used.\<close>

definition compress :: "('e, 'z, 'r) zstd_api \<Rightarrow> byte list \<Rightarrow> 'e compressor \<Rightarrow> goerr + byte list" where
  "compress api data c = (case zs_writer api of
     Inl e \<Rightarrow> Inl e
   | Inr z \<Rightarrow> (case zs_write api data z of
       (Some e, out, z') \<Rightarrow> Inl e
     | (None, out, z') \<Rightarrow> Inr (out @ snd (zs_close api z'))))"

definition decompress :: "('e, 'z, 'r) zstd_api \<Rightarrow> byte list \<Rightarrow> goerr + byte list" where
  "decompress api data = (case zs_reader api data of
     Inl e \<Rightarrow> Inl e
   | Inr r \<Rightarrow> (case zs_read api r of (Some e, out) \<Rightarrow> Inl e | (None, out) \<Rightarrow> Inr out))"

subsection \<open>Round trip\<close>

text \<open>
  The documented behaviour of the library: what a writer has written for some data, when writing and
  closing reported no error, is read back as the data.
\<close>

definition zstd_laws :: "('e, 'z, 'r) zstd_api \<Rightarrow> bool" where
  "zstd_laws api \<longleftrightarrow> (\<forall>z data out z' rest. zs_writer api = Inr z \<longrightarrow> zs_write api data z = (None, out, z') \<longrightarrow>
     zs_close api z' = (None, rest) \<longrightarrow>
     (\<exists>r. zs_reader api (out @ rest) = Inr r \<and> zs_read api r = (None, data)))"

lemma compress_roundtrip:
  assumes "zstd_laws api" and "\<And>z. fst (zs_close api z) = None" and "compress api data c = Inr packed"
  shows "decompress api packed = Inr data"
proof -
  obtain z out z' where z: "zs_writer api = Inr z" "zs_write api data z = (None, out, z')"
    and p: "packed = out @ snd (zs_close api z')"
    using assms(3) by (auto simp: compress_def split: sum.splits prod.splits option.splits)
  have "zs_close api z' = (None, snd (zs_close api z'))" using assms(2) [of z'] by (metis prod.collapse)
  then obtain r where "zs_reader api packed = Inr r" "zs_read api r = (None, data)"
    using assms(1) z unfolding zstd_laws_def p by blast
  then show ?thesis by (simp add: decompress_def)
qed

text \<open>
  A library that keeps its promise, whose writer holds everything back until it is closed and then
  fails: \<open>Compress\<close> reports success with nothing in the result.
\<close>

definition full_disk :: "(unit, byte list, byte list) zstd_api" where
  "full_disk = \<lparr>zs_encoder = (\<lambda>l. Inr ()), zs_writer = Inr [], zs_write = (\<lambda>data z. (None, [], z @ data)),
     zs_close = (\<lambda>z. (Some (errorf ''write error''), [])), zs_reader = Inr, zs_read = (\<lambda>r. (None, r))\<rparr>"

lemma compress_hides_errors:
  "zstd_laws full_disk" "compress full_disk [1, 2, 3] c = Inr []"
  by (simp_all add: zstd_laws_def full_disk_def compress_def)

end
