(* ===== verification/Spec2Isabelle.thy ===== *)
theory Spec2Isabelle
  imports Breaker BreakerV2 FrameBuffer KeyGenerator Monitor MemControl MemControlV2 StreamV2 RedisStore WorkerPool AmqpPublisher PublisherV2 Capture PersistentCapture CaptureLoops Metadata
    CameraV2 ProfilingV2 MainV2 ConfigV1 ConfigV2 Vhost Registration MainV1 Publishers JobV1 CameraLineV2 Compress WindowsService
begin

text \<open>
  This development models edge-video, which captures camera streams with FFmpeg and sends their
  frames to a message broker.  The repository holds two programs: the first (\<open>cmd/\<close>, \<open>internal/\<close>,
  \<open>pkg/\<close>), with a capture pipeline over worker pools, Redis and metadata, and its rewrite in \<open>v2/src\<close>,
  with one stream and one publisher per camera.

  \<^bold>\<open>How the parts interact.\<close>  In the first program a capture (\<open>pkg/camera\<close>) reads images from a
  persistent FFmpeg process or runs FFmpeg once for every frame behind a circuit breaker
  (\<open>pkg/circuit\<close>); the newest image goes into a frame buffer (\<open>pkg/buffer\<close>), a dispatcher hands it to
  the worker pool (\<open>pkg/worker\<close>), and the job publishes it (\<open>pkg/mq\<close>), stores it under a generated key
  (\<open>internal/storage\<close>), announces it (\<open>internal/metadata\<close>) and gives its buffer back to the pool.  A
  monitor keeps which cameras are up, a memory controller (\<open>pkg/memcontrol\<close>) slows or pauses the
  classic captures, and the service registers itself with an API (\<open>pkg/registration\<close>).  In v2 a
  stream cuts FFmpeg's output into images, publishes the newest at the configured rate through a
  publisher that reconnects by itself, and restarts FFmpeg through its own circuit breaker.

  \<^bold>\<open>Shared vocabulary.\<close>
  \<^item> \<open>Prelude\<close>: Go's integers (\<open>int\<close> with the wrap-around written out), durations, points in time, errors
    with the chain \<open>errors.Is\<close> looks through, maps with an unspecified order of iteration, runs of a
    machine and the two locales about them (an invariant kept by every step, a simulation).
  \<^item> \<open>Float64\<close>: the float64 operations the code uses, with their rounding, as rationals with the
    special values; \<open>GoText\<close>: formatting, searching and scanning of text; \<open>GoUrl\<close>: the part of \<open>net/url\<close>
    that finds the path of a URL; \<open>GoChan\<close>: buffered channels and the locale of a bounded queue;
    \<open>JpegScan\<close>: cutting a byte stream at the JPEG markers.
  \<^item> \<open>CircuitSpec\<close>, \<open>MemLevel\<close>: the contracts shared by the two circuit breakers and the two memory
    controllers, as locales that both interpret.

  \<^bold>\<open>The components.\<close>
  \<^item> \<open>Breaker\<close> (\<open>pkg/circuit/breaker.go\<close>): refinement of an abstract breaker by every trace of calls, the
    bounds of the backoff, when it opens, closes and rejects.  \<open>BreakerV2\<close> (\<open>v2/src/circuit_breaker.go\<close>):
    accounting of Execute, the time until the next attempt, the gap between the locks.
  \<^item> \<open>FrameBuffer\<close> (\<open>pkg/buffer/frame_buffer.go\<close>): Push keeps the newest frames, frames are conserved, one
    producer never blocks while two can.
  \<^item> \<open>KeyGenerator\<close>, \<open>RedisStore\<close> (\<open>internal/storage\<close>): keys are distinct and can be parsed, query patterns
    select what they mean, stored frames stay.
  \<^item> \<open>Monitor\<close> (\<open>pkg/camera/monitor.go\<close>): the state of a camera as a function of its history, up and down
    calls alternate.
  \<^item> \<open>CaptureModel\<close> and \<open>Capture\<close> (\<open>pkg/camera/camera.go\<close>): the operations of the pipeline, which gives
    back every buffer once except those of images without a start marker, and the order of a job's
    effects.  \<open>CaptureLoops\<close>: making
    and starting a capture, the rounds of its loops with the monitor and the memory controller.
    \<open>PersistentCapture\<close> (\<open>persistent_capture.go\<close>, \<open>frame_pool.go\<close>): the one FFmpeg process, its restarts
    and the races of its goroutines.
  \<^item> \<open>WorkerPool\<close> (\<open>pkg/worker/pool.go\<close>): every job is queued, being processed or counted.
  \<^item> \<open>AmqpPublisher\<close> (\<open>pkg/mq/amqp.go\<close>), \<open>PublisherV2\<close> (\<open>v2/src/publisher.go\<close>): what is written to the broker
    and what callers are told, one connection at a time, and how a reconnection can be lost.
  \<^item> \<open>Metadata\<close> (\<open>internal/metadata/publisher.go\<close>): the events, and that they fail once the channel they
    were given is closed.  \<open>Registration\<close> (\<open>pkg/registration/client.go\<close>): one request a minute until
    one is accepted.  \<open>Vhost\<close> (\<open>pkg/config\<close>, \<open>pkg/mq\<close>): the virtual host named by a URL.
  \<^item> \<open>MemControl\<close> (\<open>pkg/memcontrol/controller.go\<close>), \<open>MemControlV2\<close> (\<open>v2/src/memory_controller.go\<close>): levels,
    callbacks, collections in flight, throttling, validation.
  \<^item> \<open>StreamV2\<close> (\<open>v2/src/camera_stream.go\<close>): what the publish loop takes is a subsequence of the valid
    images, a publisher that keeps up loses nothing, one goroutine at work on FFmpeg and one retry
    loop at a time, and when reconnecting stops for good.  \<open>CameraV2\<close> (\<open>v2/src/camera.go\<close>, \<open>pool.go\<close>): the capture of single frames.
    \<open>CameraLineV2\<close>: a stream with its FFmpeg processes, its publisher and the goroutine of each frame,
    from FFmpeg's bytes to the broker, through failures, restarts and \<open>Stop\<close>: what is written, how
    often a process is started, and that two may run at a time.
  \<^item> \<open>ProfilingV2\<close> (\<open>v2/src/profiling.go\<close>): counters that do not depend on the interleaving, and the
    report.  \<open>MainV2\<close> (\<open>v2/src/main.go\<close>): the publishers of all cameras side by side on one broker, the
    statistics and the final report.
  \<^item> \<open>ConfigV1\<close> (\<open>pkg/config/config.go\<close>, \<open>cmd/edge-video/main.go\<close>), \<open>ConfigV2\<close> (\<open>v2/src/config.go\<close>): what the
    programs derive from their configuration.
  \<^item> \<open>MainV1\<close> (\<open>cmd/edge-video/main.go\<close>): the components made from the configuration, the start of every
    camera (which panics without a positive interval), and the callbacks of the monitor, which run in
    goroutines of their own: each change of a camera's state is handed to the metadata publisher
    once, but not always in order, and is lost when the publication fails.
  \<^item> \<open>Publishers\<close> (\<open>pkg/mq/mqtt.go\<close>, \<open>publisher.go\<close>): the MQTT publisher and the interface of publishers,
    a locale interpreted on the value \<open>main\<close> chooses, so that what is proved of a sequence of
    publications holds for both brokers.
  \<^item> \<open>JobV1\<close> (\<open>pkg/camera/camera.go\<close>): the jobs of all workers on the real components, call by call, so
    that every announced frame can be fetched and was published.
  \<^item> \<open>Compress\<close> (\<open>pkg/util/compress.go\<close>): the round trip, and an error that is dropped; the capture never
    calls it.
  \<^item> \<open>WindowsService\<close> (\<open>cmd/edge-video-service\<close>): installing is all or nothing for the services (a refused
    source of events may stay) and undone by uninstalling, the control loop, and what the service starts.

  \<^bold>\<open>Conventions.\<close>  The clock is an argument, one reading for each call of \<open>time.Now\<close>.  Third-party
  libraries, FFmpeg and the Go runtime are parameters or outcomes given as arguments; what is
  assumed of them is a named predicate (\<open>amqp_laws\<close>, \<open>amqp2_live_laws\<close>, \<open>amqp2_log_laws\<close>, \<open>closing_laws\<close>,
  \<open>mqtt_laws\<close>, \<open>json_laws\<close>, \<open>redis_laws\<close>, \<open>service_laws\<close>, \<open>zstd_laws\<close>) with a concrete instance that
  satisfies it.  Methods under a mutex are atomic steps;
  where the code works outside its locks the goroutines are interleaved by an inductive step
  relation whose rules are the actions between two synchronisations, and its reachable states are
  what the invariants speak about.  Loops are structural recursion on the attempts left or on the
  inputs, so no fuel is needed; loops that run for ever are given round by round.

  \<^bold>\<open>Not modelled.\<close>  The text of log lines and reports (their values are), reading files and decoding
  YAML, TOML and JSON, flags and signals, the set-up of zap and Prometheus (the gauges a component
  sets appear as events), and the example program that prints a configuration.
\<close>

end
